(* ===== verification/Prelude.thy ===== *)
theory Prelude
  imports Main "HOL-Library.Word"
begin

text \<open>
  Shared vocabulary of the development: the error values of the Go code, the
  option and sum combinators its early returns become, the collections of
  simplification rules the component theories fill, and generic lemmas on lists,
  counting and monotone loops that more than one component uses.
\<close>

named_theorems go_simps \<open>unfolding rules of the small string and number helpers\<close>
named_theorems frame_simps \<open>fields of a state that an operation leaves alone\<close>

section \<open>Errors\<close>

text \<open>
  A Go \<open>error\<close> is a sentinel (compared by \<open>errors.Is\<close>), a formatted message, or
  a message that wraps another error with \<open>%w\<close>. Errors of the JSON decoder carry
  no text here: no code under \<open>src/\<close> looks into them.
\<close>

datatype err =
    ErrCapHit
  | ErrPaused
  | ErrBadSignature
  | ErrIgnored
  | ErrEOF
  | ErrCanceled
  | ErrJSON
  | ErrMsg string
  | ErrWrap string err string

fun err_text :: "err \<Rightarrow> string" where
  "err_text ErrCapHit = ''concurrency cap reached''"
| "err_text ErrPaused = ''spawner paused''"
| "err_text ErrBadSignature = ''invalid signature''"
| "err_text ErrIgnored = ''event ignored''"
| "err_text ErrEOF = ''EOF''"
| "err_text ErrCanceled = ''context canceled''"
| "err_text ErrJSON = ''json''"
| "err_text (ErrMsg m) = m"
| "err_text (ErrWrap pre e post) = pre @ err_text e @ post"

text \<open>\<open>errors.Is(e, target)\<close>: the error itself or one it wraps.\<close>

fun errors_Is :: "err \<Rightarrow> err \<Rightarrow> bool" where
  "errors_Is (ErrWrap pre e post) t = (ErrWrap pre e post = t \<or> errors_Is e t)"
| "errors_Is e t = (e = t)"

lemma errors_Is_refl [simp]: "errors_Is e e"
  by (cases e) auto

lemma int_le_trans: "(a :: nat) \<le> b \<Longrightarrow> int b \<le> k \<Longrightarrow> int a \<le> k"
  by linarith

lemma int_less_trans: "(a :: nat) \<le> b \<Longrightarrow> int b < k \<Longrightarrow> int a < k"
  by linarith

section \<open>Counting and bounded search in lists\<close>

definition count_where :: "('a \<Rightarrow> bool) \<Rightarrow> 'a list \<Rightarrow> nat" where
  "count_where P xs = length (filter P xs)"

lemma count_where_simps [simp]:
  "count_where P [] = 0"
  "count_where P (x # xs) = (if P x then Suc (count_where P xs) else count_where P xs)"
  "count_where P (xs @ ys) = count_where P xs + count_where P ys"
  by (simp_all add: count_where_def)

lemma count_where_le_length: "count_where P xs \<le> length xs"
  by (simp add: count_where_def)

lemma count_where_mono:
  "(\<And>x. x \<in> set xs \<Longrightarrow> P x \<Longrightarrow> Q x) \<Longrightarrow> count_where P xs \<le> count_where Q xs"
  by (induction xs) auto

lemma count_where_zero_iff: "count_where P xs = 0 \<longleftrightarrow> (\<forall>x \<in> set xs. \<not> P x)"
  by (induction xs) auto

lemma card_inter_set_le_count:
  assumes "\<And>x. x \<in> A \<Longrightarrow> P x"
  shows "card (A \<inter> set xs) \<le> count_where P xs"
proof -
  have "A \<inter> set xs \<subseteq> set (filter P xs)" using assms by auto
  then have "card (A \<inter> set xs) \<le> card (set (filter P xs))"
    by (intro card_mono) auto
  also have "\<dots> \<le> length (filter P xs)" by (rule card_length)
  finally show ?thesis by (simp add: count_where_def)
qed

text \<open>The first index of a list whose element satisfies a test, with its element.\<close>

fun find_index :: "('a \<Rightarrow> bool) \<Rightarrow> 'a list \<Rightarrow> nat option" where
  "find_index P [] = None"
| "find_index P (x # xs) = (if P x then Some 0 else map_option Suc (find_index P xs))"

lemma find_index_None: "find_index P xs = None \<longleftrightarrow> (\<forall>x \<in> set xs. \<not> P x)"
  by (induction xs) auto

lemma find_index_Some:
  "find_index P xs = Some i \<Longrightarrow> i < length xs \<and> P (xs ! i) \<and> (\<forall>j < i. \<not> P (xs ! j))"
proof (induction xs arbitrary: i)
  case Nil
  then show ?case by simp
next
  case (Cons x xs)
  show ?case
  proof (cases "P x")
    case True
    with Cons.prems show ?thesis by simp
  next
    case False
    with Cons.prems obtain k where k: "find_index P xs = Some k" "i = Suc k" by auto
    with Cons.IH[OF k(1)] False show ?thesis by (auto simp: less_Suc_eq_0_disj)
  qed
qed

section \<open>Unsigned 64-bit counters\<close>

type_synonym u64 = "64 word"

lemma u64_add_one_neq [simp]: "(x :: u64) + 1 \<noteq> x"
  by simp

section \<open>Decimal numerals\<close>

text \<open>\<open>%d\<close> of \<open>fmt.Sprintf\<close>.\<close>

fun show_nat :: "nat \<Rightarrow> string" where
  "show_nat n = (if n < 10 then [char_of (48 + n)]
                 else show_nat (n div 10) @ [char_of (48 + n mod 10)])"

declare show_nat.simps [simp del]

lemma show_nat_digit:
  "show_nat 0 = ''0''" "show_nat (Suc 0) = ''1''" "show_nat 1 = ''1''" "show_nat 2 = ''2''"
  "show_nat 3 = ''3''" "show_nat 4 = ''4''" "show_nat 5 = ''5''" "show_nat 6 = ''6''"
  "show_nat 7 = ''7''" "show_nat 8 = ''8''" "show_nat 9 = ''9''"
  by (simp_all add: show_nat.simps char_of_def bit_iff_odd)

definition show_int :: "int \<Rightarrow> string" where
  "show_int i = (if i < 0 then CHR ''-'' # show_nat (nat (- i)) else show_nat (nat i))"

definition is_digit :: "char \<Rightarrow> bool" where
  "is_digit c \<longleftrightarrow> (48::nat) \<le> of_char c \<and> of_char c \<le> (57::nat)"

lemma is_digit_char_of: "n < 10 \<Longrightarrow> is_digit (char_of (48 + n :: nat))"
  by (simp add: is_digit_def)

lemma show_nat_digits: "c \<in> set (show_nat n) \<Longrightarrow> is_digit c"
proof (induction n rule: show_nat.induct)
  case (1 n)
  show ?case
  proof (cases "n < 10")
    case True
    with 1 show ?thesis by (simp add: show_nat.simps [of n] is_digit_char_of)
  next
    case False
    with 1 show ?thesis
      by (auto simp: show_nat.simps [of n] is_digit_char_of)
  qed
qed

lemma show_nat_nonempty [simp]: "show_nat n \<noteq> []"
  by (subst show_nat.simps) simp

definition digit_val :: "char \<Rightarrow> nat" where
  "digit_val c = of_char c - 48"

definition read_nat :: "string \<Rightarrow> nat" where
  "read_nat s = foldl (\<lambda>n c. 10 * n + digit_val c) 0 s"

lemma read_show_nat [simp]: "read_nat (show_nat n) = n"
proof (induction n rule: show_nat.induct)
  case (1 n)
  show ?case
  proof (cases "n < 10")
    case True
    then show ?thesis by (simp add: show_nat.simps [of n] read_nat_def digit_val_def)
  next
    case False
    with 1 have "read_nat (show_nat (n div 10)) = n div 10" by simp
    with False show ?thesis
      by (simp add: show_nat.simps [of n] read_nat_def digit_val_def)
  qed
qed

lemma show_nat_inj [simp]: "show_nat m = show_nat n \<longleftrightarrow> m = n"
  by (metis read_show_nat)

end
