(* ===== verification/Go_Strings.thy ===== *)
theory Go_Strings
  imports Prelude
begin

text \<open>
  The parts of Go's \<open>strings\<close>, \<open>encoding/hex\<close> and \<open>path\<close> packages that the
  program calls. A Go string is a byte sequence; a \<^typ>\<open>char\<close> is one byte.
  Whitespace is that of \<open>unicode.IsSpace\<close>, recognised by its UTF-8 encodings.
  \<open>strings.ToLower\<close> takes the table for strings that hold a non-ASCII byte as an
  argument (\<open>U\<close>): Go answers those through its Unicode tables.
\<close>

section \<open>Prefixes, search and splitting\<close>

definition HasPrefix :: "string \<Rightarrow> string \<Rightarrow> bool" where
  "HasPrefix s p \<longleftrightarrow> take (length p) s = p"

definition TrimPrefix :: "string \<Rightarrow> string \<Rightarrow> string" where
  "TrimPrefix s p = (if HasPrefix s p then drop (length p) s else s)"

fun Index :: "string \<Rightarrow> string \<Rightarrow> nat option" where
  "Index [] p = (if p = [] then Some 0 else None)"
| "Index (c # cs) p = (if HasPrefix (c # cs) p then Some 0 else map_option Suc (Index cs p))"

definition Contains :: "string \<Rightarrow> string \<Rightarrow> bool" where
  "Contains s p \<longleftrightarrow> Index s p \<noteq> None"

text \<open>\<open>strings.Split\<close> and \<open>strings.SplitN\<close> with a one-byte separator.\<close>

fun Split :: "char \<Rightarrow> string \<Rightarrow> string list" where
  "Split sep [] = [[]]"
| "Split sep (c # cs) =
     (if c = sep then [] # Split sep cs
      else (case Split sep cs of [] \<Rightarrow> [[c]] | f # fs \<Rightarrow> (c # f) # fs))"

fun SplitN :: "nat \<Rightarrow> char \<Rightarrow> string \<Rightarrow> string list" where
  "SplitN 0 sep s = []"
| "SplitN (Suc 0) sep s = [s]"
| "SplitN (Suc (Suc n)) sep s =
     (let f = takeWhile (\<lambda>c. c \<noteq> sep) s in
      if f = s then [s] else f # SplitN (Suc n) sep (drop (Suc (length f)) s))"

fun join :: "string \<Rightarrow> string list \<Rightarrow> string" where
  "join sep [] = []"
| "join sep [x] = x"
| "join sep (x # y # ys) = x @ sep @ join sep (y # ys)"

lemma HasPrefix_append [simp]: "HasPrefix (p @ s) p"
  by (simp add: HasPrefix_def)

lemma HasPrefix_Nil [simp]: "HasPrefix s []"
  by (simp add: HasPrefix_def)

lemma HasPrefix_Cons: "HasPrefix s (x # p) \<longleftrightarrow> (\<exists>s'. s = x # s' \<and> HasPrefix s' p)"
  by (cases s) (auto simp: HasPrefix_def)

lemma HasPrefix_Cons_Cons [simp]: "HasPrefix (y # s) (x # p) \<longleftrightarrow> y = x \<and> HasPrefix s p"
  by (auto simp: HasPrefix_def)

lemma HasPrefix_Nil_Cons [simp]: "\<not> HasPrefix [] (x # p)"
  by (simp add: HasPrefix_def)

lemma HasPrefix_iff: "HasPrefix s p \<longleftrightarrow> (\<exists>t. s = p @ t)"
  by (metis HasPrefix_append HasPrefix_def append_take_drop_id)

lemma TrimPrefix_append [simp]: "TrimPrefix (p @ s) p = s"
  by (simp add: TrimPrefix_def)

lemma TrimPrefix_id: "\<not> HasPrefix s p \<Longrightarrow> TrimPrefix s p = s"
  by (simp add: TrimPrefix_def)

lemma Index_Some: "Index s p = Some i \<Longrightarrow> i \<le> length s \<and> HasPrefix (drop i s) p"
  by (induction s p arbitrary: i rule: Index.induct) (auto split: if_splits)

lemma Index_prefix: "HasPrefix s p \<Longrightarrow> Index s p = Some 0"
  by (cases s) (auto simp: HasPrefix_iff)

lemma Contains_middle: "Contains (a @ p @ b) p"
proof -
  have "Index (a @ p @ b) p \<noteq> None"
    by (induction a) (auto simp: Index_prefix)
  then show ?thesis by (auto simp: Contains_def)
qed

lemma Index_char_None: "Index s [c] = None \<longleftrightarrow> c \<notin> set s"
  by (induction s "[c]" rule: Index.induct) auto

lemma Index_char_Some: "Index s [c] = Some i \<Longrightarrow> i < length s \<and> s ! i = c \<and> c \<notin> set (take i s)"
proof (induction s arbitrary: i)
  case Nil
  then show ?case by simp
next
  case (Cons x xs)
  then show ?case by (auto split: if_splits)
qed

lemma Index_char_append: "c \<notin> set xs \<Longrightarrow> Index (xs @ c # ys) [c] = Some (length xs)"
  by (induction xs) auto

lemma Split_ne [simp]: "Split sep s \<noteq> []"
  by (induction s) (auto split: list.splits)

lemma Split_no_sep: "sep \<notin> set s \<Longrightarrow> Split sep s = [s]"
  by (induction s) auto

lemma Split_append_sep: "sep \<notin> set x \<Longrightarrow> Split sep (x @ sep # s) = x # Split sep s"
  by (induction x) auto

lemma Split_fields_no_sep: "f \<in> set (Split sep s) \<Longrightarrow> sep \<notin> set f"
  by (induction s arbitrary: f) (auto split: list.splits if_splits)

lemma join_Split: "join [sep] (Split sep s) = s"
proof (induction s)
  case Nil
  then show ?case by simp
next
  case (Cons c cs)
  show ?case
  proof (cases "Split sep cs")
    case Nil
    then show ?thesis by simp
  next
    case (Cons f fs)
    with Cons.IH show ?thesis by (cases fs) auto
  qed
qed

lemma Split_join:
  "xs \<noteq> [] \<Longrightarrow> (\<And>x. x \<in> set xs \<Longrightarrow> sep \<notin> set x) \<Longrightarrow> Split sep (join [sep] xs) = xs"
proof (induction "[sep]" xs rule: join.induct)
  case (2 x)
  then show ?case by (simp add: Split_no_sep)
next
  case (3 x y ys)
  then show ?case by (simp add: Split_append_sep)
qed simp

section \<open>Whitespace\<close>

text \<open>
  The UTF-8 encodings of the code points \<open>unicode.IsSpace\<close> accepts: the ASCII ones,
  U+0085, U+00A0, U+1680, U+2000 to U+200A, U+2028, U+2029, U+202F, U+205F, U+3000.
\<close>

definition space_runes :: "string list" where
  "space_runes =
     [[CHR 0x09], [CHR 0x0A], [CHR 0x0B], [CHR 0x0C], [CHR 0x0D], [CHR 0x20],
      [CHR 0xC2, CHR 0x85], [CHR 0xC2, CHR 0xA0], [CHR 0xE1, CHR 0x9A, CHR 0x80],
      [CHR 0xE2, CHR 0x80, CHR 0xA8], [CHR 0xE2, CHR 0x80, CHR 0xA9],
      [CHR 0xE2, CHR 0x80, CHR 0xAF], [CHR 0xE2, CHR 0x81, CHR 0x9F],
      [CHR 0xE3, CHR 0x80, CHR 0x80]] @
     map (\<lambda>c. [CHR 0xE2, CHR 0x80, c])
       [CHR 0x80, CHR 0x81, CHR 0x82, CHR 0x83, CHR 0x84, CHR 0x85,
        CHR 0x86, CHR 0x87, CHR 0x88, CHR 0x89, CHR 0x8A]"

function strip :: "string list \<Rightarrow> string \<Rightarrow> string" where
  "strip ps s = (case find (\<lambda>p. p \<noteq> [] \<and> HasPrefix s p) ps of
     None \<Rightarrow> s
   | Some p \<Rightarrow> strip ps (drop (length p) s))"
  by pat_completeness auto
termination
  by (relation "measure (\<lambda>(ps, s). length s)")
     (auto simp: find_Some_iff HasPrefix_iff)

declare strip.simps [simp del]

definition TrimSpace :: "string \<Rightarrow> string" where
  "TrimSpace s = rev (strip (map rev space_runes) (rev (strip space_runes s)))"

definition space_at :: "string \<Rightarrow> string option" where
  "space_at s = find (\<lambda>p. p \<noteq> [] \<and> HasPrefix s p) space_runes"

function fields_from :: "string \<Rightarrow> string \<Rightarrow> string list" where
  "fields_from cur [] = (if cur = [] then [] else [cur])"
| "fields_from cur (c # cs) =
     (case space_at (c # cs) of
        Some p \<Rightarrow> (if cur = [] then [] else [cur]) @ fields_from [] (drop (length p) (c # cs))
      | None \<Rightarrow> fields_from (cur @ [c]) cs)"
  by pat_completeness auto
termination
  by (relation "measure (\<lambda>(cur, s). length s)")
     (auto simp: space_at_def find_Some_iff HasPrefix_iff)

definition Fields :: "string \<Rightarrow> string list" where
  "Fields s = fields_from [] s"

text \<open>
  A graphic byte (ASCII 33 to 126) never starts or ends a whitespace encoding.
\<close>

definition graphic :: "char \<Rightarrow> bool" where
  "graphic c \<longleftrightarrow> (33::nat) \<le> of_char c \<and> of_char c \<le> (126::nat)"

definition word_token :: "string \<Rightarrow> bool" where
  "word_token s \<longleftrightarrow> s \<noteq> [] \<and> list_all graphic s"

lemma space_runes_ends:
  assumes "p \<in> set space_runes"
  shows "p \<noteq> []" "\<not> graphic (hd p)" "\<not> graphic (last p)"
  using assms by (auto simp: space_runes_def graphic_def)

lemma no_space_prefix:
  assumes "graphic c" "p \<in> set space_runes" shows "\<not> HasPrefix (c # s) p"
  using space_runes_ends(1,2)[OF assms(2)] assms(1)
  by (cases p) auto

lemma no_space_suffix:
  assumes "graphic c" "p \<in> set space_runes" shows "\<not> HasPrefix (c # s) (rev p)"
  using space_runes_ends(1,3)[OF assms(2)] assms(1)
  by (cases p rule: rev_cases) auto

lemma strip_graphic: "graphic c \<Longrightarrow> strip space_runes (c # s) = c # s"
  by (subst strip.simps)
     (auto simp: find_Some_iff no_space_prefix split: option.splits)

lemma strip_rev_graphic: "graphic c \<Longrightarrow> strip (map rev space_runes) (c # s) = c # s"
  by (subst strip.simps)
     (auto simp: find_None_iff find_Some_iff no_space_suffix split: option.splits)

lemma space_at_graphic [simp]: "graphic c \<Longrightarrow> space_at (c # s) = None"
  by (auto simp: space_at_def find_None_iff dest: no_space_prefix)

lemma newline_is_space: "space_at (CHR 0x0A # s) = Some [CHR 0x0A]"
  by (simp add: space_at_def space_runes_def)

lemma strip_Nil [simp]: "strip ps [] = []"
  by (subst strip.simps) (auto simp: find_None_iff find_Some_iff HasPrefix_def split: option.splits)

lemma TrimSpace_Nil [simp]: "TrimSpace [] = []"
  by (simp add: TrimSpace_def)

lemma strip_rev_newline:
  "strip (map rev space_runes) (CHR 0x0A # s) = strip (map rev space_runes) s"
proof -
  have "find (\<lambda>p. p \<noteq> [] \<and> HasPrefix (CHR 0x0A # s) p) (map rev space_runes) = Some [CHR 0x0A]"
    by (simp add: space_runes_def)
  then show ?thesis by (subst strip.simps) simp
qed

lemma TrimSpace_token:
  assumes "s \<noteq> []" "graphic (hd s)" "graphic (last s)"
  shows "TrimSpace s = s"
proof -
  from assms have 1: "strip space_runes s = s"
    by (cases s) (auto simp: strip_graphic)
  from assms have "strip (map rev space_runes) (rev s) = rev s"
    by (cases s rule: rev_cases) (auto simp: strip_rev_graphic)
  with 1 show ?thesis by (simp add: TrimSpace_def)
qed

lemma TrimSpace_line:
  assumes "s \<noteq> []" "graphic (hd s)" "graphic (last s)"
  shows "TrimSpace (s @ [CHR 0x0A]) = s"
proof -
  from assms have 1: "strip space_runes (s @ [CHR 0x0A]) = s @ [CHR 0x0A]"
    by (cases s) (auto simp: strip_graphic)
  from assms have "strip (map rev space_runes) (rev s) = rev s"
    by (cases s rule: rev_cases) (auto simp: strip_rev_graphic)
  with 1 show ?thesis by (simp add: TrimSpace_def strip_rev_newline)
qed

lemma word_token_ends: "word_token s \<Longrightarrow> s \<noteq> [] \<and> graphic (hd s) \<and> graphic (last s)"
  by (auto simp: word_token_def list_all_iff)

lemma TrimSpace_word [simp]: "word_token s \<Longrightarrow> TrimSpace s = s"
  using word_token_ends TrimSpace_token by blast

lemma fields_from_graphic:
  "list_all graphic x \<Longrightarrow> fields_from cur (x @ s) = fields_from (cur @ x) s"
  by (induction x arbitrary: cur) auto

lemma Fields_word: "word_token x \<Longrightarrow> Fields x = [x]"
  using fields_from_graphic[of x "[]" "[]"] by (simp add: Fields_def word_token_def)

lemma Fields_word_line:
  "word_token x \<Longrightarrow> Fields (x @ CHR 0x0A # s) = x # Fields s"
  by (simp add: Fields_def word_token_def fields_from_graphic newline_is_space)

lemma Fields_lines:
  "list_all word_token xs \<Longrightarrow> Fields (join [CHR 0x0A] xs) = xs"
proof (induction "[CHR 0x0A]" xs rule: join.induct)
  case 1
  then show ?case by (simp add: Fields_def)
next
  case (2 x)
  then show ?case by (simp add: Fields_word)
next
  case (3 x y ys)
  then show ?case by (simp add: Fields_word_line)
qed

section \<open>Case mapping\<close>

definition is_ascii :: "char \<Rightarrow> bool" where
  "is_ascii c \<longleftrightarrow> of_char c < (128::nat)"

definition lower_byte :: "char \<Rightarrow> char" where
  "lower_byte c = (if (65::nat) \<le> of_char c \<and> of_char c \<le> (90::nat)
                   then char_of (of_char c + (32::nat)) else c)"

definition ToLower :: "(string \<Rightarrow> string) \<Rightarrow> string \<Rightarrow> string" where
  "ToLower U s = (if list_all is_ascii s then map lower_byte s else U s)"

lemma is_ascii_lower: "is_ascii c \<Longrightarrow> is_ascii (lower_byte c)"
  by (auto simp: is_ascii_def lower_byte_def)

lemma lower_byte_idem [simp]: "lower_byte (lower_byte c) = lower_byte c"
  by (auto simp: lower_byte_def)

lemma ToLower_ascii_idem:
  "list_all is_ascii s \<Longrightarrow> ToLower U (ToLower U s) = ToLower U s"
  by (auto simp: ToLower_def list_all_iff is_ascii_lower)

section \<open>encoding/hex\<close>

definition hex_digit :: "nat \<Rightarrow> char" where
  "hex_digit n = (if n < 10 then char_of (48 + n) else char_of (87 + n))"

definition unhex :: "char \<Rightarrow> nat option" where
  "unhex c = (let n = of_char c in
     if 48 \<le> n \<and> n \<le> 57 then Some (n - 48)
     else if 97 \<le> n \<and> n \<le> 102 then Some (n - 87)
     else if 65 \<le> n \<and> n \<le> 70 then Some (n - 55) else None)"

definition hex_byte :: "char \<Rightarrow> string" where
  "hex_byte c = [hex_digit (of_char c div 16), hex_digit (of_char c mod 16)]"

definition hex_EncodeToString :: "string \<Rightarrow> string" where
  "hex_EncodeToString bs = concat (map hex_byte bs)"

fun hex_DecodeString :: "string \<Rightarrow> string option" where
  "hex_DecodeString [] = Some []"
| "hex_DecodeString [c] = None"
| "hex_DecodeString (a # b # cs) =
     (case (unhex a, unhex b, hex_DecodeString cs) of
        (Some x, Some y, Some r) \<Rightarrow> Some (char_of (16 * x + y) # r)
      | _ \<Rightarrow> None)"

lemma unhex_hex_digit: "n < 16 \<Longrightarrow> unhex (hex_digit n) = Some n"
  by (auto simp: unhex_def hex_digit_def Let_def)

lemma of_char_lt_256 [simp]: "of_char (c :: char) < (256 :: nat)"
proof -
  have "of_char (c :: char) < (2 ^ 8 :: nat)"
    by (cases c) (auto simp: of_char_def horner_sum_simps)
  then show ?thesis by simp
qed

lemma hex_decode_encode [simp]: "hex_DecodeString (hex_EncodeToString bs) = Some bs"
proof (induction bs)
  case Nil
  then show ?case by (simp add: hex_EncodeToString_def)
next
  case (Cons c bs)
  have lt: "of_char c div 16 < (16::nat)"
    using of_char_lt_256[of c] by (simp add: less_mult_imp_div_less)
  have "16 * (of_char c div 16) + of_char c mod 16 = (of_char c :: nat)" by simp
  with Cons lt show ?case
    by (simp add: hex_EncodeToString_def hex_byte_def unhex_hex_digit)
qed

lemma hex_encode_length: "length (hex_EncodeToString bs) = 2 * length bs"
  by (induction bs) (auto simp: hex_EncodeToString_def hex_byte_def)

lemma hex_digit_graphic: "n < 16 \<Longrightarrow> graphic (hex_digit n)"
  by (auto simp: graphic_def hex_digit_def)

section \<open>path.Clean\<close>

text \<open>
  \<open>path.Clean\<close> (and \<open>filepath.Clean\<close> on Unix): drop empty and \<open>.\<close> elements, and
  let each \<open>..\<close> cancel the element before it; \<open>out\<close> holds the kept elements, last
  one first.
\<close>

fun clean_elems :: "bool \<Rightarrow> string list \<Rightarrow> string list \<Rightarrow> string list" where
  "clean_elems rooted out [] = rev out"
| "clean_elems rooted out (e # es) =
     (if e = [] \<or> e = ''.'' then clean_elems rooted out es
      else if e = ''..'' then
        (case out of
           [] \<Rightarrow> clean_elems rooted (if rooted then [] else [''..'']) es
         | p # ps \<Rightarrow> clean_elems rooted (if p = ''..'' then ''..'' # out else ps) es)
      else clean_elems rooted (e # out) es)"

definition path_Clean :: "string \<Rightarrow> string" where
  "path_Clean p =
     (let rooted = HasPrefix p ''/'';
          body = join ''/'' (clean_elems rooted [] (Split CHR ''/'' p))
      in if rooted then CHR ''/'' # body else if body = [] then ''.'' else body)"

end
