(* ===== verification/Go_Json.thy ===== *)
theory Go_Json
  imports Go_Strings
begin

text \<open>
  Go's \<open>encoding/json\<close> as the program uses it: the parser of the scanner
  (whitespace, literals, the number grammar, string escapes with surrogate pairs and
  the coercion of invalid UTF-8 to U+FFFD, the nesting limit of 10000), and decoding
  into structs: keys match a field exactly or else by case folding, an unknown key is
  skipped, \<open>null\<close> leaves a scalar alone, a value of the wrong type leaves the field
  alone and is reported at the end, a repeated key decodes over the earlier value.
  Not modelled: elements beyond the length of a slice that a third occurrence of the
  same key would bring back.
\<close>

datatype json =
    JNull
  | JBool bool
  | JNum string
  | JStr string
  | JArr "json list"
  | JObj "(string \<times> json) list"

section \<open>Lexing\<close>

definition json_ws :: "char \<Rightarrow> bool" where
  "json_ws c \<longleftrightarrow> c = CHR 0x20 \<or> c = CHR 0x09 \<or> c = CHR 0x0D \<or> c = CHR 0x0A"

definition skip_ws :: "string \<Rightarrow> string" where
  "skip_ws s = dropWhile json_ws s"

definition expect :: "char \<Rightarrow> string \<Rightarrow> string option" where
  "expect c s = (case s of [] \<Rightarrow> None | x # xs \<Rightarrow> if x = c then Some xs else None)"

definition cont_byte :: "nat \<Rightarrow> nat \<Rightarrow> string \<Rightarrow> nat \<Rightarrow> bool" where
  "cont_byte lo hi s i \<longleftrightarrow> i < length s \<and> lo \<le> of_char (s ! i) \<and> of_char (s ! i) \<le> hi"

text \<open>The length of the well-formed UTF-8 sequence at the head of the text, 0 if none.\<close>

definition utf8_len :: "string \<Rightarrow> nat" where
  "utf8_len s = (case s of [] \<Rightarrow> 0 | c # _ \<Rightarrow>
     let b = (of_char c :: nat); cb = cont_byte 128 191 s in
     if b < 128 then 1
     else if 194 \<le> b \<and> b \<le> 223 then (if cb 1 then 2 else 0)
     else if 224 \<le> b \<and> b \<le> 239 then
       (if cont_byte (if b = 224 then 160 else 128) (if b = 237 then 159 else 191) s 1 \<and> cb 2
        then 3 else 0)
     else if 240 \<le> b \<and> b \<le> 244 then
       (if cont_byte (if b = 240 then 144 else 128) (if b = 244 then 143 else 191) s 1
           \<and> cb 2 \<and> cb 3 then 4 else 0)
     else 0)"

definition utf8_encode :: "nat \<Rightarrow> string" where
  "utf8_encode r = map char_of
     (if r < 128 then [r]
      else if r < 2048 then [192 + r div 64, 128 + r mod 64]
      else if 55296 \<le> r \<and> r \<le> 57343 \<or> 1114111 < r then [239, 191, 189]
      else if r < 65536 then [224 + r div 4096, 128 + r div 64 mod 64, 128 + r mod 64]
      else [240 + r div 262144, 128 + r div 4096 mod 64, 128 + r div 64 mod 64, 128 + r mod 64])"

definition getu4 :: "string \<Rightarrow> nat option" where
  "getu4 s = (if length s < 4 then None else
     case (unhex (s ! 0), unhex (s ! 1), unhex (s ! 2), unhex (s ! 3)) of
       (Some a, Some b, Some c, Some d) \<Rightarrow> Some (4096 * a + 256 * b + 16 * c + d)
     | _ \<Rightarrow> None)"

text \<open>
  The code point of \<open>\u\<close> escape \<open>r\<close> followed by the text \<open>s\<close>, and what is left:
  a high surrogate takes the low surrogate escape after it, any other surrogate
  becomes U+FFFD.
\<close>

definition unescape_u :: "nat \<Rightarrow> string \<Rightarrow> string \<times> string" where
  "unescape_u r s =
     (if 55296 \<le> r \<and> r \<le> 57343 then
        (case (if HasPrefix s [CHR 0x5C, CHR ''u''] then getu4 (drop 2 s) else None) of
           Some r1 \<Rightarrow>
             if r \<le> 56319 \<and> 56320 \<le> r1 \<and> r1 \<le> 57343
             then (utf8_encode (65536 + 1024 * (r - 55296) + (r1 - 56320)), drop 6 s)
             else (utf8_encode 65533, s)
         | None \<Rightarrow> (utf8_encode 65533, s))
      else (utf8_encode r, s))"

definition simple_escape :: "char \<Rightarrow> char option" where
  "simple_escape e =
     (if e = CHR 0x22 \<or> e = CHR 0x5C \<or> e = CHR ''/'' then Some e
      else if e = CHR ''b'' then Some (CHR 0x08) else if e = CHR ''f'' then Some (CHR 0x0C)
      else if e = CHR ''n'' then Some (CHR 0x0A) else if e = CHR ''r'' then Some (CHR 0x0D)
      else if e = CHR ''t'' then Some (CHR 0x09) else None)"

lemma unescape_u_shorter: "length (snd (unescape_u r s)) \<le> length s"
  by (auto simp: unescape_u_def split: option.splits)

text \<open>The body of a string literal, after the opening quote: the text and the rest.\<close>

function json_str :: "string \<Rightarrow> (string \<times> string) option" where
  "json_str [] = None"
| "json_str (c # cs) =
     (if c = CHR 0x22 then Some ([], cs)
      else if c = CHR 0x5C then
        (case cs of [] \<Rightarrow> None
         | e # es \<Rightarrow>
           if e = CHR ''u'' then
             (case getu4 es of None \<Rightarrow> None
              | Some r \<Rightarrow>
                  map_option (\<lambda>(t, u). (fst (unescape_u r (drop 4 es)) @ t, u))
                    (json_str (snd (unescape_u r (drop 4 es)))))
           else (case simple_escape e of None \<Rightarrow> None
                 | Some x \<Rightarrow> map_option (\<lambda>(t, u). (x # t, u)) (json_str es)))
      else if of_char c < (32::nat) then None
      else if utf8_len (c # cs) = 0 then
        map_option (\<lambda>(t, u). (utf8_encode 65533 @ t, u)) (json_str cs)
      else map_option (\<lambda>(t, u). (take (utf8_len (c # cs)) (c # cs) @ t, u))
             (json_str (drop (utf8_len (c # cs)) (c # cs))))"
  by pat_completeness auto
termination
proof (relation "measure length", goal_cases)
  case (2 c cs e es r)
  have "length (snd (unescape_u r (drop 4 es))) \<le> length (drop 4 es)"
    by (rule unescape_u_shorter)
  also have "\<dots> \<le> length es" by simp
  also have "\<dots> < length (c # cs)" using 2 by simp
  finally show ?case by simp
qed auto

declare json_str.simps [simp del]

definition json_digits :: "string \<Rightarrow> (string \<times> string) option" where
  "json_digits s = (let d = takeWhile is_digit s in
     if d = [] then None else Some (d, dropWhile is_digit s))"

definition json_int_part :: "string \<Rightarrow> (string \<times> string) option" where
  "json_int_part s = (case s of [] \<Rightarrow> None
     | c # cs \<Rightarrow> if c = CHR ''0'' then Some ([c], cs) else json_digits s)"

definition json_frac :: "string \<Rightarrow> (string \<times> string) option" where
  "json_frac s = (case expect CHR ''.'' s of None \<Rightarrow> Some ([], s)
     | Some t \<Rightarrow> map_option (\<lambda>(d, u). (CHR ''.'' # d, u)) (json_digits t))"

definition json_exp :: "string \<Rightarrow> (string \<times> string) option" where
  "json_exp s = (case s of [] \<Rightarrow> Some ([], s)
     | e # t \<Rightarrow>
       if e = CHR ''e'' \<or> e = CHR ''E'' then
         (case t of [] \<Rightarrow> None
          | g # u \<Rightarrow>
            if g = CHR ''+'' \<or> g = CHR ''-''
            then map_option (\<lambda>(d, v). (e # g # d, v)) (json_digits u)
            else map_option (\<lambda>(d, v). (e # d, v)) (json_digits t))
       else Some ([], s))"

definition json_num :: "string \<Rightarrow> (string \<times> string) option" where
  "json_num s =
     (let (sg, s1) = (case expect CHR ''-'' s of Some t \<Rightarrow> (''-'', t) | None \<Rightarrow> ([], s)) in
      case json_int_part s1 of None \<Rightarrow> None | Some (ip, s2) \<Rightarrow>
      (case json_frac s2 of None \<Rightarrow> None | Some (fp, s3) \<Rightarrow>
      (case json_exp s3 of None \<Rightarrow> None | Some (ep, s4) \<Rightarrow> Some (sg @ ip @ fp @ ep, s4))))"

section \<open>Values\<close>

text \<open>
  The first argument is fuel (spent by every call), the second the number of open
  brackets. \<open>json_fuel\<close> below is enough fuel for every text.
\<close>

definition json_max_depth :: nat where
  "json_max_depth = 10000"

fun json_value :: "nat \<Rightarrow> nat \<Rightarrow> string \<Rightarrow> (json \<times> string) option"
and json_elems :: "nat \<Rightarrow> nat \<Rightarrow> string \<Rightarrow> (json list \<times> string) option"
and json_members :: "nat \<Rightarrow> nat \<Rightarrow> string \<Rightarrow> ((string \<times> json) list \<times> string) option"
where
  "json_value 0 d s = None"
| "json_value (Suc n) d s =
     (case skip_ws s of [] \<Rightarrow> None
      | c # cs \<Rightarrow>
        if c = CHR ''{'' then
          (if json_max_depth \<le> d then None
           else case expect CHR ''}'' (skip_ws cs) of
             Some r \<Rightarrow> Some (JObj [], r)
           | None \<Rightarrow> map_option (\<lambda>(ms, r). (JObj ms, r)) (json_members n (Suc d) cs))
        else if c = CHR ''['' then
          (if json_max_depth \<le> d then None
           else case expect CHR '']'' (skip_ws cs) of
             Some r \<Rightarrow> Some (JArr [], r)
           | None \<Rightarrow> map_option (\<lambda>(js, r). (JArr js, r)) (json_elems n (Suc d) cs))
        else if c = CHR 0x22 then map_option (\<lambda>(t, r). (JStr t, r)) (json_str cs)
        else if HasPrefix (c # cs) ''null'' then Some (JNull, drop 4 (c # cs))
        else if HasPrefix (c # cs) ''true'' then Some (JBool True, drop 4 (c # cs))
        else if HasPrefix (c # cs) ''false'' then Some (JBool False, drop 5 (c # cs))
        else map_option (\<lambda>(t, r). (JNum t, r)) (json_num (c # cs)))"
| "json_elems 0 d s = None"
| "json_elems (Suc n) d s =
     (case json_value n d s of None \<Rightarrow> None
      | Some (j, r) \<Rightarrow>
        (case expect CHR '']'' (skip_ws r) of
           Some r1 \<Rightarrow> Some ([j], r1)
         | None \<Rightarrow>
           (case expect CHR '','' (skip_ws r) of None \<Rightarrow> None
            | Some r1 \<Rightarrow> map_option (\<lambda>(js, r2). (j # js, r2)) (json_elems n d r1))))"
| "json_members 0 d s = None"
| "json_members (Suc n) d s =
     (case expect CHR 0x22 (skip_ws s) of None \<Rightarrow> None
      | Some s1 \<Rightarrow>
        (case json_str s1 of None \<Rightarrow> None
         | Some (k, s2) \<Rightarrow>
           (case expect CHR '':'' (skip_ws s2) of None \<Rightarrow> None
            | Some s3 \<Rightarrow>
              (case json_value n d s3 of None \<Rightarrow> None
               | Some (j, r) \<Rightarrow>
                 (case expect CHR ''}'' (skip_ws r) of
                    Some r1 \<Rightarrow> Some ([(k, j)], r1)
                  | None \<Rightarrow>
                    (case expect CHR '','' (skip_ws r) of None \<Rightarrow> None
                     | Some r1 \<Rightarrow>
                       map_option (\<lambda>(ms, r2). ((k, j) # ms, r2)) (json_members n d r1)))))))"

definition json_fuel :: "string \<Rightarrow> nat" where
  "json_fuel s = 2 * length s"

text \<open>The first value of a text (\<open>Decoder.Decode\<close>) and the only one (\<open>Unmarshal\<close>).\<close>

definition json_first :: "string \<Rightarrow> (json \<times> string) option" where
  "json_first s = json_value (json_fuel s) 0 s"

definition json_parse :: "string \<Rightarrow> json option" where
  "json_parse s = (case json_first s of
     Some (j, r) \<Rightarrow> if skip_ws r = [] then Some j else None
   | None \<Rightarrow> None)"


subsection \<open>The fuel is enough\<close>

lemma skip_ws_length: "length (skip_ws s) \<le> length s"
  by (simp add: skip_ws_def length_dropWhile_le)

lemma skip_ws_Cons_length: "skip_ws s = c # cs \<Longrightarrow> length cs < length s"
  using skip_ws_length[of s] by simp

lemma expect_length: "expect c s = Some r \<Longrightarrow> length s = Suc (length r)"
  by (auto simp: expect_def split: list.splits if_splits)

lemma expect_ws_length: "expect c (skip_ws s) = Some r \<Longrightarrow> length r < length s"
  using expect_length[of c "skip_ws s" r] skip_ws_length[of s] by simp

lemma json_str_shorter: "json_str s = Some (t, r) \<Longrightarrow> length r < length s"
proof (induction s arbitrary: t r rule: json_str.induct)
  case 1
  then show ?case by (simp add: json_str.simps)
next
  case (2 c cs)
  have u: "length (snd (unescape_u k (drop 4 es))) \<le> length es" for k es
    using unescape_u_shorter[of k "drop 4 es"] by simp
  show ?case
  proof (cases "c = CHR 0x22 \<or> c \<noteq> CHR 0x5C")
    case True
    with 2 show ?thesis
      by (fastforce simp: json_str.simps split: if_splits)
  next
    case False
    then have c: "c = CHR 0x5C" by simp
    from 2(5) c obtain e es where cs: "cs = e # es"
      by (auto simp: json_str.simps split: list.splits)
    show ?thesis
    proof (cases "e = CHR ''u''")
      case True
      with 2(5) c cs obtain k t' where k: "getu4 es = Some k"
        and s: "json_str (snd (unescape_u k (drop 4 es))) = Some (t', r)"
        by (auto simp: json_str.simps split: option.splits)
      have "length r < length (snd (unescape_u k (drop 4 es)))"
        using 2(1)[OF _ _ cs True k s] c by simp
      with u[of k es] cs show ?thesis by simp
    next
      case False
      with 2(5) c cs obtain x t' where x: "simple_escape e = Some x"
        and s: "json_str es = Some (t', r)"
        by (auto simp: json_str.simps split: option.splits)
      show ?thesis using 2(2)[OF _ _ cs False x s] c cs by simp
    qed
  qed
qed

lemma json_digits_shorter: "json_digits s = Some (d, r) \<Longrightarrow> length r < length s"
  by (cases s) (auto simp: json_digits_def Let_def le_imp_less_Suc length_dropWhile_le split: if_splits)

lemma json_num_shorter: "json_num s = Some (t, r) \<Longrightarrow> length r < length s"
proof -
  assume a: "json_num s = Some (t, r)"
  obtain sg s1 where s1: "(case expect CHR ''-'' s of Some t \<Rightarrow> (''-'', t) | None \<Rightarrow> ([], s)) = (sg, s1)"
    by fastforce
  have 1: "length s1 \<le> length s"
    using s1 by (auto dest: expect_length split: option.splits)
  from a s1 obtain ip s2 fp s3 ep where
    s2: "json_int_part s1 = Some (ip, s2)" and s3: "json_frac s2 = Some (fp, s3)"
    and s4: "json_exp s3 = Some (ep, r)"
    by (auto simp: json_num_def split: option.splits)
  have 2: "length s2 < length s1"
    using s2 by (auto simp: json_int_part_def dest: json_digits_shorter split: list.splits if_splits)
  have 3: "length s3 \<le> length s2"
    using s3 by (auto simp: json_frac_def dest!: expect_length json_digits_shorter split: option.splits)
  have 4: "length r \<le> length s3"
    using s4 by (auto simp: json_exp_def dest!: json_digits_shorter split: list.splits if_splits)
  from 1 2 3 4 show ?thesis by simp
qed

lemma json_rest_shorter:
  "json_value n d s = Some (j, r) \<Longrightarrow> length r < length s"
  "json_elems n d s = Some (js, r) \<Longrightarrow> length r < length s"
  "json_members n d s = Some (ms, r) \<Longrightarrow> length r < length s"
proof (induction n d s and n d s and n d s arbitrary: j r and js r and ms r
       rule: json_value_json_elems_json_members.induct)
  case (2 n d s)
  from 2(3) obtain c cs where c: "skip_ws s = c # cs" by (auto split: list.splits)
  from skip_ws_Cons_length[OF c] have l: "length cs < length s" .
  have "length r < length (c # cs)"
    using 2 c
    by (auto split: if_splits option.splits
        dest!: expect_ws_length json_str_shorter json_num_shorter) fastforce+
  with l show ?case by simp
next
  case (4 n d s)
  from 4(3) obtain j r1 where j: "json_value n d s = Some (j, r1)" by (auto split: option.splits)
  with 4(1) have l: "length r1 < length s" by blast
  show ?case
    using 4(2)[OF j refl] 4(3) j l
    by (auto split: option.splits dest!: expect_ws_length) fastforce
next
  case (6 n d s)
  from 6(3) obtain s1 k s2 s3 j r1 where
    h: "expect CHR 0x22 (skip_ws s) = Some s1" "json_str s1 = Some (k, s2)"
       "expect CHR '':'' (skip_ws s2) = Some s3" "json_value n d s3 = Some (j, r1)"
    by (auto split: option.splits)
  have l: "length r1 < length s"
    using expect_ws_length[OF h(1)] json_str_shorter[OF h(2)] expect_ws_length[OF h(3)]
      6(1)[OF h(1,2) refl h(3) h(4)] by simp
  show ?case
    using 6(2)[OF h(1,2) refl h(3) h(4) refl] 6(3) h l
    by (auto split: option.splits dest!: expect_ws_length) fastforce
qed auto


lemma json_fuel_suffices:
  "json_value n d s = Some (j, r) \<Longrightarrow> 2 * (length s - length r) \<le> m
   \<Longrightarrow> json_value m d s = Some (j, r)"
  "json_elems n d s = Some (js, r) \<Longrightarrow> 2 * (length s - length r) < m
   \<Longrightarrow> json_elems m d s = Some (js, r)"
  "json_members n d s = Some (ms, r) \<Longrightarrow> 2 * (length s - length r) < m
   \<Longrightarrow> json_members m d s = Some (ms, r)"
proof (induction n d s and n d s and n d s arbitrary: j r m and js r m and ms r m
       rule: json_value_json_elems_json_members.induct)
  case (2 n d s)
  have "length r < length s" using 2(3) by (rule json_rest_shorter)
  with 2(4) obtain m' where m: "m = Suc m'" by (cases m) auto
  from 2(3) obtain c cs where c: "skip_ws s = c # cs" by (auto split: list.splits)
  from skip_ws_Cons_length[OF c] have l: "length cs < length s" .
  show ?case
  proof (cases "(c = CHR ''{'' \<and> expect CHR ''}'' (skip_ws cs) = None)
      \<or> (c = CHR ''['' \<and> expect CHR '']'' (skip_ws cs) = None)")
    case False
    with 2(3) c m show ?thesis by (auto split: option.splits if_splits)
  next
    case True
    then show ?thesis
    proof
      assume t: "c = CHR ''{'' \<and> expect CHR ''}'' (skip_ws cs) = None"
      with 2(3) c obtain ms where dd: "\<not> json_max_depth \<le> d"
        and ms: "json_members n (Suc d) cs = Some (ms, r)" "j = JObj ms"
        by (auto split: if_splits)
      from json_rest_shorter(3)[OF ms(1)] l m 2(4) have "2 * (length cs - length r) < m'" by simp
      with 2(1) c t dd ms have "json_members m' (Suc d) cs = Some (ms, r)" by blast
      with c t dd ms m show ?thesis by simp
    next
      assume t: "c = CHR ''['' \<and> expect CHR '']'' (skip_ws cs) = None"
      with 2(3) c obtain js where dd: "\<not> json_max_depth \<le> d"
        and js: "json_elems n (Suc d) cs = Some (js, r)" "j = JArr js"
        by (auto split: if_splits)
      from json_rest_shorter(2)[OF js(1)] l m 2(4) have "2 * (length cs - length r) < m'" by simp
      with 2(2) c t dd js have "json_elems m' (Suc d) cs = Some (js, r)" by fastforce
      with c t dd js m show ?thesis by simp
    qed
  qed
next
  case (4 n d s)
  from 4(4) obtain m' where m: "m = Suc m'" by (cases m) auto
  from 4(3) obtain j r1 where j: "json_value n d s = Some (j, r1)" by (auto split: option.splits)
  have l: "length r1 < length s" using j by (rule json_rest_shorter)
  show ?case
  proof (cases "expect CHR '']'' (skip_ws r1)")
    case (Some r2)
    with 4(3) j have "r = r2" "js = [j]" by auto
    with 4(1)[OF j] 4(4) m Some l expect_ws_length[OF Some] show ?thesis by simp
  next
    case None
    with 4(3) j obtain r2 js' where h: "expect CHR '','' (skip_ws r1) = Some r2"
      "json_elems n d r2 = Some (js', r)" "js = j # js'"
      by (auto split: option.splits)
    have "length r < length r2" using h(2) by (rule json_rest_shorter)
    with 4(4) m l expect_ws_length[OF h(1)]
    have "2 * (length s - length r1) \<le> m'" "2 * (length r2 - length r) < m'" by simp_all
    with 4(1)[OF j] 4(2)[OF j refl None h(1,2)] h None m show ?thesis by simp
  qed
next
  case (6 n d s)
  from 6(4) obtain m' where m: "m = Suc m'" by (cases m) auto
  from 6(3) obtain s1 k s2 s3 j r1 where
    h: "expect CHR 0x22 (skip_ws s) = Some s1" "json_str s1 = Some (k, s2)"
       "expect CHR '':'' (skip_ws s2) = Some s3" "json_value n d s3 = Some (j, r1)"
    by (auto split: option.splits)
  have l: "length s3 < length s" "length r1 < length s3"
    using expect_ws_length[OF h(1)] json_str_shorter[OF h(2)] expect_ws_length[OF h(3)]
      json_rest_shorter(1)[OF h(4)] by simp_all
  show ?case
  proof (cases "expect CHR ''}'' (skip_ws r1)")
    case (Some r2)
    with 6(3) h have "r = r2" "ms = [(k, j)]" by auto
    with 6(1)[OF h(1,2) refl h(3,4)] 6(4) m h Some l expect_ws_length[OF Some]
    show ?thesis by simp
  next
    case None
    with 6(3) h obtain r2 ms' where g: "expect CHR '','' (skip_ws r1) = Some r2"
      "json_members n d r2 = Some (ms', r)" "ms = (k, j) # ms'"
      by (auto split: option.splits)
    have "length r < length r2" using g(2) by (rule json_rest_shorter)
    with 6(4) m l expect_ws_length[OF g(1)]
    have "2 * (length s3 - length r1) \<le> m'" "2 * (length r2 - length r) < m'" by simp_all
    with 6(1)[OF h(1,2) refl h(3,4)] 6(2)[OF h(1,2) refl h(3,4) refl None g(1,2)] h g None m
    show ?thesis by simp
  qed
qed auto

text \<open>What any amount of fuel reads, \<open>json_first\<close> reads.\<close>

lemma json_first_complete: "json_value n 0 s = Some (j, r) \<Longrightarrow> json_first s = Some (j, r)"
  unfolding json_first_def json_fuel_def
  by (erule json_fuel_suffices) simp

section \<open>Decoding into Go values\<close>

text \<open>
  A decoder takes the JSON value and the current Go value to the new Go value and
  whether a type error was recorded on the way.
\<close>

type_synonym 'a dec = "json \<Rightarrow> 'a \<Rightarrow> 'a \<times> bool"

fun dec_string :: "string dec" where
  "dec_string (JStr s) v = (s, False)"
| "dec_string JNull v = (v, False)"
| "dec_string _ v = (v, True)"

fun dec_bool :: "bool dec" where
  "dec_bool (JBool b) v = (b, False)"
| "dec_bool JNull v = (v, False)"
| "dec_bool _ v = (v, True)"

text \<open>\<open>strconv.ParseInt(s, 10, 64)\<close> on a number of the JSON grammar.\<close>

definition parse_int64 :: "string \<Rightarrow> int option" where
  "parse_int64 s =
     (let neg = HasPrefix s ''-''; ds = TrimPrefix s ''-'' in
      if ds \<noteq> [] \<and> list_all is_digit ds then
        (let v = (if neg then - int (read_nat ds) else int (read_nat ds)) in
         if - (2 ^ 63) \<le> v \<and> v < 2 ^ 63 then Some v else None)
      else None)"

fun dec_int64 :: "int dec" where
  "dec_int64 (JNum s) v = (case parse_int64 s of Some i \<Rightarrow> (i, False) | None \<Rightarrow> (v, True))"
| "dec_int64 JNull v = (v, False)"
| "dec_int64 _ v = (v, True)"

fun dec_elems :: "'a dec \<Rightarrow> 'a \<Rightarrow> json list \<Rightarrow> 'a list \<Rightarrow> 'a list \<times> bool" where
  "dec_elems d z [] vs = ([], False)"
| "dec_elems d z (j # js) vs =
     (let (x, e) = d j (case vs of [] \<Rightarrow> z | v # _ \<Rightarrow> v);
          (xs, e') = dec_elems d z js (tl vs)
      in (x # xs, e \<or> e'))"

fun dec_slice :: "'a dec \<Rightarrow> 'a \<Rightarrow> 'a list dec" where
  "dec_slice d z (JArr js) vs = dec_elems d z js vs"
| "dec_slice d z JNull vs = ([], False)"
| "dec_slice d z _ vs = (vs, True)"

definition dec_field :: "('r \<Rightarrow> 'a) \<Rightarrow> ('a \<Rightarrow> 'r \<Rightarrow> 'r) \<Rightarrow> 'a dec \<Rightarrow> 'r dec" where
  "dec_field get put d j r = (let (x, e) = d j (get r) in (put x r, e))"

text \<open>
  Case folding of keys: ASCII letters go to upper case; the two non-ASCII letters that
  fold to ASCII ones are U+017F (to S) and U+212A (to K).
\<close>

definition upper_byte :: "char \<Rightarrow> char" where
  "upper_byte c = (if (97::nat) \<le> of_char c \<and> of_char c \<le> (122::nat)
                   then char_of (of_char c - (32::nat)) else c)"

function fold_name :: "string \<Rightarrow> string" where
  "fold_name [] = []"
| "fold_name (c # cs) =
     (if HasPrefix (c # cs) [CHR 0xC5, CHR 0xBF] then CHR ''S'' # fold_name (drop 2 (c # cs))
      else if HasPrefix (c # cs) [CHR 0xE2, CHR 0x84, CHR 0xAA]
        then CHR ''K'' # fold_name (drop 3 (c # cs))
      else upper_byte c # fold_name cs)"
  by pat_completeness auto
termination by (relation "measure length") auto

definition lookup_field :: "(string \<times> 'a) list \<Rightarrow> string \<Rightarrow> 'a option" where
  "lookup_field fs k = (case map_of fs k of
     Some d \<Rightarrow> Some d
   | None \<Rightarrow> map_of (map (\<lambda>(n, d). (fold_name n, d)) fs) (fold_name k))"

fun dec_members :: "(string \<times> 'r dec) list \<Rightarrow> (string \<times> json) list \<Rightarrow> 'r \<Rightarrow> 'r \<times> bool" where
  "dec_members fs [] r = (r, False)"
| "dec_members fs ((k, j) # ms) r =
     (case lookup_field fs k of
        None \<Rightarrow> dec_members fs ms r
      | Some d \<Rightarrow> (let (r1, e1) = d j r; (r2, e2) = dec_members fs ms r1 in (r2, e1 \<or> e2)))"

fun dec_struct :: "(string \<times> 'r dec) list \<Rightarrow> 'r dec" where
  "dec_struct fs (JObj ms) r = dec_members fs ms r"
| "dec_struct fs JNull r = (r, False)"
| "dec_struct fs _ r = (r, True)"

text \<open>
  \<open>json.Unmarshal(b, &v)\<close> and \<open>json.NewDecoder(body).Decode(&v)\<close>: the value
  afterwards and the error. A syntax error leaves the value alone.
\<close>

definition json_Unmarshal :: "'a dec \<Rightarrow> string \<Rightarrow> 'a \<Rightarrow> 'a \<times> err option" where
  "json_Unmarshal d s v = (case json_parse s of
     None \<Rightarrow> (v, Some ErrJSON)
   | Some j \<Rightarrow> (let (v', e) = d j v in (v', if e then Some ErrJSON else None)))"

definition json_Decode :: "'a dec \<Rightarrow> string \<Rightarrow> 'a \<Rightarrow> 'a \<times> err option" where
  "json_Decode d s v = (case json_first s of
     None \<Rightarrow> (v, Some (if skip_ws s = [] then ErrEOF else ErrJSON))
   | Some (j, _) \<Rightarrow> (let (v', e) = d j v in (v', if e then Some ErrJSON else None)))"

text \<open>
  Decoding an object into \<open>map[string]json.RawMessage\<close>: each value as the exact text
  of the input it was read from.
\<close>

fun raw_members :: "nat \<Rightarrow> string \<Rightarrow> (string \<times> string) list" where
  "raw_members 0 s = []"
| "raw_members (Suc n) s =
     (case expect CHR 0x22 (skip_ws s) of None \<Rightarrow> []
      | Some s1 \<Rightarrow>
        (case json_str s1 of None \<Rightarrow> []
         | Some (k, s2) \<Rightarrow>
           (case expect CHR '':'' (skip_ws s2) of None \<Rightarrow> []
            | Some s3 \<Rightarrow>
              (let v = skip_ws s3 in
               case json_first v of None \<Rightarrow> []
               | Some (_, r) \<Rightarrow>
                 (k, take (length v - length r) v) #
                 (case expect CHR '','' (skip_ws r) of None \<Rightarrow> []
                  | Some r1 \<Rightarrow> raw_members n r1)))))"

definition json_raw_map :: "string \<Rightarrow> (string \<times> string) list option" where
  "json_raw_map s = (case json_parse s of
     Some (JObj _) \<Rightarrow>
       (case expect CHR ''{'' (skip_ws s) of
          Some t \<Rightarrow> Some (raw_members (length s) t) | None \<Rightarrow> Some [])
   | Some JNull \<Rightarrow> Some []
   | _ \<Rightarrow> None)"

end
