(* ===== verification/Json_Text.thy ===== *)
theory Json_Text
  imports Go_Json
begin

text \<open>
  The compact rendering of JSON values that \<open>json.NewEncoder\<close> writes for plain values
  (printable ASCII strings without quote and backslash, integers), and its round trip
  through the parser of \<open>Go_Json\<close>. It writes the bodies of the concrete runs; the replies of
  the program are written by \<open>Json_Encode\<close>.
\<close>

definition plain_char :: "char \<Rightarrow> bool" where
  "plain_char c \<longleftrightarrow> (32::nat) \<le> of_char c \<and> of_char c < (127::nat)
     \<and> c \<noteq> CHR 0x22 \<and> c \<noteq> CHR 0x5C"

definition plain_num :: "string \<Rightarrow> bool" where
  "plain_num s \<longleftrightarrow> list_all is_digit s \<and> s \<noteq> [] \<and> (hd s = CHR ''0'' \<longrightarrow> s = ''0'')"

fun plain_json :: "json \<Rightarrow> bool" where
  "plain_json (JNum s) = plain_num s"
| "plain_json (JStr s) = list_all plain_char s"
| "plain_json (JArr js) = list_all plain_json js"
| "plain_json (JObj ms) = list_all (\<lambda>(k, j). list_all plain_char k \<and> plain_json j) ms"
| "plain_json _ = True"

fun json_depth :: "json \<Rightarrow> nat" where
  "json_depth (JArr js) = Suc (foldr max (map json_depth js) 0)"
| "json_depth (JObj ms) = Suc (foldr max (map (\<lambda>(k, j). json_depth j) ms) 0)"
| "json_depth _ = 0"

definition quote :: "string \<Rightarrow> string" where
  "quote s = CHR 0x22 # s @ [CHR 0x22]"

fun json_text :: "json \<Rightarrow> string" where
  "json_text JNull = ''null''"
| "json_text (JBool b) = (if b then ''true'' else ''false'')"
| "json_text (JNum s) = s"
| "json_text (JStr s) = quote s"
| "json_text (JArr js) = ''['' @ join '','' (map json_text js) @ '']''"
| "json_text (JObj ms) =
     ''{'' @ join '','' (map (\<lambda>(k, j). quote k @ '':'' @ json_text j) ms) @ ''}''"

lemma json_str_plain: "list_all plain_char s \<Longrightarrow> json_str (s @ CHR 0x22 # r) = Some (s, r)"
proof (induction s)
  case Nil
  then show ?case by (simp add: json_str.simps)
next
  case (Cons c s)
  then have c: "c \<noteq> CHR 0x22" "c \<noteq> CHR 0x5C" "\<not> of_char c < (32::nat)" "of_char c < (128::nat)"
    by (auto simp: plain_char_def)
  then have "utf8_len (c # s @ CHR 0x22 # r) = 1" by (simp add: utf8_len_def)
  with c Cons show ?case by (simp add: json_str.simps)
qed

text \<open>What may follow a value inside a document, or at its end.\<close>

definition stops :: "string \<Rightarrow> bool" where
  "stops r \<longleftrightarrow> r = [] \<or> json_ws (hd r) \<or> hd r \<in> set '',]}''"

lemma json_num_plain:
  assumes "plain_num s" "stops r" shows "json_num (s @ r) = Some (s, r)"
proof -
  obtain c cs where s: "s = c # cs" using assms(1) by (cases s) (auto simp: plain_num_def)
  have dig: "is_digit c" "\<forall>x \<in> set cs. is_digit x"
    using assms(1) s by (auto simp: plain_num_def list_all_iff)
  have nd: "r = [] \<or> \<not> is_digit (hd r)"
    using assms(2) by (auto simp: stops_def json_ws_def is_digit_def)
  have m: "c \<noteq> CHR ''-''" using dig(1) by (auto simp: is_digit_def)
  have tw: "takeWhile is_digit (s @ r) = s" "dropWhile is_digit (s @ r) = r"
    using dig nd s by (cases r; auto simp: takeWhile_append2)+
  have ip: "json_int_part (s @ r) = Some (s, r)"
    using tw s assms(1) by (auto simp: json_int_part_def json_digits_def plain_num_def Let_def)
  have f: "json_frac r = Some ([], r)"
    using assms(2) by (cases r) (auto simp: json_frac_def expect_def stops_def json_ws_def)
  have e: "json_exp r = Some ([], r)"
    using assms(2) by (cases r) (auto simp: json_exp_def stops_def json_ws_def)
  from ip f e m s show ?thesis by (simp add: json_num_def expect_def)
qed

lemma json_text_head:
  assumes "plain_json j"
  shows "\<exists>c cs. json_text j = c # cs \<and> \<not> json_ws c \<and> c \<noteq> CHR '']'' \<and> c \<noteq> CHR ''}''"
proof (cases j)
  case (JNum s)
  with assms have "s \<noteq> []" "is_digit (hd s)" by (auto simp: plain_num_def list_all_iff)
  with JNum show ?thesis by (cases s) (auto simp: json_ws_def is_digit_def)
qed (auto simp: json_ws_def quote_def)

lemma skip_ws_plain: "\<not> json_ws c \<Longrightarrow> skip_ws (c # cs) = c # cs"
  by (simp add: skip_ws_def)

text \<open>
  A text is read as a value nested at most \<open>k\<close> deep, whatever stops it. The lemmas on arrays
  and objects take the texts, the values and the depths of the parts as functions.
\<close>

definition reads_as :: "string \<Rightarrow> json \<Rightarrow> nat \<Rightarrow> bool" where
  "reads_as t j k \<longleftrightarrow> (\<forall>d r. d + k \<le> json_max_depth \<longrightarrow> stops r \<longrightarrow>
     (\<exists>n. json_value n d (t @ r) = Some (j, r)))"

lemma reads_asI:
  assumes "\<And>d r. d + k \<le> json_max_depth \<Longrightarrow> stops r \<Longrightarrow> json_value n d (t @ r) = Some (j, r)"
  shows "reads_as t j k"
  using assms unfolding reads_as_def by blast

lemma reads_asD:
  assumes "reads_as t j k" "d + k \<le> json_max_depth" "stops r"
  shows "2 * length t \<le> m \<Longrightarrow> json_value m d (t @ r) = Some (j, r)"
proof -
  assume m: "2 * length t \<le> m"
  obtain n where "json_value n d (t @ r) = Some (j, r)"
    using assms by (auto simp: reads_as_def)
  then show ?thesis by (rule json_fuel_suffices) (use m in simp)
qed

lemma elems_read:
  assumes "xs \<noteq> []" "\<forall>x \<in> set xs. reads_as (T x) (V x) (K x) \<and> d + K x \<le> json_max_depth"
  shows "\<exists>n. json_elems n d (join '','' (map T xs) @ CHR '']'' # r) = Some (map V xs, r)"
  using assms
proof (induction xs)
  case Nil
  then show ?case by simp
next
  case (Cons x xs)
  show ?case
  proof (cases xs)
    case Nil
    let ?r = "CHR '']'' # r"
    have "json_value (2 * length (T x)) d (T x @ ?r) = Some (V x, ?r)"
      using Cons.prems by (intro reads_asD) (auto simp: stops_def)
    then have "json_elems (Suc (2 * length (T x))) d (T x @ ?r) = Some ([V x], r)"
      by (simp add: skip_ws_def json_ws_def expect_def)
    with Nil show ?thesis by (simp del: json_elems.simps) blast
  next
    case (Cons x2 xs2)
    let ?t = "join '','' (map T xs) @ CHR '']'' # r"
    obtain n where n: "json_elems n d ?t = Some (map V xs, r)"
      using Cons.IH Cons.prems Cons by auto
    let ?m = "2 * length (T x) + 2 * length ?t + 1"
    have e: "json_elems ?m d ?t = Some (map V xs, r)"
      by (rule json_fuel_suffices(2)[OF n]) simp
    have "json_value ?m d (T x @ CHR '','' # ?t) = Some (V x, CHR '','' # ?t)"
      using Cons.prems by (intro reads_asD) (auto simp: stops_def)
    with e have "json_elems (Suc ?m) d (T x @ CHR '','' # ?t) = Some (V x # map V xs, r)"
      by (simp add: skip_ws_def json_ws_def expect_def del: json_value.simps)
    then have "\<exists>n. json_elems n d (T x @ CHR '','' # ?t) = Some (V x # map V xs, r)"
      by (intro exI[where x = "Suc ?m"])
    with Cons show ?thesis by (simp del: json_elems.simps)
  qed
qed

text \<open>A member: the quoted text \<open>Q x\<close>, which is read as \<open>N x\<close>, and a value.\<close>

definition reads_member ::
  "('a \<Rightarrow> string) \<Rightarrow> ('a \<Rightarrow> string) \<Rightarrow> ('a \<Rightarrow> string) \<Rightarrow> ('a \<Rightarrow> json) \<Rightarrow> ('a \<Rightarrow> nat) \<Rightarrow> 'a \<Rightarrow> bool" where
  "reads_member Q N T V K x \<longleftrightarrow>
     (\<forall>u. json_str (Q x @ CHR 0x22 # u) = Some (N x, u)) \<and> reads_as (T x) (V x) (K x)"

lemma members_read:
  assumes "xs \<noteq> []" "\<forall>x \<in> set xs. reads_member Q N T V K x \<and> d + K x \<le> json_max_depth"
  shows "\<exists>n. json_members n d (join '','' (map (\<lambda>x. quote (Q x) @ '':'' @ T x) xs) @ CHR ''}'' # r)
    = Some (map (\<lambda>x. (N x, V x)) xs, r)"
  using assms
proof (induction xs)
  case Nil
  then show ?case by simp
next
  case (Cons x xs)
  have q: "json_str (Q x @ CHR 0x22 # t) = Some (N x, t)" for t
    using Cons.prems by (simp add: reads_member_def)
  have v: "reads_as (T x) (V x) (K x)" "d + K x \<le> json_max_depth"
    using Cons.prems by (simp_all add: reads_member_def)
  let ?M = "\<lambda>x. quote (Q x) @ '':'' @ T x" and ?N = "\<lambda>x. (N x, V x)"
  show ?case
  proof (cases xs)
    case Nil
    let ?r = "CHR ''}'' # r"
    have "json_value (2 * length (T x)) d (T x @ ?r) = Some (V x, ?r)"
      using v by (intro reads_asD) (auto simp: stops_def)
    then have "json_members (Suc (2 * length (T x))) d (?M x @ ?r) = Some ([(N x, V x)], r)"
      by (simp add: quote_def q skip_ws_def json_ws_def expect_def)
    with Nil show ?thesis by (simp del: json_members.simps) blast
  next
    case (Cons x2 xs2)
    let ?t = "join '','' (map ?M xs) @ CHR ''}'' # r"
    obtain n where n: "json_members n d ?t = Some (map ?N xs, r)"
      using Cons.IH Cons.prems Cons by auto
    let ?m = "2 * length (T x) + 2 * length ?t + 1"
    have e: "json_members ?m d ?t = Some (map ?N xs, r)"
      by (rule json_fuel_suffices(3)[OF n]) simp
    have "json_value ?m d (T x @ CHR '','' # ?t) = Some (V x, CHR '','' # ?t)"
      using v by (intro reads_asD) (auto simp: stops_def)
    with e have "json_members (Suc ?m) d (?M x @ CHR '','' # ?t) = Some (?N x # map ?N xs, r)"
      by (simp add: quote_def q skip_ws_def json_ws_def expect_def del: json_value.simps)
    then have "\<exists>n. json_members n d (?M x @ CHR '','' # ?t) = Some (?N x # map ?N xs, r)"
      by (intro exI[where x = "Suc ?m"])
    with Cons show ?thesis by (simp del: json_members.simps)
  qed
qed

lemma depth_le_foldr: "x \<in> set xs \<Longrightarrow> f x \<le> foldr max (map f xs) (0::nat)"
  by (induction xs) auto

lemma join_head:
  assumes "xs \<noteq> []" "hd xs = c # cs" shows "\<exists>t. join sep xs = c # t"
proof -
  from assms obtain ys where xs: "xs = (c # cs) # ys" by (cases xs) auto
  then show ?thesis by (cases ys) auto
qed

lemma array_reads:
  assumes "\<forall>x \<in> set xs. reads_as (T x) (V x) (K x) \<and> (\<exists>c cs. T x = c # cs \<and> \<not> json_ws c \<and> c \<noteq> CHR '']'')"
  shows "reads_as (''['' @ join '','' (map T xs) @ '']'') (JArr (map V xs)) (Suc (foldr max (map K xs) 0))"
  unfolding reads_as_def
proof (intro allI impI)
  fix d r assume d: "d + Suc (foldr max (map K xs) 0) \<le> json_max_depth" and r: "stops r"
  show "\<exists>n. json_value n d ((''['' @ join '','' (map T xs) @ '']'') @ r) = Some (JArr (map V xs), r)"
  proof (cases "xs = []")
    case True
    have "json_value (Suc 0) d (''[]'' @ r) = Some (JArr [], r)"
      using d by (simp add: skip_ws_def json_ws_def expect_def)
    with True show ?thesis by (intro exI[of _ "Suc 0"]) simp
  next
    case False
    have "\<forall>x \<in> set xs. reads_as (T x) (V x) (K x) \<and> Suc d + K x \<le> json_max_depth"
      using assms d depth_le_foldr[of _ xs K] by fastforce
    from elems_read[OF False this, of r] obtain n where
      n: "json_elems n (Suc d) (join '','' (map T xs) @ CHR '']'' # r) = Some (map V xs, r)" ..
    obtain c cs where c: "T (hd xs) = c # cs" "\<not> json_ws c" "c \<noteq> CHR '']''"
      using assms False hd_in_set by blast
    obtain t where t: "join '','' (map T xs) = c # t"
      using join_head[of "map T xs" c cs "'',''"] False c by (auto simp: hd_map)
    have "json_value (Suc n) d ((''['' @ join '','' (map T xs) @ '']'') @ r) = Some (JArr (map V xs), r)"
      using n c t d by (simp add: skip_ws_def json_ws_def expect_def)
    then show ?thesis ..
  qed
qed

lemma object_reads:
  assumes "\<forall>x \<in> set xs. reads_member Q N T V K x"
  shows "reads_as (''{'' @ join '','' (map (\<lambda>x. quote (Q x) @ '':'' @ T x) xs) @ ''}'')
    (JObj (map (\<lambda>x. (N x, V x)) xs)) (Suc (foldr max (map K xs) 0))"
  unfolding reads_as_def
proof (intro allI impI)
  let ?M = "\<lambda>x. quote (Q x) @ '':'' @ T x" and ?N = "\<lambda>x. (N x, V x)"
  fix d r assume d: "d + Suc (foldr max (map K xs) 0) \<le> json_max_depth" and r: "stops r"
  show "\<exists>n. json_value n d ((''{'' @ join '','' (map ?M xs) @ ''}'') @ r) = Some (JObj (map ?N xs), r)"
  proof (cases "xs = []")
    case True
    have "json_value (Suc 0) d (''{}'' @ r) = Some (JObj [], r)"
      using d by (simp add: skip_ws_def json_ws_def expect_def)
    with True show ?thesis by (intro exI[of _ "Suc 0"]) simp
  next
    case False
    have "\<forall>x \<in> set xs. reads_member Q N T V K x \<and> Suc d + K x \<le> json_max_depth"
      using assms d depth_le_foldr[of _ xs K] by fastforce
    from members_read[OF False this, of r] obtain n where
      n: "json_members n (Suc d) (join '','' (map ?M xs) @ CHR ''}'' # r) = Some (map ?N xs, r)" ..
    obtain cs where c: "?M (hd xs) = CHR 0x22 # cs" by (simp add: quote_def)
    obtain t where t: "join '','' (map ?M xs) = CHR 0x22 # t"
      using join_head[of "map ?M xs" "CHR 0x22" cs "'',''"] False c by (auto simp: hd_map)
    have "json_value (Suc n) d ((''{'' @ join '','' (map ?M xs) @ ''}'') @ r) = Some (JObj (map ?N xs), r)"
      using n t d by (simp add: skip_ws_def json_ws_def expect_def)
    then show ?thesis ..
  qed
qed

lemma literal_reads: "reads_as ''null'' JNull k" "reads_as ''true'' (JBool True) k" "reads_as ''false'' (JBool False) k"
  by (rule reads_asI[where n = "Suc 0"], simp add: skip_ws_def json_ws_def)+

lemma string_reads:
  assumes "\<And>u. json_str (q @ CHR 0x22 # u) = Some (s, u)" shows "reads_as (quote q) (JStr s) k"
  by (rule reads_asI[where n = "Suc 0"]) (simp add: quote_def skip_ws_def json_ws_def assms)

lemma number_reads:
  assumes "\<And>r. stops r \<Longrightarrow> json_num (s @ r) = Some (s, r)" "s = c # cs" "is_digit c \<or> c = CHR ''-''"
  shows "reads_as s (JNum s) k"
proof (rule reads_asI[where n = "Suc 0"])
  fix d r assume "stops r"
  then have n: "json_num (s @ r) = Some (s, r)" by (rule assms(1))
  from assms(3) have c: "\<not> json_ws c" "c \<noteq> CHR ''{''" "c \<noteq> CHR ''[''" "c \<noteq> CHR 0x22"
    "c \<noteq> CHR ''n''" "c \<noteq> CHR ''t''" "c \<noteq> CHR ''f''"
    by (auto simp: is_digit_def json_ws_def)
  show "json_value (Suc 0) d (s @ r) = Some (JNum s, r)"
    using n assms(2) c by (simp add: skip_ws_plain)
qed

lemma json_text_reads: "plain_json j \<Longrightarrow> reads_as (json_text j) j (json_depth j)"
proof (induction j rule: json_text.induct)
  case (3 s)
  then obtain c cs where s: "s = c # cs" "is_digit c" by (cases s) (auto simp: plain_num_def)
  then show ?case using 3 number_reads[OF json_num_plain s(1)] by simp
next
  case (4 s)
  then show ?case by (simp add: string_reads json_str_plain)
next
  case (5 js)
  have "\<forall>j \<in> set js. reads_as (json_text j) j (json_depth j)
      \<and> (\<exists>c cs. json_text j = c # cs \<and> \<not> json_ws c \<and> c \<noteq> CHR '']'')"
    using 5 json_text_head by (fastforce simp: list_all_iff)
  from array_reads[OF this] show ?case by simp
next
  case (6 ms)
  have "\<forall>x \<in> set ms. reads_member fst fst (json_text \<circ> snd) snd (json_depth \<circ> snd) x"
    using 6 by (fastforce simp: list_all_iff reads_member_def json_str_plain)
  from object_reads[OF this] show ?case by (simp add: case_prod_unfold comp_def)
qed (simp_all add: literal_reads)

text \<open>Reading what was written gives the value back, alone or before other text.\<close>

lemma json_first_text:
  assumes "plain_json j" "json_depth j \<le> json_max_depth" "stops r"
  shows "json_first (json_text j @ r) = Some (j, r)"
proof -
  have "json_value (2 * length (json_text j)) 0 (json_text j @ r) = Some (j, r)"
    using assms by (intro reads_asD[OF json_text_reads]) auto
  then show ?thesis by (rule json_first_complete)
qed

lemma json_parse_text:
  assumes "plain_json j" "json_depth j \<le> json_max_depth"
  shows "json_parse (json_text j) = Some j"
  using json_first_text[OF assms, of "[]"] by (simp add: json_parse_def stops_def skip_ws_def)

lemma json_Unmarshal_text:
  assumes "plain_json j" "json_depth j \<le> json_max_depth"
  shows "json_Unmarshal d (json_text j) v
       = (fst (d j v), if snd (d j v) then Some ErrJSON else None)"
  by (simp add: json_Unmarshal_def json_parse_text[OF assms] split: prod.splits)

lemma json_Decode_text:
  assumes "plain_json j" "json_depth j \<le> json_max_depth"
  shows "json_Decode d (json_text j) v
       = (fst (d j v), if snd (d j v) then Some ErrJSON else None)"
  using json_first_text[OF assms, of "[]"]
  by (simp add: json_Decode_def stops_def split: prod.splits)

end
