(* ===== verification/Go_Url.thy ===== *)
theory Go_Url
  imports Go_Strings
begin

text \<open>
  \<open>net/url.Parse\<close>: whether a URL parses, and its scheme and host. The program calls
  it through \<open>http.NewRequestWithContext\<close> (a request is built only from a URL that
  parses) and directly when it redacts the smee URL.
\<close>

definition is_hex :: "char \<Rightarrow> bool" where
  "is_hex c \<longleftrightarrow> unhex c \<noteq> None"

text \<open>Every percent sign is followed by two hexadecimal digits (path, user, fragment).\<close>

fun pct_ok :: "string \<Rightarrow> bool" where
  "pct_ok [] = True"
| "pct_ok (c # cs) =
     (if c = CHR ''%'' then (case cs of a # b # t \<Rightarrow> is_hex a \<and> is_hex b \<and> pct_ok t | _ \<Rightarrow> False)
      else pct_ok cs)"

definition is_alpha :: "char \<Rightarrow> bool" where
  "is_alpha c \<longleftrightarrow> (65::nat) \<le> of_char c \<and> of_char c \<le> (90::nat)
      \<or> (97::nat) \<le> of_char c \<and> of_char c \<le> (122::nat)"

text \<open>Bytes a host may hold unescaped: letters, digits, the listed punctuation, non-ASCII.\<close>

definition host_char :: "char \<Rightarrow> bool" where
  "host_char c \<longleftrightarrow> is_alpha c \<or> is_digit c \<or> \<not> is_ascii c
     \<or> c = CHR 0x27 \<or> c = CHR 0x22
     \<or> c \<in> set ''-_.~!$&()*+,;=:[]<>''"

fun host_decode :: "bool \<Rightarrow> string \<Rightarrow> string option" where
  "host_decode zone [] = Some []"
| "host_decode zone (c # cs) =
     (if c = CHR ''%'' then
        (case cs of
           a # b # t \<Rightarrow>
             (case (unhex a, unhex b) of
                (Some x, Some y) \<Rightarrow>
                  (let v = char_of (16 * x + y) in
                   if (a = CHR ''2'' \<and> b = CHR ''5'')
                      \<or> (if zone then v = CHR '' '' \<or> (is_ascii v \<and> host_char v) else 8 \<le> x)
                   then map_option (Cons v) (host_decode zone t) else None)
              | _ \<Rightarrow> None)
         | _ \<Rightarrow> None)
      else if host_char c then map_option (Cons c) (host_decode zone cs) else None)"

definition split_last :: "char \<Rightarrow> string \<Rightarrow> (string \<times> string) option" where
  "split_last c s = (if c \<in> set s then
     Some (rev (tl (dropWhile (\<lambda>x. x \<noteq> c) (rev s))), rev (takeWhile (\<lambda>x. x \<noteq> c) (rev s)))
   else None)"

definition port_ok :: "string \<Rightarrow> bool" where
  "port_ok p \<longleftrightarrow> p = [] \<or> (hd p = CHR '':'' \<and> list_all is_digit (tl p))"

definition parse_host :: "string \<Rightarrow> string option" where
  "parse_host h =
     (if HasPrefix h ''['' then
        (case split_last CHR '']'' h of
           None \<Rightarrow> None
         | Some (lit, port) \<Rightarrow>
             if \<not> port_ok port then None
             else (case Index lit ''%25'' of
                None \<Rightarrow> host_decode False h
              | Some z \<Rightarrow>
                  (case (host_decode False (take z h), host_decode True (drop z lit),
                         host_decode False (CHR '']'' # port)) of
                     (Some a, Some b, Some c) \<Rightarrow> Some (a @ b @ c) | _ \<Rightarrow> None)))
      else
        (case split_last CHR '':'' h of
           Some (_, port) \<Rightarrow>
             if list_all is_digit port then host_decode False h else None
         | None \<Rightarrow> host_decode False h))"

definition userinfo_ok :: "string \<Rightarrow> bool" where
  "userinfo_ok u \<longleftrightarrow> pct_ok u \<and>
     list_all (\<lambda>c. is_alpha c \<or> is_digit c \<or> c = CHR 0x27
                   \<or> c \<in> set ''-._:~!$&()*+,;=%@'') u"

definition parse_authority :: "string \<Rightarrow> string option" where
  "parse_authority a = (case split_last CHR ''@'' a of
     None \<Rightarrow> parse_host a
   | Some (u, h) \<Rightarrow> if userinfo_ok u then parse_host h else None)"

text \<open>
  \<open>getScheme\<close>: an outer \<open>None\<close> is the error, an empty scheme means there is none.
\<close>

fun scheme_from :: "string \<Rightarrow> string \<Rightarrow> string \<Rightarrow> (string \<times> string) option" where
  "scheme_from whole done [] = Some ([], whole)"
| "scheme_from whole done (c # cs) =
     (if is_alpha c then scheme_from whole (done @ [c]) cs
      else if is_digit c \<or> c = CHR ''+'' \<or> c = CHR ''-'' \<or> c = CHR ''.'' then
        (if done = [] then Some ([], whole) else scheme_from whole (done @ [c]) cs)
      else if c = CHR '':'' then (if done = [] then None else Some (done, cs))
      else Some ([], whole))"

definition has_ctl :: "string \<Rightarrow> bool" where
  "has_ctl s \<longleftrightarrow> list_ex (\<lambda>c. of_char c < (32::nat) \<or> of_char c = (127::nat)) s"

record url =
  url_Scheme :: string
  url_Host :: string

definition parse_no_frag :: "string \<Rightarrow> url option" where
  "parse_no_frag u =
     (if has_ctl u then None
      else if u = ''*'' then Some \<lparr>url_Scheme = [], url_Host = []\<rparr>
      else case scheme_from u [] u of None \<Rightarrow> None
      | Some (sch, rest0) \<Rightarrow>
        (let scheme = map lower_byte sch;
             rest = takeWhile (\<lambda>c. c \<noteq> CHR ''?'') rest0 in
         if \<not> HasPrefix rest ''/'' \<and> scheme \<noteq> [] then
           Some \<lparr>url_Scheme = scheme, url_Host = []\<rparr>
         else if \<not> HasPrefix rest ''/'' \<and> CHR '':'' \<in> set (takeWhile (\<lambda>c. c \<noteq> CHR ''/'') rest)
           then None
         else if (scheme \<noteq> [] \<or> \<not> HasPrefix rest ''///'') \<and> HasPrefix rest ''//'' then
           (let auth = takeWhile (\<lambda>c. c \<noteq> CHR ''/'') (drop 2 rest);
                p = dropWhile (\<lambda>c. c \<noteq> CHR ''/'') (drop 2 rest) in
            case parse_authority auth of None \<Rightarrow> None
            | Some h \<Rightarrow> if pct_ok p then Some \<lparr>url_Scheme = scheme, url_Host = h\<rparr> else None)
         else if pct_ok rest then Some \<lparr>url_Scheme = scheme, url_Host = []\<rparr> else None))"

definition url_Parse :: "string \<Rightarrow> url option" where
  "url_Parse raw =
     (let u = takeWhile (\<lambda>c. c \<noteq> CHR ''#'') raw;
          frag = drop (Suc (length u)) raw in
      case parse_no_frag u of None \<Rightarrow> None
      | Some r \<Rightarrow> if pct_ok frag then Some r else None)"

text \<open>URLs of the GitHub API: any printable rest without a percent sign or a fragment parses.\<close>

definition url_tail :: "string \<Rightarrow> bool" where
  "url_tail t \<longleftrightarrow> list_all (\<lambda>c. (32::nat) \<le> of_char c \<and> of_char c \<noteq> (127::nat) \<and> c \<noteq> CHR ''#'' \<and> c \<noteq> CHR ''%'') t"

lemma pct_ok_plain: "CHR ''%'' \<notin> set t \<Longrightarrow> pct_ok t"
  by (induction t) auto

lemma url_tail_has_ctl: "url_tail t \<Longrightarrow> \<not> has_ctl t"
  unfolding url_tail_def has_ctl_def list_all_iff list_ex_iff not_less by fastforce

lemma url_tail_takeWhile: "url_tail t \<Longrightarrow> takeWhile (\<lambda>c. c \<noteq> CHR ''#'') t = t"
  by (auto simp: url_tail_def list_all_iff takeWhile_eq_all_conv)

lemma api_url_iff:
  "url_Parse (''https://api.github.com/'' @ t) \<noteq> None \<longleftrightarrow>
     \<not> has_ctl (takeWhile (\<lambda>c. c \<noteq> CHR ''#'') t)
     \<and> pct_ok (takeWhile (\<lambda>c. c \<noteq> CHR ''?'') (takeWhile (\<lambda>c. c \<noteq> CHR ''#'') t))
     \<and> pct_ok (drop (Suc (length (takeWhile (\<lambda>c. c \<noteq> CHR ''#'') t))) t)"
proof -
  let ?u = "takeWhile (\<lambda>c. c \<noteq> CHR ''#'') t"
  have "has_ctl (''https://api.github.com/'' @ ?u) = has_ctl ?u" by (simp add: has_ctl_def)
  moreover have "parse_no_frag (''https://api.github.com/'' @ u) =
      (if has_ctl (''https://api.github.com/'' @ u) \<or> \<not> pct_ok (takeWhile (\<lambda>c. c \<noteq> CHR ''?'') u) then None
       else Some \<lparr>url_Scheme = ''https'', url_Host = ''api.github.com''\<rparr>)" for u
    by (simp add: parse_no_frag_def HasPrefix_def is_alpha_def is_digit_def
      lower_byte_def parse_authority_def parse_host_def split_last_def port_ok_def host_char_def
      is_ascii_def Let_def)
  ultimately show ?thesis by (simp add: url_Parse_def Let_def)
qed

lemma api_url:
  assumes "url_tail t"
  shows "url_Parse (''https://api.github.com/'' @ t) \<noteq> None"
proof -
  have "CHR ''%'' \<notin> set (takeWhile (\<lambda>c. c \<noteq> CHR ''?'') t)"
    using assms by (auto simp: url_tail_def list_all_iff dest: set_takeWhileD)
  then have "pct_ok (takeWhile (\<lambda>c. c \<noteq> CHR ''?'') t)" by (rule pct_ok_plain)
  then show ?thesis unfolding api_url_iff
    by (simp add: url_tail_takeWhile[OF assms] url_tail_has_ctl[OF assms])
qed

text \<open>
  Two API URLs that agree up to a slash and an \<open>a\<close> and go on plainly parse alike; so the
  calls of one repo do.
\<close>

lemma takeWhile_shorter: "\<exists>x \<in> set xs. \<not> P x \<Longrightarrow> Suc (length (takeWhile P xs)) \<le> length xs"
  by (induction xs) auto

lemma pct_ok_append: "CHR ''%'' \<notin> set x \<Longrightarrow> pct_ok (r @ ''/a'' @ x) = pct_ok (r @ ''/a'')"
proof (induction r rule: pct_ok.induct)
  case 1
  then show ?case by (simp add: pct_ok_plain)
next
  case (2 c cs)
  show ?case
  proof (cases "c = CHR ''%''")
    case True
    have s: "\<not> is_hex CHR ''/''" by (simp add: is_hex_def unhex_def Let_def)
    consider "cs = []" | a where "cs = [a]" | a b t where "cs = a # b # t" by (metis neq_Nil_conv)
    then show ?thesis using 2 True s by cases auto
  next
    case False
    with 2 show ?thesis by simp
  qed
qed

lemma api_url_same:
  assumes "url_tail x" "url_tail y"
  shows "url_Parse (''https://api.github.com/'' @ r @ ''/a'' @ x) \<noteq> None \<longleftrightarrow>
    url_Parse (''https://api.github.com/'' @ r @ ''/a'' @ y) \<noteq> None"
proof -
  let ?h = "\<lambda>c. c \<noteq> CHR ''#''" and ?q = "\<lambda>c. c \<noteq> CHR ''?''"
  have p: "CHR ''%'' \<notin> set z \<and> CHR ''%'' \<notin> set (takeWhile ?q z) \<and> takeWhile ?h z = z \<and> \<not> has_ctl z"
    if "url_tail z" for z
    using that url_tail_takeWhile[OF that] url_tail_has_ctl[OF that]
    by (auto simp: url_tail_def list_all_iff dest: set_takeWhileD)
  have "url_Parse (''https://api.github.com/'' @ r @ ''/a'' @ z) \<noteq> None \<longleftrightarrow>
      (if CHR ''#'' \<in> set r
       then \<not> has_ctl (takeWhile ?h r) \<and> pct_ok (takeWhile ?q (takeWhile ?h r))
          \<and> pct_ok (drop (Suc (length (takeWhile ?h r))) r @ ''/a'')
       else \<not> has_ctl r \<and> (if CHR ''?'' \<in> set r then pct_ok (takeWhile ?q r) else pct_ok (r @ ''/a'')))"
    if z: "url_tail z" for z
  proof (cases "CHR ''#'' \<in> set r")
    case True
    then have t: "takeWhile ?h (r @ ''/a'' @ z) = takeWhile ?h r" by (intro takeWhile_append1) auto
    from True have "Suc (length (takeWhile ?h r)) \<le> length r"
      by (intro takeWhile_shorter) auto
    then have d: "drop (Suc (length (takeWhile ?h r))) (r @ ''/a'' @ z) =
        drop (Suc (length (takeWhile ?h r))) r @ ''/a'' @ z" by simp
    with True p[OF z] show ?thesis unfolding api_url_iff t d by (simp add: pct_ok_append del: append.simps)
  next
    case False
    then have t: "takeWhile ?h (r @ ''/a'' @ z) = r @ ''/a'' @ z"
      using p[OF z] by (auto simp: takeWhile_eq_all_conv)
    have c: "has_ctl (r @ ''/a'' @ z) = has_ctl r" using p[OF z] by (simp add: has_ctl_def)
    have "takeWhile ?q (r @ ''/a'' @ z) = (if CHR ''?'' \<in> set r then takeWhile ?q r else r @ ''/a'' @ takeWhile ?q z)"
      by (auto simp: takeWhile_append)
    with False p[OF z] show ?thesis unfolding api_url_iff t c by (simp add: pct_ok_append del: append.simps)
  qed
  from this[OF assms(1)] this[OF assms(2)] show ?thesis by simp
qed

end
