(* ===== verification/World.thy ===== *)
theory World
  imports Json_Text Go_Url
begin

text \<open>
  What the program finds outside itself: the docker CLI, the GitHub API behind an HTTP
  client, temporary files, the random source, the clock and the log. They are the
  fields of one record \<open>env\<close> of functions over an unspecified world \<open>'w\<close>: a call
  takes the world and gives its result and the world after it. Deadlines and
  cancellation show as error results of these calls.
\<close>

section \<open>Requests and responses\<close>

record http_request =
  rq_Method :: string
  rq_URL :: string
  rq_Header :: "(string \<times> string) list"

record http_response =
  rs_StatusCode :: int
  rs_Body :: string

datatype level = LevelDebug | LevelInfo | LevelWarn | LevelError

text \<open>A result of the docker CLI: standard output, standard error, error.\<close>

type_synonym exec_result = "string \<times> string \<times> err option"

record 'w env =
  docker_Exec :: "string list \<Rightarrow> 'w \<Rightarrow> exec_result \<times> 'w"
  http_Do :: "http_request \<Rightarrow> 'w \<Rightarrow> (err + http_response) \<times> 'w"
  os_CreateTemp :: "'w \<Rightarrow> (err + string) \<times> 'w"
  os_Chmod :: "string \<Rightarrow> nat \<Rightarrow> 'w \<Rightarrow> err option \<times> 'w"
  os_WriteString :: "string \<Rightarrow> string \<Rightarrow> 'w \<Rightarrow> err option \<times> 'w"
  os_Close :: "string \<Rightarrow> 'w \<Rightarrow> err option \<times> 'w"
  os_Remove :: "string \<Rightarrow> 'w \<Rightarrow> err option \<times> 'w"
  rand_Read :: "nat \<Rightarrow> 'w \<Rightarrow> string \<times> 'w"
  time_Now :: "'w \<Rightarrow> int \<times> 'w"
  slog :: "level \<Rightarrow> string \<Rightarrow> 'w \<Rightarrow> 'w"
  unicode_lower :: "string \<Rightarrow> string"

text \<open>\<open>strings.ToLower\<close> with the Unicode table of the environment.\<close>

abbreviation lower :: "'w env \<Rightarrow> string \<Rightarrow> string" where
  "lower E \<equiv> ToLower (unicode_lower E)"

section \<open>The GitHub API calls\<close>

text \<open>
  Every authenticated request carries these three headers (\<open>signRequest\<close> in the
  spawner, repeated in the other packages).
\<close>

definition github_headers :: "string \<Rightarrow> (string \<times> string) list" where
  "github_headers pat =
     [(''Authorization'', ''Bearer '' @ pat),
      (''Accept'', ''application/vnd.github+json''),
      (''X-GitHub-Api-Version'', ''2022-11-28'')]"

text \<open>\<open>http.NewRequestWithContext\<close>: \<open>None\<close> (an error) when the URL does not parse.\<close>

definition http_NewRequest :: "string \<Rightarrow> string \<Rightarrow> (string \<times> string) list \<Rightarrow> http_request option" where
  "http_NewRequest m u hs = (if url_Parse u = None then None
     else Some \<lparr>rq_Method = m, rq_URL = u, rq_Header = hs\<rparr>)"

definition err_url :: err where
  "err_url = ErrMsg ''parse url''"

text \<open>
  GET with the token: transport errors are passed on, a status other than 200 is an
  error made by \<open>mk\<close> from the status and the trimmed body, 200 gives the body.
\<close>

definition api_get_with ::
  "(int \<Rightarrow> string \<Rightarrow> err) \<Rightarrow> 'w env \<Rightarrow> string \<Rightarrow> string \<Rightarrow> 'w \<Rightarrow> (err + string) \<times> 'w" where
  "api_get_with mk E pat u w =
     (case http_NewRequest ''GET'' u (github_headers pat) of
        None \<Rightarrow> (Inl err_url, w)
      | Some rq \<Rightarrow>
          (case http_Do E rq w of
             (Inl e, w1) \<Rightarrow> (Inl e, w1)
           | (Inr rs, w1) \<Rightarrow>
               if rs_StatusCode rs \<noteq> 200
               then (Inl (mk (rs_StatusCode rs) (TrimSpace (rs_Body rs))), w1)
               else (Inr (rs_Body rs), w1)))"

lemma api_get_with_Inr:
  assumes "api_get_with mk E pat u w = (Inr b, w')"
  obtains rs where
    "http_Do E \<lparr>rq_Method = ''GET'', rq_URL = u, rq_Header = github_headers pat\<rparr> w = (Inr rs, w')"
    "rs_StatusCode rs = 200" "rs_Body rs = b"
  using assms
  by (auto simp: api_get_with_def http_NewRequest_def
      split: option.splits prod.splits sum.splits if_splits)

section \<open>Periodic loops\<close>

text \<open>
  The loop of a \<open>time.Ticker\<close>: each turn of its \<open>select\<close> sees the context done or a tick.
\<close>

datatype select = CtxDone | Tick

fun ticker_loop :: "('s \<Rightarrow> 's) \<Rightarrow> select list \<Rightarrow> 's \<Rightarrow> 's" where
  "ticker_loop tick [] s = s"
| "ticker_loop tick (CtxDone # es) s = s"
| "ticker_loop tick (Tick # es) s = ticker_loop tick es (tick s)"

lemma ticker_loop_funpow:
  "ticker_loop tick es s = (tick ^^ length (takeWhile (\<lambda>e. e = Tick) es)) s"
  by (induction tick es s rule: ticker_loop.induct) (auto simp: funpow_swap1)

section \<open>Monotone quantities of the world\<close>

text \<open>
  A quantity of the world (the containers alive, say) that every call of one kind can
  only shrink: the shape of most facts about the environment.
\<close>

definition shrinks :: "('w \<Rightarrow> 'q :: order) \<Rightarrow> ('w \<Rightarrow> 'r \<times> 'w) \<Rightarrow> bool" where
  "shrinks q f \<longleftrightarrow> (\<forall>w. q (snd (f w)) \<le> q w)"

lemma shrinksI: "(\<And>w r w'. f w = (r, w') \<Longrightarrow> q w' \<le> q w) \<Longrightarrow> shrinks q f"
  unfolding shrinks_def by (metis prod.collapse)

lemma shrinksD: "shrinks q f \<Longrightarrow> f w = (r, w') \<Longrightarrow> q w' \<le> q w"
  unfolding shrinks_def by (metis snd_conv)

end
