(* ===== verification/Config.thy ===== *)
theory Config
  imports World
begin

text \<open>
  \<open>internal/config/config.go\<close>: the configuration records, their JSON decoding, \<open>Load\<close>
  with its environment fallbacks and defaults, \<open>Validate\<close> (which also applies the
  per-repo defaults) and \<open>RepoByName\<close>. The lemmas show that a loaded configuration is
  well formed, what \<open>Validate\<close> accepts and what it changes, and which source each
  secret comes from.
\<close>

record RepoConfig =
  rc_Name :: string
  rc_RepoURL :: string
  rc_MatchLabels :: "string list"
  rc_Label :: string
  rc_RunnerLabels :: string
  rc_MaxConcurrency :: int

record Config =
  cfg_SmeeURL :: string
  cfg_WebhookSecret :: string
  cfg_VerifyHMAC :: bool
  cfg_GitHubPAT :: string
  cfg_RunnerImage :: string
  cfg_Listen :: string
  cfg_Repos :: "RepoConfig list"
  cfg_PortalToken :: string

definition zero_RepoConfig :: RepoConfig where
  "zero_RepoConfig = \<lparr>rc_Name = [], rc_RepoURL = [], rc_MatchLabels = [], rc_Label = [],
     rc_RunnerLabels = [], rc_MaxConcurrency = 0\<rparr>"

definition zero_Config :: Config where
  "zero_Config = \<lparr>cfg_SmeeURL = [], cfg_WebhookSecret = [], cfg_VerifyHMAC = False,
     cfg_GitHubPAT = [], cfg_RunnerImage = [], cfg_Listen = [], cfg_Repos = [],
     cfg_PortalToken = []\<rparr>"

definition dec_RepoConfig :: "RepoConfig dec" where
  "dec_RepoConfig = dec_struct
     [(''name'', dec_field rc_Name (\<lambda>x. rc_Name_update (\<lambda>_. x)) dec_string),
      (''repo_url'', dec_field rc_RepoURL (\<lambda>x. rc_RepoURL_update (\<lambda>_. x)) dec_string),
      (''match_labels'', dec_field rc_MatchLabels (\<lambda>x. rc_MatchLabels_update (\<lambda>_. x))
         (dec_slice dec_string [])),
      (''label'', dec_field rc_Label (\<lambda>x. rc_Label_update (\<lambda>_. x)) dec_string),
      (''runner_labels'', dec_field rc_RunnerLabels (\<lambda>x. rc_RunnerLabels_update (\<lambda>_. x)) dec_string),
      (''max_concurrency'', dec_field rc_MaxConcurrency (\<lambda>x. rc_MaxConcurrency_update (\<lambda>_. x)) dec_int64)]"

definition dec_Config :: "Config dec" where
  "dec_Config = dec_struct
     [(''smee_url'', dec_field cfg_SmeeURL (\<lambda>x. cfg_SmeeURL_update (\<lambda>_. x)) dec_string),
      (''webhook_secret'', dec_field cfg_WebhookSecret (\<lambda>x. cfg_WebhookSecret_update (\<lambda>_. x)) dec_string),
      (''verify_hmac'', dec_field cfg_VerifyHMAC (\<lambda>x. cfg_VerifyHMAC_update (\<lambda>_. x)) dec_bool),
      (''github_pat'', dec_field cfg_GitHubPAT (\<lambda>x. cfg_GitHubPAT_update (\<lambda>_. x)) dec_string),
      (''runner_image'', dec_field cfg_RunnerImage (\<lambda>x. cfg_RunnerImage_update (\<lambda>_. x)) dec_string),
      (''listen'', dec_field cfg_Listen (\<lambda>x. cfg_Listen_update (\<lambda>_. x)) dec_string),
      (''repos'', dec_field cfg_Repos (\<lambda>x. cfg_Repos_update (\<lambda>_. x))
         (dec_slice dec_RepoConfig zero_RepoConfig)),
      (''portal_token'', dec_field cfg_PortalToken (\<lambda>x. cfg_PortalToken_update (\<lambda>_. x)) dec_string)]"

section \<open>Validate\<close>

definition repo_default :: "RepoConfig \<Rightarrow> RepoConfig" where
  "repo_default r =
     (let r1 = (if rc_MatchLabels r = [] then r\<lparr>rc_MatchLabels := [rc_Label r]\<rparr> else r)
      in if rc_MaxConcurrency r \<le> 0 then r1\<lparr>rc_MaxConcurrency := 4\<rparr> else r1)"

definition repo_error :: "nat \<Rightarrow> RepoConfig \<Rightarrow> err option" where
  "repo_error i r =
     (if rc_Name r = [] \<or> rc_RepoURL r = [] \<or> rc_RunnerLabels r = [] then
        Some (ErrMsg (''repo['' @ show_nat i @ ''] missing required field''))
      else if rc_MatchLabels r = [] \<and> rc_Label r = [] then
        Some (ErrMsg (''repo['' @ show_nat i @ ''] needs match_labels or label''))
      else None)"

fun validate_repos :: "nat \<Rightarrow> RepoConfig list \<Rightarrow> RepoConfig list \<times> err option" where
  "validate_repos i [] = ([], None)"
| "validate_repos i (r # rs) =
     (case repo_error i r of
        Some e \<Rightarrow> (r # rs, Some e)
      | None \<Rightarrow> (let (rs', e) = validate_repos (Suc i) rs in (repo_default r # rs', e)))"

definition Validate :: "Config \<Rightarrow> Config \<times> err option" where
  "Validate c =
     (if cfg_SmeeURL c = [] then (c, Some (ErrMsg ''smee_url required (or SMEE_URL env)''))
      else if cfg_VerifyHMAC c \<and> cfg_WebhookSecret c = [] then
        (c, Some (ErrMsg ''webhook_secret required when verify_hmac=true''))
      else if cfg_GitHubPAT c = [] then
        (c, Some (ErrMsg ''github_pat required (or GH_PAT env)''))
      else if cfg_Repos c = [] then (c, Some (ErrMsg ''at least one repo required''))
      else (let (rs, e) = validate_repos 0 (cfg_Repos c) in (c\<lparr>cfg_Repos := rs\<rparr>, e)))"

section \<open>Load\<close>

text \<open>The operating system as \<open>Load\<close> sees it: files, their permission bits, variables.\<close>

record host =
  os_ReadFile :: "string \<Rightarrow> err + string"
  os_StatPerm :: "string \<Rightarrow> nat option"
  os_Getenv :: "string \<Rightarrow> string"

text \<open>Whether a warning is logged; the permission bits are read modulo \<open>0o100\<close>.\<close>

definition warnIfWorldReadable :: "host \<Rightarrow> string \<Rightarrow> bool" where
  "warnIfWorldReadable H path = (case os_StatPerm H path of
     None \<Rightarrow> False
   | Some mode \<Rightarrow> mode mod 64 \<noteq> 0)"

definition env_fallback :: "host \<Rightarrow> string \<Rightarrow> string \<Rightarrow> string" where
  "env_fallback H name v =
     (if v = [] then (if os_Getenv H name \<noteq> [] then os_Getenv H name else v) else v)"

definition apply_env :: "host \<Rightarrow> Config \<Rightarrow> Config" where
  "apply_env H c =
     c\<lparr>cfg_SmeeURL := env_fallback H ''SMEE_URL'' (cfg_SmeeURL c),
       cfg_WebhookSecret := env_fallback H ''WEBHOOK_SECRET'' (cfg_WebhookSecret c),
       cfg_GitHubPAT := env_fallback H ''GH_PAT'' (cfg_GitHubPAT c),
       cfg_PortalToken := env_fallback H ''PORTAL_TOKEN'' (cfg_PortalToken c),
       cfg_Listen := (if cfg_Listen c = [] then '':8080'' else cfg_Listen c),
       cfg_RunnerImage :=
         (if cfg_RunnerImage c = [] then ''myoung34/github-runner:latest'' else cfg_RunnerImage c)\<rparr>"

text \<open>The result and whether the permission warning was logged.\<close>

definition Load :: "host \<Rightarrow> string \<Rightarrow> (err + Config) \<times> bool" where
  "Load H path =
     (case os_ReadFile H path of
        Inl e \<Rightarrow> (Inl (ErrWrap ''read config: '' e []), False)
      | Inr b \<Rightarrow>
          (let warned = warnIfWorldReadable H path in
           case json_Unmarshal dec_Config b zero_Config of
             (_, Some e) \<Rightarrow> (Inl (ErrWrap ''parse config: '' e []), warned)
           | (c, None) \<Rightarrow>
               (case Validate (apply_env H c) of
                  (_, Some e) \<Rightarrow> (Inl e, warned)
                | (c', None) \<Rightarrow> (Inr c', warned))))"

text \<open>
  \<open>RepoByName\<close> returns a pointer to the first entry with the name; the pointer is the
  entry itself, as no code changes the repos after \<open>Load\<close>.
\<close>

fun repo_by_name :: "RepoConfig list \<Rightarrow> string \<Rightarrow> RepoConfig option" where
  "repo_by_name [] n = None"
| "repo_by_name (r # rs) n = (if rc_Name r = n then Some r else repo_by_name rs n)"

definition RepoByName :: "Config \<Rightarrow> string \<Rightarrow> RepoConfig option" where
  "RepoByName c name = repo_by_name (cfg_Repos c) name"

section \<open>Well-formed configurations\<close>

definition repo_wf :: "RepoConfig \<Rightarrow> bool" where
  "repo_wf r \<longleftrightarrow> rc_Name r \<noteq> [] \<and> rc_RepoURL r \<noteq> [] \<and> rc_RunnerLabels r \<noteq> []
     \<and> rc_MatchLabels r \<noteq> [] \<and> 0 < rc_MaxConcurrency r"

definition config_wf :: "Config \<Rightarrow> bool" where
  "config_wf c \<longleftrightarrow> cfg_SmeeURL c \<noteq> [] \<and> (cfg_VerifyHMAC c \<longrightarrow> cfg_WebhookSecret c \<noteq> [])
     \<and> cfg_GitHubPAT c \<noteq> [] \<and> cfg_Repos c \<noteq> [] \<and> list_all repo_wf (cfg_Repos c)"

text \<open>What an operator has to write; everything else has a default.\<close>

definition repo_given :: "RepoConfig \<Rightarrow> bool" where
  "repo_given r \<longleftrightarrow> rc_Name r \<noteq> [] \<and> rc_RepoURL r \<noteq> [] \<and> rc_RunnerLabels r \<noteq> []
     \<and> (rc_MatchLabels r \<noteq> [] \<or> rc_Label r \<noteq> [])"

definition config_given :: "Config \<Rightarrow> bool" where
  "config_given c \<longleftrightarrow> cfg_SmeeURL c \<noteq> [] \<and> (cfg_VerifyHMAC c \<longrightarrow> cfg_WebhookSecret c \<noteq> [])
     \<and> cfg_GitHubPAT c \<noteq> [] \<and> cfg_Repos c \<noteq> [] \<and> list_all repo_given (cfg_Repos c)"

lemma repo_error_None: "repo_error i r = None \<longleftrightarrow> repo_given r"
  by (auto simp: repo_error_def repo_given_def)

lemma repo_default_wf: "repo_given r \<Longrightarrow> repo_wf (repo_default r)"
  by (auto simp: repo_given_def repo_wf_def repo_default_def Let_def)

lemma repo_default_id: "repo_wf r \<Longrightarrow> repo_default r = r"
  by (simp add: repo_wf_def repo_default_def)

lemma repo_wf_given: "repo_wf r \<Longrightarrow> repo_given r"
  by (simp add: repo_wf_def repo_given_def)

lemma validate_repos_Cons:
  "validate_repos i (r # rs) =
     (if repo_given r
      then (repo_default r # fst (validate_repos (Suc i) rs), snd (validate_repos (Suc i) rs))
      else (r # rs, repo_error i r))"
  using repo_error_None[of i r] by (auto split: option.splits prod.splits)

declare validate_repos.simps(2) [simp del]
declare validate_repos_Cons [simp]

lemma validate_repos_ok:
  "snd (validate_repos i rs) = None \<longleftrightarrow> list_all repo_given rs"
  by (induction rs arbitrary: i) (auto simp: repo_error_None)

lemma validate_repos_map:
  "list_all repo_given rs \<Longrightarrow> validate_repos i rs = (map repo_default rs, None)"
  by (induction rs arbitrary: i) auto

text \<open>The error names the first offending repo; the repos before it have their defaults.\<close>

lemma validate_repos_error:
  "find_index (\<lambda>r. \<not> repo_given r) rs = Some k \<Longrightarrow>
     validate_repos i rs
     = (map repo_default (take k rs) @ drop k rs, repo_error (i + k) (rs ! k))"
proof (induction rs arbitrary: i k)
  case Nil
  then show ?case by simp
next
  case (Cons r rs)
  show ?case
  proof (cases "repo_given r")
    case True
    with Cons.prems obtain k' where k: "find_index (\<lambda>r. \<not> repo_given r) rs = Some k'" "k = Suc k'"
      by auto
    with True Cons.IH[OF k(1)] k(2) show ?thesis by simp
  next
    case False
    with Cons.prems show ?thesis by simp
  qed
qed

lemma Validate_ok_iff:
  "snd (Validate c) = None \<longleftrightarrow> config_given c"
  by (auto simp: Validate_def config_given_def validate_repos_ok[of 0, symmetric]
      split: prod.splits)

lemma Validate_result:
  "config_given c \<Longrightarrow> Validate c = (c\<lparr>cfg_Repos := map repo_default (cfg_Repos c)\<rparr>, None)"
  by (auto simp: Validate_def config_given_def validate_repos_map)

lemma Validate_wf: "Validate c = (c', None) \<Longrightarrow> config_wf c'"
proof -
  assume a: "Validate c = (c', None)"
  then have g: "config_given c" using Validate_ok_iff[of c] by simp
  with a have "c' = c\<lparr>cfg_Repos := map repo_default (cfg_Repos c)\<rparr>"
    by (simp add: Validate_result)
  with g show ?thesis
    by (auto simp: config_given_def config_wf_def list_all_iff repo_default_wf)
qed

lemma repo_by_name_Some:
  "repo_by_name rs n = Some r \<Longrightarrow> r \<in> set rs \<and> rc_Name r = n"
  by (induction rs) (auto split: if_splits)

lemma repo_by_name_None: "repo_by_name rs n = None \<longleftrightarrow> n \<notin> rc_Name ` set rs"
  by (induction rs) auto


section \<open>Properties\<close>

lemma map_repo_default_id: "list_all repo_wf rs \<Longrightarrow> map repo_default rs = rs"
  by (induction rs) (auto simp: repo_default_id)

lemma config_wf_given: "config_wf c \<Longrightarrow> config_given c"
  by (auto simp: config_wf_def config_given_def list_all_iff repo_wf_given)

text \<open>
  Claim C11. \<open>Validate\<close> accepts exactly the configurations that give every required
  field (and \<open>label\<close> or \<open>match_labels\<close> for every repo); what it accepts comes out
  well formed (labels to match, a positive cap), with nothing but the two per-repo
  defaults changed, and validating it again changes nothing.
\<close>

theorem Validate_accepts:
  "(snd (Validate c) = None) = config_given c
   \<and> (config_given c \<longrightarrow>
        config_wf (fst (Validate c))
        \<and> fst (Validate c) = c\<lparr>cfg_Repos := map repo_default (cfg_Repos c)\<rparr>
        \<and> Validate (fst (Validate c)) = (fst (Validate c), None))"
proof (cases "config_given c")
  case True
  then have v: "Validate c = (c\<lparr>cfg_Repos := map repo_default (cfg_Repos c)\<rparr>, None)"
    by (rule Validate_result)
  then have wf: "config_wf (c\<lparr>cfg_Repos := map repo_default (cfg_Repos c)\<rparr>)"
    by (rule Validate_wf)
  then have "map repo_default (map repo_default (cfg_Repos c)) = map repo_default (cfg_Repos c)"
    by (intro map_repo_default_id) (simp add: config_wf_def)
  with v wf True Validate_result[OF config_wf_given[OF wf]] show ?thesis
    by (simp only: fst_conv snd_conv) simp
qed (simp add: Validate_ok_iff)

definition example_repo :: RepoConfig where
  "example_repo = \<lparr>rc_Name = ''acme/web'', rc_RepoURL = ''u'', rc_MatchLabels = [],
     rc_Label = ''pool-a'', rc_RunnerLabels = ''pool-a'', rc_MaxConcurrency = 0\<rparr>"

definition example_config :: Config where
  "example_config = zero_Config\<lparr>cfg_SmeeURL := ''https://smee.io/abc'',
     cfg_GitHubPAT := ''ghp_x'', cfg_Repos := [example_repo]\<rparr>"

lemma example_config_given: "config_given example_config"
  by (simp add: config_given_def example_config_def zero_Config_def example_repo_def repo_given_def)

theorem Validate_accepts_witness:
  "snd (Validate example_config) = None
   \<and> map rc_MaxConcurrency (cfg_Repos (fst (Validate example_config))) = [4]"
  using Validate_accepts[of example_config] example_config_given
  by (simp add: repo_default_def example_config_def example_repo_def)

text \<open>
  Claim C40. A rejected repo list is reported with the index of the first repo that
  misses a required field, the repos before it already hold their defaults and the
  repos from it on are untouched.
\<close>

theorem Validate_first_bad_repo:
  assumes "cfg_SmeeURL c \<noteq> []" "cfg_VerifyHMAC c \<longrightarrow> cfg_WebhookSecret c \<noteq> []"
    and "cfg_GitHubPAT c \<noteq> []"
    and "k < length (cfg_Repos c)" "\<not> repo_given (cfg_Repos c ! k)"
    and "\<forall>j < k. repo_given (cfg_Repos c ! j)"
  shows "Validate c =
     (c\<lparr>cfg_Repos := map repo_default (take k (cfg_Repos c)) @ drop k (cfg_Repos c)\<rparr>,
      Some (ErrMsg (''repo['' @ show_nat k @
        (if rc_Name (cfg_Repos c ! k) = [] \<or> rc_RepoURL (cfg_Repos c ! k) = []
            \<or> rc_RunnerLabels (cfg_Repos c ! k) = []
         then ''] missing required field'' else ''] needs match_labels or label''))))"
proof -
  have "find_index (\<lambda>r. \<not> repo_given r) (cfg_Repos c) = Some k"
  proof (cases "find_index (\<lambda>r. \<not> repo_given r) (cfg_Repos c)")
    case None
    with assms(4,5) show ?thesis by (auto simp: find_index_None)
  next
    case (Some i)
    with find_index_Some[OF Some] assms(5,6) show ?thesis
      by (metis linorder_neqE_nat)
  qed
  from validate_repos_error[OF this, of 0] assms show ?thesis
    by (auto simp: Validate_def repo_error_def repo_given_def)
qed

theorem Validate_first_bad_repo_witness:
  "snd (Validate (example_config\<lparr>cfg_Repos := [example_repo, example_repo\<lparr>rc_RepoURL := []\<rparr>]\<rparr>))
   = Some (ErrMsg ''repo[1] missing required field'')"
  using Validate_first_bad_repo
    [of "example_config\<lparr>cfg_Repos := [example_repo, example_repo\<lparr>rc_RepoURL := []\<rparr>]\<rparr>" 1]
  by (simp add: example_config_def zero_Config_def example_repo_def repo_given_def show_nat_digit)

text \<open>
  Claim C39. A configuration that \<open>Load\<close> returns is well formed and complete, and each
  secret is the one of the file when the file has it and otherwise the one of its
  environment variable.
\<close>

theorem Load_wf_and_precedence:
  assumes "Load H path = (Inr c, warned)"
  shows "config_wf c \<and> cfg_Listen c \<noteq> [] \<and> cfg_RunnerImage c \<noteq> [] \<and>
    (\<exists>b c0. os_ReadFile H path = Inr b \<and> json_Unmarshal dec_Config b zero_Config = (c0, None) \<and>
       cfg_GitHubPAT c = (if cfg_GitHubPAT c0 = [] then os_Getenv H ''GH_PAT'' else cfg_GitHubPAT c0) \<and>
       cfg_SmeeURL c = (if cfg_SmeeURL c0 = [] then os_Getenv H ''SMEE_URL'' else cfg_SmeeURL c0) \<and>
       cfg_WebhookSecret c =
         (if cfg_WebhookSecret c0 = [] then os_Getenv H ''WEBHOOK_SECRET'' else cfg_WebhookSecret c0) \<and>
       cfg_PortalToken c =
         (if cfg_PortalToken c0 = [] then os_Getenv H ''PORTAL_TOKEN'' else cfg_PortalToken c0) \<and>
       cfg_VerifyHMAC c = cfg_VerifyHMAC c0 \<and>
       map rc_Name (cfg_Repos c) = map rc_Name (cfg_Repos c0))"
proof -
  from assms obtain b c0 where b: "os_ReadFile H path = Inr b"
    and c0: "json_Unmarshal dec_Config b zero_Config = (c0, None)"
    and v: "Validate (apply_env H c0) = (c, None)"
    by (auto simp: Load_def Let_def split: sum.splits option.splits prod.splits)
  from v have g: "config_given (apply_env H c0)" using Validate_ok_iff by (metis snd_conv)
  from v Validate_result[OF g]
  have c: "c = (apply_env H c0)\<lparr>cfg_Repos := map repo_default (cfg_Repos (apply_env H c0))\<rparr>" by simp
  have n: "rc_Name (repo_default r) = rc_Name r" for r by (simp add: repo_default_def Let_def)
  from Validate_wf[OF v] b c0 c show ?thesis
    by (auto simp: apply_env_def env_fallback_def comp_def n)
qed

definition example_file :: json where
  "example_file = JObj
     [(''github_pat'', JStr ''from-file''), (''smee_url'', JStr []),
      (''repos'', JArr [JObj [(''name'', JStr ''a/b''), (''repo_url'', JStr ''u''),
         (''label'', JStr ''L''), (''runner_labels'', JStr ''L'')]])]"

definition example_host :: host where
  "example_host = \<lparr>os_ReadFile = (\<lambda>p. Inr (json_text example_file)),
     os_StatPerm = (\<lambda>p. Some 384),
     os_Getenv = (\<lambda>n. if n = ''SMEE_URL'' then ''https://smee.io/env'' else
                       if n = ''GH_PAT'' then ''from-env'' else [])\<rparr>"

lemma example_file_plain: "plain_json example_file" "json_depth example_file \<le> json_max_depth"
  by (simp_all add: example_file_def plain_char_def json_max_depth_def)

lemma example_Load:
  "\<exists>c. Load example_host p = (Inr c, False) \<and> cfg_GitHubPAT c = ''from-file''
       \<and> cfg_SmeeURL c = ''https://smee.io/env''"
  by (simp add: Load_def example_host_def warnIfWorldReadable_def
      json_Unmarshal_text[OF example_file_plain])
     (simp add: example_file_def dec_Config_def dec_RepoConfig_def lookup_field_def dec_field_def
      zero_Config_def zero_RepoConfig_def apply_env_def env_fallback_def Validate_def
      repo_given_def repo_default_def Let_def)

theorem Load_wf_and_precedence_witness:
  "\<exists>c. Load example_host ''config.json'' = (Inr c, False) \<and> config_wf c
       \<and> cfg_GitHubPAT c = ''from-file''"
proof -
  obtain c where c: "Load example_host ''config.json'' = (Inr c, False)"
    "cfg_GitHubPAT c = ''from-file''"
    using example_Load by blast
  with Load_wf_and_precedence[OF c(1)] show ?thesis by blast
qed

text \<open>
  \<open>RepoByName\<close> finds the first entry of the name, and reports absence exactly
  when no entry has it.
\<close>

lemma RepoByName_first:
  "RepoByName c n =
     (case find_index (\<lambda>r. rc_Name r = n) (cfg_Repos c) of
        None \<Rightarrow> None | Some i \<Rightarrow> Some (cfg_Repos c ! i))
   \<and> (RepoByName c n = None) = (n \<notin> rc_Name ` set (cfg_Repos c))"
proof -
  have "repo_by_name rs n = (case find_index (\<lambda>r. rc_Name r = n) rs of
        None \<Rightarrow> None | Some i \<Rightarrow> Some (rs ! i))" for rs
    by (induction rs) (auto split: option.splits)
  then have "RepoByName c n = (case find_index (\<lambda>r. rc_Name r = n) (cfg_Repos c) of
        None \<Rightarrow> None | Some i \<Rightarrow> Some (cfg_Repos c ! i))"
    by (simp add: RepoByName_def)
  moreover have "(RepoByName c n = None) = (n \<notin> rc_Name ` set (cfg_Repos c))"
    by (simp only: RepoByName_def repo_by_name_None)
  ultimately show ?thesis by simp
qed

end
