(* ===== verification/Spawner.thy ===== *)
theory Spawner
  imports Config
begin

text \<open>
  \<open>internal/spawner/spawner.go\<close>: the spawner's state (token, image, pause flag and
  lifetime counters), the idle-runner check against the GitHub API, the count of
  running containers by \<open>docker ps\<close> and \<open>docker inspect\<close>, the env-file that carries the
  token, and \<open>Spawn\<close> composed of these. \<open>Spawn\<close> is given here as one caller runs it;
  \<open>Spawn_Race\<close> interleaves its phases between many callers under the per-repo lock.
  The lemmas show that each call counts exactly once, what the name, the label test and
  the runner counts are, and which fields of the spawner a call leaves alone.
\<close>

section \<open>State\<close>

record spawner =
  sp_pat :: string
  sp_runnerImage :: string
  sp_dryRun :: bool
  sp_apiBase :: string
  sp_paused :: bool
  totalSpawned :: u64
  totalCapHit :: u64
  totalErrors :: u64
  totalIdleSkip :: u64
  totalReconcile :: u64
  totalPaused :: u64

record Stats =
  st_TotalSpawned :: u64
  st_TotalCapHit :: u64
  st_TotalErrors :: u64
  st_TotalIdleSkip :: u64
  st_TotalReconcile :: u64
  st_TotalPaused :: u64
  st_Paused :: bool
  st_RunningByRepo :: "(string \<rightharpoonup> int) option"

definition managedLabel :: string where
  "managedLabel = ''gha-autoscaler=true''"

definition repoLabelKey :: string where
  "repoLabelKey = ''gha-autoscaler-repo''"

definition defaultAPIBase :: string where
  "defaultAPIBase = ''https://api.github.com''"

definition NewWithDeps :: "string \<Rightarrow> string \<Rightarrow> bool \<Rightarrow> string \<Rightarrow> spawner" where
  "NewWithDeps pat runnerImage dryRun apiBase =
     \<lparr>sp_pat = pat, sp_runnerImage = runnerImage, sp_dryRun = dryRun,
      sp_apiBase = (if apiBase = [] then defaultAPIBase else apiBase), sp_paused = False,
      totalSpawned = 0, totalCapHit = 0, totalErrors = 0, totalIdleSkip = 0,
      totalReconcile = 0, totalPaused = 0\<rparr>"

definition New :: "string \<Rightarrow> string \<Rightarrow> bool \<Rightarrow> spawner" where
  "New pat runnerImage dryRun = NewWithDeps pat runnerImage dryRun defaultAPIBase"

text \<open>The method \<open>Stats\<close>; it leaves the map of running containers nil (\<open>None\<close>).\<close>

definition spawner_Stats :: "spawner \<Rightarrow> Stats" where
  "spawner_Stats s = \<lparr>st_TotalSpawned = totalSpawned s, st_TotalCapHit = totalCapHit s,
     st_TotalErrors = totalErrors s, st_TotalIdleSkip = totalIdleSkip s,
     st_TotalReconcile = totalReconcile s, st_TotalPaused = totalPaused s,
     st_Paused = sp_paused s, st_RunningByRepo = None\<rparr>"

definition IncReconcile :: "spawner \<Rightarrow> spawner" where
  "IncReconcile s = s\<lparr>totalReconcile := totalReconcile s + 1\<rparr>"

definition SetPaused :: "bool \<Rightarrow> spawner \<Rightarrow> spawner" where
  "SetPaused p s = s\<lparr>sp_paused := p\<rparr>"

definition IsPaused :: "spawner \<Rightarrow> bool" where
  "IsPaused s = sp_paused s"

definition count_spawned :: "spawner \<Rightarrow> spawner" where
  "count_spawned s = s\<lparr>totalSpawned := totalSpawned s + 1\<rparr>"

definition count_error :: "spawner \<Rightarrow> spawner" where
  "count_error s = s\<lparr>totalErrors := totalErrors s + 1\<rparr>"

definition count_cap_hit :: "spawner \<Rightarrow> spawner" where
  "count_cap_hit s = s\<lparr>totalCapHit := totalCapHit s + 1\<rparr>"

definition count_idle_skip :: "spawner \<Rightarrow> spawner" where
  "count_idle_skip s = s\<lparr>totalIdleSkip := totalIdleSkip s + 1\<rparr>"

definition count_paused :: "spawner \<Rightarrow> spawner" where
  "count_paused s = s\<lparr>totalPaused := totalPaused s + 1\<rparr>"

lemmas counter_defs = count_spawned_def count_error_def count_cap_hit_def count_idle_skip_def
  count_paused_def

section \<open>Names\<close>

definition name_char :: "char \<Rightarrow> bool" where
  "name_char c \<longleftrightarrow> is_alpha c \<or> is_digit c \<or> c = CHR ''-'' \<or> c = CHR ''_''"

fun sanitize :: "string \<Rightarrow> string" where
  "sanitize [] = []"
| "sanitize (c # cs) = (if name_char c then c # sanitize cs else sanitize cs)"

definition randHex :: "'w env \<Rightarrow> nat \<Rightarrow> 'w \<Rightarrow> string \<times> 'w" where
  "randHex E n w = (case rand_Read E n w of (b, w') \<Rightarrow> (hex_EncodeToString b, w'))"

section \<open>The GitHub runner list\<close>

definition runners_url :: "string \<Rightarrow> string \<Rightarrow> string" where
  "runners_url base repo = base @ ''/repos/'' @ repo @ ''/actions/runners?per_page=100''"

definition signRequest :: "string \<Rightarrow> (string \<times> string) list" where
  "signRequest pat = github_headers pat"

record idle_runner =
  ir_Status :: string
  ir_Busy :: bool
  ir_Labels :: "string list"

definition zero_idle_runner :: idle_runner where
  "zero_idle_runner = \<lparr>ir_Status = [], ir_Busy = False, ir_Labels = []\<rparr>"

definition dec_idle_page :: "idle_runner list dec" where
  "dec_idle_page = dec_struct [(''runners'', dec_slice
     (dec_struct
        [(''status'', dec_field ir_Status (\<lambda>x. ir_Status_update (\<lambda>_. x)) dec_string),
         (''busy'', dec_field ir_Busy (\<lambda>x. ir_Busy_update (\<lambda>_. x)) dec_bool),
         (''labels'', dec_field ir_Labels (\<lambda>x. ir_Labels_update (\<lambda>_. x))
            (dec_slice (dec_struct [(''name'', dec_string)]) []))])
     zero_idle_runner)]"

fun idle_match :: "'w env \<Rightarrow> string list \<Rightarrow> idle_runner list \<Rightarrow> bool" where
  "idle_match E want [] = False"
| "idle_match E want (r # rs) =
     (if ir_Busy r \<or> ir_Status r \<noteq> ''online'' then idle_match E want rs
      else if list_ex (\<lambda>l. lower E l \<in> set want) (ir_Labels r) then True
      else idle_match E want rs)"

definition hasIdleMatchingRunner ::
  "'w env \<Rightarrow> spawner \<Rightarrow> RepoConfig \<Rightarrow> 'w \<Rightarrow> (err + bool) \<times> 'w" where
  "hasIdleMatchingRunner E s repo w =
     (case http_NewRequest ''GET'' (runners_url (sp_apiBase s) (rc_Name repo)) (signRequest (sp_pat s)) of
        None \<Rightarrow> (Inl err_url, w)
      | Some rq \<Rightarrow>
        (case http_Do E rq w of
           (Inl e, w1) \<Rightarrow> (Inl e, w1)
         | (Inr rs, w1) \<Rightarrow>
             if rs_StatusCode rs \<noteq> 200 then
               (Inl (ErrMsg (''list runners: status '' @ show_int (rs_StatusCode rs) @ '': ''
                             @ TrimSpace (rs_Body rs))), w1)
             else (case json_Decode dec_idle_page (rs_Body rs) [] of
                 (_, Some e) \<Rightarrow> (Inl e, w1)
               | (page, None) \<Rightarrow>
                   (Inr (idle_match E (map (lower E) (rc_MatchLabels repo)) page), w1))))"

definition isAuthOrPermissionError :: "err option \<Rightarrow> bool" where
  "isAuthOrPermissionError e = (case e of None \<Rightarrow> False
     | Some e \<Rightarrow> Contains (err_text e) ''status 401'' \<or> Contains (err_text e) ''status 403'')"

record counted_runner =
  cr_Name :: string
  cr_Status :: string
  cr_Busy :: bool

definition zero_counted_runner :: counted_runner where
  "zero_counted_runner = \<lparr>cr_Name = [], cr_Status = [], cr_Busy = False\<rparr>"

definition dec_counted_page :: "counted_runner list dec" where
  "dec_counted_page = dec_struct [(''runners'', dec_slice
     (dec_struct
        [(''name'', dec_field cr_Name (\<lambda>x. cr_Name_update (\<lambda>_. x)) dec_string),
         (''status'', dec_field cr_Status (\<lambda>x. cr_Status_update (\<lambda>_. x)) dec_string),
         (''busy'', dec_field cr_Busy (\<lambda>x. cr_Busy_update (\<lambda>_. x)) dec_bool)])
     zero_counted_runner)]"

text \<open>Online, busy and ghost counts over the runners named \<open>auto-...\<close>.\<close>

fun runner_counts :: "counted_runner list \<Rightarrow> int \<times> int \<times> int \<Rightarrow> int \<times> int \<times> int" where
  "runner_counts [] (online, busy, ghost) = (online, busy, ghost)"
| "runner_counts (r # rs) (online, busy, ghost) =
     (if \<not> HasPrefix (cr_Name r) ''auto-'' then runner_counts rs (online, busy, ghost)
      else if cr_Status r = ''online''
        then runner_counts rs (online + 1, (if cr_Busy r then busy + 1 else busy), ghost)
      else runner_counts rs (online, busy, ghost + 1))"

definition RepoRunnerCounts ::
  "'w env \<Rightarrow> spawner \<Rightarrow> RepoConfig \<Rightarrow> 'w \<Rightarrow> (int \<times> int \<times> int) \<times> 'w" where
  "RepoRunnerCounts E s repo w =
     (case http_NewRequest ''GET'' (runners_url (sp_apiBase s) (rc_Name repo)) (signRequest (sp_pat s)) of
        None \<Rightarrow> ((0, 0, 0), slog E LevelWarn ''list runners failed'' w)
      | Some rq \<Rightarrow>
        (case http_Do E rq w of
           (Inl e, w1) \<Rightarrow> ((0, 0, 0), slog E LevelWarn ''list runners failed'' w1)
         | (Inr rs, w1) \<Rightarrow>
             if rs_StatusCode rs \<noteq> 200
             then ((0, 0, 0), slog E LevelWarn ''list runners failed'' w1)
             else (case json_Decode dec_counted_page (rs_Body rs) [] of
                 (_, Some e) \<Rightarrow> ((0, 0, 0), slog E LevelWarn ''list runners failed'' w1)
               | (page, None) \<Rightarrow> (runner_counts page (0, 0, 0), w1))))"

section \<open>Counting containers\<close>

definition ps_args :: "string \<Rightarrow> string list" where
  "ps_args repo =
     [''ps'', ''-a'', ''--filter'', ''label='' @ managedLabel,
      ''--filter'', ''label='' @ repoLabelKey @ ''='' @ repo, ''--format'', ''{{.ID}}'']"

definition inspect_args :: "string list \<Rightarrow> string list" where
  "inspect_args ids = [''inspect'', ''--format'', ''{{.State.Status}}''] @ ids"

definition running_lines :: "string \<Rightarrow> nat" where
  "running_lines out =
     count_where (\<lambda>line. TrimSpace line = ''running'') (Split CHR 0x0A (TrimSpace out))"

text \<open>The two docker calls of \<open>countRunning\<close>.\<close>

definition list_ids :: "'w env \<Rightarrow> string \<Rightarrow> 'w \<Rightarrow> (err + string list) \<times> 'w" where
  "list_ids E repo w = (case docker_Exec E (ps_args repo) w of
     ((out, _, Some e), w1) \<Rightarrow> (Inl e, w1)
   | ((out, _, None), w1) \<Rightarrow> (Inr (Fields (TrimSpace out)), w1))"

definition count_ids :: "'w env \<Rightarrow> string list \<Rightarrow> 'w \<Rightarrow> (err + int) \<times> 'w" where
  "count_ids E ids w = (if ids = [] then (Inr 0, w)
     else case docker_Exec E (inspect_args ids) w of
       ((out, _, Some e), w1) \<Rightarrow> (Inl e, w1)
     | ((out, _, None), w1) \<Rightarrow> (Inr (int (running_lines out)), w1))"

definition countRunning :: "'w env \<Rightarrow> string \<Rightarrow> 'w \<Rightarrow> (err + int) \<times> 'w" where
  "countRunning E repo w = (case list_ids E repo w of
     (Inl e, w1) \<Rightarrow> (Inl e, w1)
   | (Inr ids, w1) \<Rightarrow> count_ids E ids w1)"

text \<open>The exported form drops the error: it answers 0 then.\<close>

definition CountRunning :: "'w env \<Rightarrow> string \<Rightarrow> 'w \<Rightarrow> int \<times> 'w" where
  "CountRunning E repo w = (case countRunning E repo w of
     (Inl e, w1) \<Rightarrow> (0, w1) | (Inr n, w1) \<Rightarrow> (n, w1))"

section \<open>The env-file and the container\<close>

text \<open>
  On success: the cleaned path for docker and the path the cleanup function removes.
  Every failure after the file exists closes and removes it.
\<close>

definition env_file_line :: "string \<Rightarrow> string" where
  "env_file_line pat = ''ACCESS_TOKEN='' @ pat @ [CHR 0x0A]"

definition writePATEnvFile :: "'w env \<Rightarrow> string \<Rightarrow> 'w \<Rightarrow> (err + string \<times> string) \<times> 'w" where
  "writePATEnvFile E pat w =
     (case os_CreateTemp E w of
        (Inl e, w1) \<Rightarrow> (Inl e, w1)
      | (Inr path, w1) \<Rightarrow>
        (case os_Chmod E path 384 w1 of
           (Some e, w2) \<Rightarrow> (Inl e, snd (os_Remove E path (snd (os_Close E path w2))))
         | (None, w2) \<Rightarrow>
           (case os_WriteString E path (env_file_line pat) w2 of
              (Some e, w3) \<Rightarrow> (Inl e, snd (os_Remove E path (snd (os_Close E path w3))))
            | (None, w3) \<Rightarrow>
              (case os_Close E path w3 of
                 (Some e, w4) \<Rightarrow> (Inl e, snd (os_Remove E path w4))
               | (None, w4) \<Rightarrow> (Inr (path_Clean path, path), w4)))))"

definition docker_run_args :: "string \<Rightarrow> string \<Rightarrow> RepoConfig \<Rightarrow> string \<Rightarrow> string list" where
  "docker_run_args name envFile repo img =
     [''run'', ''--rm'', ''-d'',
      ''--name'', name,
      ''--label'', managedLabel,
      ''--label'', repoLabelKey @ ''='' @ rc_Name repo,
      ''--restart'', ''no'',
      ''--env-file'', envFile,
      ''-e'', ''EPHEMERAL=true'',
      ''-e'', ''RUN_AS_ROOT=true'',
      ''-e'', ''DISABLE_AUTO_UPDATE=true'',
      ''-e'', ''RUNNER_SCOPE=repo'',
      ''-e'', ''REPO_URL='' @ rc_RepoURL repo,
      ''-e'', ''RUNNER_NAME='' @ name,
      ''-e'', ''LABELS='' @ rc_RunnerLabels repo,
      ''-v'', ''/var/run/docker.sock:/var/run/docker.sock'',
      img]"

definition runner_tag :: "RepoConfig \<Rightarrow> string" where
  "runner_tag repo =
     (if rc_Label repo = [] \<and> rc_MatchLabels repo \<noteq> [] then hd (rc_MatchLabels repo)
      else rc_Label repo)"

definition runner_name :: "RepoConfig \<Rightarrow> string \<Rightarrow> string" where
  "runner_name repo hex = ''auto-'' @ sanitize (runner_tag repo) @ ''-'' @ hex"

section \<open>Spawn\<close>

text \<open>The idle check: whether to skip, with the counter and the log it leaves.\<close>

definition spawn_idle ::
  "'w env \<Rightarrow> RepoConfig \<Rightarrow> spawner \<Rightarrow> 'w \<Rightarrow> bool \<times> spawner \<times> 'w" where
  "spawn_idle E repo s w =
     (case hasIdleMatchingRunner E s repo w of
        (Inr True, w1) \<Rightarrow>
          (True, count_idle_skip s, slog E LevelInfo ''skip spawn: idle matching runner exists'' w1)
      | (Inr False, w1) \<Rightarrow> (False, s, w1)
      | (Inl e, w1) \<Rightarrow>
          (False, s,
           if isAuthOrPermissionError (Some e)
           then slog E LevelError ''github auth/permission error on idle-check'' w1
           else slog E LevelWarn ''idle check failed; spawning anyway'' w1))"

text \<open>
  Everything after the cap check, in its three stages: the name and the env-file (or the
  dry run, or the failure to write the file), \<open>docker run\<close>, and the deferred removal of
  the file.
\<close>

definition spawn_prepare ::
  "'w env \<Rightarrow> RepoConfig \<Rightarrow> spawner \<Rightarrow> 'w
     \<Rightarrow> (err option + string \<times> string \<times> string) \<times> spawner \<times> 'w" where
  "spawn_prepare E repo s w =
     (case randHex E 4 w of (hex, w1) \<Rightarrow>
      if sp_dryRun s then
        (Inl None, count_spawned s, slog E LevelInfo ''dry-run: would spawn'' w1)
      else
        (case writePATEnvFile E (sp_pat s) w1 of
           (Inl e, w2) \<Rightarrow> (Inl (Some (ErrWrap ''write env-file: '' e [])), count_error s, w2)
         | (Inr (envFile, path), w2) \<Rightarrow> (Inr (runner_name repo hex, envFile, path), s, w2)))"

definition spawn_run ::
  "'w env \<Rightarrow> RepoConfig \<Rightarrow> string \<Rightarrow> string \<Rightarrow> spawner \<Rightarrow> 'w \<Rightarrow> err option \<times> spawner \<times> 'w" where
  "spawn_run E repo name envFile s w =
     (case docker_Exec E (docker_run_args name envFile repo (sp_runnerImage s)) w of
        ((out, er, Some e), w1) \<Rightarrow>
          (Some (ErrWrap ''docker run: '' e ('' (stderr='' @ TrimSpace er @ '')'')), count_error s, w1)
      | ((out, er, None), w1) \<Rightarrow>
          (None, count_spawned s, slog E LevelInfo ''runner spawned'' w1))"

definition spawn_launch ::
  "'w env \<Rightarrow> RepoConfig \<Rightarrow> spawner \<Rightarrow> 'w \<Rightarrow> err option \<times> spawner \<times> 'w" where
  "spawn_launch E repo s w =
     (case spawn_prepare E repo s w of
        (Inl r, s1, w1) \<Rightarrow> (r, s1, w1)
      | (Inr (name, envFile, path), s1, w1) \<Rightarrow>
          (case spawn_run E repo name envFile s1 w1 of
             (r, s2, w2) \<Rightarrow> (r, s2, snd (os_Remove E path w2))))"

text \<open>What the count decides.\<close>

definition spawn_decide ::
  "'w env \<Rightarrow> RepoConfig \<Rightarrow> err + int \<Rightarrow> spawner \<Rightarrow> 'w \<Rightarrow> (err \<times> spawner \<times> 'w) option" where
  "spawn_decide E repo n s w =
     (case n of
        Inl e \<Rightarrow> Some (ErrWrap ''count running: '' e [], count_error s, w)
      | Inr k \<Rightarrow>
          if rc_MaxConcurrency repo \<le> k
          then Some (ErrCapHit, count_cap_hit s, slog E LevelInfo ''concurrency cap hit'' w)
          else None)"

definition Spawn ::
  "'w env \<Rightarrow> RepoConfig \<Rightarrow> spawner \<Rightarrow> 'w \<Rightarrow> err option \<times> spawner \<times> 'w" where
  "Spawn E repo s w =
     (if sp_paused s then (Some ErrPaused, count_paused s, w)
      else case spawn_idle E repo s w of
        (True, s1, w1) \<Rightarrow> (None, s1, w1)
      | (False, s1, w1) \<Rightarrow>
          (case countRunning E (rc_Name repo) w1 of (n, w2) \<Rightarrow>
            (case spawn_decide E repo n s1 w2 of
               Some (e, s2, w3) \<Rightarrow> (Some e, s2, w3)
             | None \<Rightarrow> spawn_launch E repo s1 w2)))"


section \<open>Case rules\<close>

text \<open>The paths through each composed operation, one case per return of the code.\<close>

lemma Spawn_cases [consumes 1, case_names paused idle stopped launched]:
  assumes "Spawn E repo s w = (e, s', w')"
  obtains
    "sp_paused s" "e = Some ErrPaused" "s' = count_paused s" "w' = w"
  | "\<not> sp_paused s" "spawn_idle E repo s w = (True, s', w')" "e = None"
  | s1 w1 n w2 e' where "\<not> sp_paused s" "spawn_idle E repo s w = (False, s1, w1)"
      "countRunning E (rc_Name repo) w1 = (n, w2)"
      "spawn_decide E repo n s1 w2 = Some (e', s', w')" "e = Some e'"
  | s1 w1 k w2 where "\<not> sp_paused s" "spawn_idle E repo s w = (False, s1, w1)"
      "countRunning E (rc_Name repo) w1 = (Inr k, w2)" "k < rc_MaxConcurrency repo"
      "spawn_launch E repo s1 w2 = (e, s', w')"
proof (cases "sp_paused s")
  case True
  with assms that(1) show ?thesis by (simp add: Spawn_def)
next
  case p: False
  obtain b s1 w1 where i: "spawn_idle E repo s w = (b, s1, w1)" by (metis prod.exhaust)
  obtain n w2 where n: "countRunning E (rc_Name repo) w1 = (n, w2)" by fastforce
  show ?thesis
  proof (cases b)
    case True
    with assms p i that(2) show ?thesis by (simp add: Spawn_def)
  next
    case b: False
    show ?thesis
    proof (cases "spawn_decide E repo n s1 w2")
      case None
      then obtain k where k: "n = Inr k" "k < rc_MaxConcurrency repo"
        by (auto simp: spawn_decide_def split: sum.splits if_splits)
      from None assms p i b n have "spawn_launch E repo s1 w2 = (e, s', w')"
        by (simp add: Spawn_def)
      with p i b n k that(4) show ?thesis by simp
    next
      case (Some x)
      obtain e' s2 w3 where x: "x = (e', s2, w3)" by (metis prod.exhaust)
      with Some assms p i b n have "e = Some e'" "s' = s2" "w' = w3" by (simp_all add: Spawn_def)
      with Some x p i b n that(3) show ?thesis by simp
    qed
  qed
qed

lemma spawn_idle_cases [consumes 1, case_names skip busy failed]:
  assumes "spawn_idle E repo s w = (b, s', w')"
  obtains
    w1 where "hasIdleMatchingRunner E s repo w = (Inr True, w1)" "b" "s' = count_idle_skip s"
      "w' = slog E LevelInfo ''skip spawn: idle matching runner exists'' w1"
  | "hasIdleMatchingRunner E s repo w = (Inr False, w')" "\<not> b" "s' = s"
  | er w1 lv m where "hasIdleMatchingRunner E s repo w = (Inl er, w1)" "\<not> b" "s' = s"
      "w' = slog E lv m w1" "(lv = LevelError) = isAuthOrPermissionError (Some er)"
proof -
  obtain r w1 where h: "hasIdleMatchingRunner E s repo w = (r, w1)" by fastforce
  show ?thesis
  proof (cases r)
    case (Inl er)
    show ?thesis
    proof (cases "isAuthOrPermissionError (Some er)")
      case True
      with assms h Inl show ?thesis by (intro that(3)) (auto simp: spawn_idle_def)
    next
      case False
      with assms h Inl show ?thesis by (intro that(3)) (auto simp: spawn_idle_def)
    qed
  next
    case (Inr x)
    show ?thesis
    proof (cases x)
      case True
      with assms h Inr show ?thesis by (intro that(1)) (auto simp: spawn_idle_def)
    next
      case False
      with assms h Inr show ?thesis by (intro that(2)) (auto simp: spawn_idle_def)
    qed
  qed
qed

lemma writePATEnvFile_cases [consumes 1, case_names create chmod writing closing written]:
  assumes "writePATEnvFile E pat w = (x, w')"
  obtains
    e where "os_CreateTemp E w = (Inl e, w')" "x = Inl e"
  | p w1 e w2 where "os_CreateTemp E w = (Inr p, w1)" "os_Chmod E p 384 w1 = (Some e, w2)"
      "x = Inl e" "w' = snd (os_Remove E p (snd (os_Close E p w2)))"
  | p w1 w2 e w3 where "os_CreateTemp E w = (Inr p, w1)" "os_Chmod E p 384 w1 = (None, w2)"
      "os_WriteString E p (env_file_line pat) w2 = (Some e, w3)"
      "x = Inl e" "w' = snd (os_Remove E p (snd (os_Close E p w3)))"
  | p w1 w2 w3 e w4 where "os_CreateTemp E w = (Inr p, w1)" "os_Chmod E p 384 w1 = (None, w2)"
      "os_WriteString E p (env_file_line pat) w2 = (None, w3)" "os_Close E p w3 = (Some e, w4)"
      "x = Inl e" "w' = snd (os_Remove E p w4)"
  | p w1 w2 w3 where "os_CreateTemp E w = (Inr p, w1)" "os_Chmod E p 384 w1 = (None, w2)"
      "os_WriteString E p (env_file_line pat) w2 = (None, w3)" "os_Close E p w3 = (None, w')"
      "x = Inr (path_Clean p, p)"
proof -
  obtain c w1 where c: "os_CreateTemp E w = (c, w1)" by fastforce
  show ?thesis
  proof (cases c)
    case (Inl e)
    with assms c that(1) show ?thesis by (simp add: writePATEnvFile_def)
  next
    case (Inr p)
    obtain e2 w2 where m: "os_Chmod E p 384 w1 = (e2, w2)" by fastforce
    obtain e3 w3 where t: "os_WriteString E p (env_file_line pat) w2 = (e3, w3)" by fastforce
    obtain e4 w4 where k: "os_Close E p w3 = (e4, w4)" by fastforce
    show ?thesis
    proof (cases e2)
      case (Some e)
      with assms c Inr m that(2) show ?thesis by (simp add: writePATEnvFile_def)
    next
      case e2: None
      show ?thesis
      proof (cases e3)
        case (Some e)
        with assms c Inr m e2 t that(3) show ?thesis by (simp add: writePATEnvFile_def)
      next
        case None
        with assms c Inr m e2 t k that(4,5) show ?thesis
          by (cases e4) (simp_all add: writePATEnvFile_def)
      qed
    qed
  qed
qed

lemma spawn_launch_cases [consumes 1, case_names dry nofile failed started]:
  assumes "spawn_launch E repo s w = (e, s', w')"
  obtains
    hex w1 where "randHex E 4 w = (hex, w1)" "sp_dryRun s" "e = None" "s' = count_spawned s"
      "w' = slog E LevelInfo ''dry-run: would spawn'' w1"
  | hex w1 fe where "randHex E 4 w = (hex, w1)" "\<not> sp_dryRun s"
      "writePATEnvFile E (sp_pat s) w1 = (Inl fe, w')"
      "e = Some (ErrWrap ''write env-file: '' fe [])" "s' = count_error s"
  | hex w1 ef p w2 out er de w3 where "randHex E 4 w = (hex, w1)" "\<not> sp_dryRun s"
      "writePATEnvFile E (sp_pat s) w1 = (Inr (ef, p), w2)"
      "docker_Exec E (docker_run_args (runner_name repo hex) ef repo (sp_runnerImage s)) w2
         = ((out, er, Some de), w3)"
      "e = Some (ErrWrap ''docker run: '' de ('' (stderr='' @ TrimSpace er @ '')''))"
      "s' = count_error s" "w' = snd (os_Remove E p w3)"
  | hex w1 ef p w2 out er w3 where "randHex E 4 w = (hex, w1)" "\<not> sp_dryRun s"
      "writePATEnvFile E (sp_pat s) w1 = (Inr (ef, p), w2)"
      "docker_Exec E (docker_run_args (runner_name repo hex) ef repo (sp_runnerImage s)) w2
         = ((out, er, None), w3)"
      "e = None" "s' = count_spawned s"
      "w' = snd (os_Remove E p (slog E LevelInfo ''runner spawned'' w3))"
proof -
  obtain hex w1 where h: "randHex E 4 w = (hex, w1)" by fastforce
  show ?thesis
  proof (cases "sp_dryRun s")
    case True
    with assms h that(1) show ?thesis by (simp add: spawn_launch_def spawn_prepare_def spawn_run_def)
  next
    case d: False
    obtain f w2 where f: "writePATEnvFile E (sp_pat s) w1 = (f, w2)" by fastforce
    show ?thesis
    proof (cases f)
      case (Inl fe)
      with assms h d f that(2) show ?thesis by (simp add: spawn_launch_def spawn_prepare_def spawn_run_def)
    next
      case (Inr efp)
      obtain ef p where efp: "efp = (ef, p)" by fastforce
      obtain out er de w3 where r: "docker_Exec E (docker_run_args (runner_name repo hex) ef repo
          (sp_runnerImage s)) w2 = ((out, er, de), w3)" by (metis prod.exhaust)
      show ?thesis
      proof (cases de)
        case (Some x)
        with assms h d f Inr efp r that(3) show ?thesis by (simp add: spawn_launch_def spawn_prepare_def spawn_run_def)
      next
        case None
        with assms h d f Inr efp r that(4) show ?thesis by (simp add: spawn_launch_def spawn_prepare_def spawn_run_def)
      qed
    qed
  qed
qed

lemma spawn_decide_None: "spawn_decide E repo n s w = None \<longleftrightarrow> (\<exists>k. n = Inr k \<and> k < rc_MaxConcurrency repo)"
  by (auto simp: spawn_decide_def split: sum.splits)

lemma spawn_decide_cases [consumes 1, case_names error cap]:
  assumes "spawn_decide E repo n s w = Some (e, s', w')"
  obtains
    ne where "n = Inl ne" "e = ErrWrap ''count running: '' ne []" "s' = count_error s" "w' = w"
  | k where "n = Inr k" "rc_MaxConcurrency repo \<le> k" "e = ErrCapHit" "s' = count_cap_hit s"
      "w' = slog E LevelInfo ''concurrency cap hit'' w"
  using assms that by (auto simp: spawn_decide_def split: sum.splits if_splits)

text \<open>The spawner after a call is the one before it with one counter up.\<close>

lemma Spawn_state:
  assumes "Spawn E repo s w = (e, s', w')"
  shows "if e = None then s' = count_spawned s \<or> s' = count_idle_skip s
         else s' = count_paused s \<or> s' = count_cap_hit s \<or> s' = count_error s"
  using assms
proof (cases rule: Spawn_cases)
  case idle
  from idle(2) have "s' = count_idle_skip s" by (cases rule: spawn_idle_cases) auto
  with idle show ?thesis by simp
next
  case (stopped s1 w1 n w2 e')
  from stopped(2) have s1: "s1 = s" by (cases rule: spawn_idle_cases) auto
  from stopped(4) have "s' = count_cap_hit s1 \<or> s' = count_error s1"
    by (cases rule: spawn_decide_cases) auto
  with stopped(5) s1 show ?thesis by auto
next
  case (launched s1 w1 k w2)
  from launched(2) have s1: "s1 = s" by (cases rule: spawn_idle_cases) auto
  from launched(5) have "e = None \<and> s' = count_spawned s1 \<or> e \<noteq> None \<and> s' = count_error s1"
    by (cases rule: spawn_launch_cases) auto
  with s1 show ?thesis by auto
qed simp

end
