(* ===== verification/Go_Time.thy ===== *)
theory Go_Time
  imports Go_Strings
begin

text \<open>
  \<open>time.Parse\<close> for the layouts \<open>RFC3339\<close> and \<open>RFC3339Nano\<close>, and \<open>time.Since\<close>. Instants are
  nanoseconds since 1970, durations are nanoseconds. The two layouts accept the same
  strings, as a fraction may follow the seconds of a layout that has none.
\<close>

section \<open>Calendar\<close>

definition leap :: "int \<Rightarrow> bool" where
  "leap y \<longleftrightarrow> y mod 4 = 0 \<and> (y mod 100 \<noteq> 0 \<or> y mod 400 = 0)"

definition daysIn :: "int \<Rightarrow> int \<Rightarrow> int" where
  "daysIn m y = (if m = 2 then (if leap y then 29 else 28)
     else if m = 4 \<or> m = 6 \<or> m = 9 \<or> m = 11 then 30 else 31)"

text \<open>Days from 1 January of year 1 to 1 January of year \<open>y\<close>.\<close>

definition days_to_year :: "int \<Rightarrow> int" where
  "days_to_year y = 365 * (y - 1) + (y - 1) div 4 - (y - 1) div 100 + (y - 1) div 400"

definition days_to_month :: "int \<Rightarrow> int \<Rightarrow> int" where
  "days_to_month m y = sum_list (map (\<lambda>k. daysIn k y) [1..m - 1])"

text \<open>Seconds since 1970; there are 719162 days before.\<close>

definition unix_seconds :: "int \<Rightarrow> int \<Rightarrow> int \<Rightarrow> int \<Rightarrow> int \<Rightarrow> int \<Rightarrow> int" where
  "unix_seconds y mo d h mi s =
     (days_to_year y + days_to_month mo y + (d - 1) - 719162) * 86400 + h * 3600 + mi * 60 + s"

section \<open>Parsing\<close>

text \<open>\<open>getnum\<close>: two digits, or one if \<open>fixed\<close> is false; gives the number and the rest.\<close>

fun getnum :: "bool \<Rightarrow> string \<Rightarrow> (int \<times> string) option" where
  "getnum fixed [] = None"
| "getnum fixed (a # s) =
     (if \<not> is_digit a then None
      else case s of
        b # t \<Rightarrow> if is_digit b then Some (int (10 * digit_val a + digit_val b), t)
                 else if fixed then None else Some (int (digit_val a), s)
      | [] \<Rightarrow> if fixed then None else Some (int (digit_val a), s))"

definition skip1 :: "char \<Rightarrow> string \<Rightarrow> string option" where
  "skip1 c s = (case s of x # t \<Rightarrow> if x = c then Some t else None | [] \<Rightarrow> None)"

definition get_year :: "string \<Rightarrow> (int \<times> string) option" where
  "get_year s = (if length s < 4 \<or> \<not> list_all is_digit (take 4 s) then None
     else Some (int (read_nat (take 4 s)), drop 4 s))"

text \<open>
  \<open>parseNanoseconds\<close> on the digits of a fraction: the first nine count. A fraction starts
  with a period or a comma before a digit; otherwise there is none.
\<close>

definition nanos :: "string \<Rightarrow> int" where
  "nanos ds = (let n = take 9 ds in int (read_nat n) * 10 ^ (9 - length n))"

definition get_frac :: "string \<Rightarrow> int \<times> string" where
  "get_frac s = (case s of
     c # d # t \<Rightarrow>
       if (c = CHR ''.'' \<or> c = CHR '','') \<and> is_digit d
       then (nanos (takeWhile is_digit (d # t)), dropWhile is_digit (d # t)) else (0, s)
   | _ \<Rightarrow> (0, s))"

text \<open>The zone: \<open>Z\<close>, or a sign, hours up to 24, a colon and minutes up to 60, in seconds.\<close>

definition get_zone :: "string \<Rightarrow> (int \<times> string) option" where
  "get_zone s =
     (if HasPrefix s ''Z'' then Some (0, drop 1 s)
      else if length s < 6 \<or> s ! 3 \<noteq> CHR '':'' then None
      else case (getnum True (take 2 (drop 1 s)), getnum True (take 2 (drop 4 s))) of
        (Some (hr, _), Some (mm, _)) \<Rightarrow>
          if 24 < hr \<or> 60 < mm then None
          else if hd s = CHR ''+'' then Some ((hr * 60 + mm) * 60, drop 6 s)
          else if hd s = CHR ''-'' then Some (- ((hr * 60 + mm) * 60), drop 6 s)
          else None
      | _ \<Rightarrow> None)"

abbreviation obind :: "'a option \<Rightarrow> ('a \<Rightarrow> 'b option) \<Rightarrow> 'b option" where
  "obind \<equiv> Option.bind"

definition in_range :: "int \<Rightarrow> int \<Rightarrow> int \<Rightarrow> unit option" where
  "in_range lo hi x = (if lo \<le> x \<and> x \<le> hi then Some () else None)"

definition time_Parse :: "string \<Rightarrow> int option" where
  "time_Parse v0 =
     obind (get_year v0) (\<lambda>(y, v).
     obind (skip1 CHR ''-'' v) (\<lambda>v. obind (getnum True v) (\<lambda>(mo, v). obind (in_range 1 12 mo) (\<lambda>_.
     obind (skip1 CHR ''-'' v) (\<lambda>v. obind (getnum True v) (\<lambda>(d, v).
     obind (skip1 CHR ''T'' v) (\<lambda>v. obind (getnum False v) (\<lambda>(h, v). obind (in_range 0 23 h) (\<lambda>_.
     obind (skip1 CHR '':'' v) (\<lambda>v. obind (getnum True v) (\<lambda>(mi, v). obind (in_range 0 59 mi) (\<lambda>_.
     obind (skip1 CHR '':'' v) (\<lambda>v. obind (getnum True v) (\<lambda>(s, v). obind (in_range 0 59 s) (\<lambda>_.
     (case get_frac v of (ns, v) \<Rightarrow>
     obind (get_zone v) (\<lambda>(zone, v).
       if v \<noteq> [] \<or> d < 1 \<or> daysIn mo y < d then None
       else Some ((unix_seconds y mo d h mi s - zone) * 1000000000 + ns))))))))))))))))))"

text \<open>\<open>time.Since\<close>, saturating at the ends of \<open>Duration\<close>.\<close>

definition time_Since :: "int \<Rightarrow> int \<Rightarrow> int" where
  "time_Since now t = max (- (2 ^ 63)) (min (2 ^ 63 - 1) (now - t))"

section \<open>Reading what was written\<close>

definition two :: "nat \<Rightarrow> string" where
  "two n = [char_of (48 + n div 10), char_of (48 + n mod 10)]"

definition four :: "nat \<Rightarrow> string" where
  "four n = two (n div 100) @ two (n mod 100)"

text \<open>A date and time in UTC with the digits of a fraction, as docker writes it.\<close>

definition frac_text :: "string \<Rightarrow> string" where
  "frac_text frac = (if frac = [] then [] else CHR ''.'' # frac)"

definition rfc3339 :: "nat \<Rightarrow> nat \<Rightarrow> nat \<Rightarrow> nat \<Rightarrow> nat \<Rightarrow> nat \<Rightarrow> string \<Rightarrow> string" where
  "rfc3339 y mo d h mi s frac =
     four y @ ''-'' @ two mo @ ''-'' @ two d @ ''T'' @ two h @ '':'' @ two mi @ '':'' @ two s
       @ frac_text frac @ ''Z''"

lemma digit_val_char_of: "n < 10 \<Longrightarrow> digit_val (char_of (48 + n :: nat)) = n"
  by (simp add: digit_val_def)

lemma getnum_two [simp]: "n < 100 \<Longrightarrow> getnum b (two n @ v) = Some (int n, v)"
  by (simp add: two_def is_digit_char_of digit_val_char_of)

lemma skip1_same [simp]: "skip1 c (c # v) = Some v"
  by (simp add: skip1_def)

lemma read_two: "n < 100 \<Longrightarrow> foldl (\<lambda>k c. 10 * k + digit_val c) k (two n) = 100 * k + n"
  by (simp add: two_def digit_val_char_of)

lemma two_digits: "n < 100 \<Longrightarrow> list_all is_digit (two n)"
  by (simp add: two_def is_digit_char_of)

lemma two_length [simp]: "length (two n) = 2"
  by (simp add: two_def)

lemma four_simps: "length (four n) = 4" "n < 10000 \<Longrightarrow> list_all is_digit (four n)"
  "n < 10000 \<Longrightarrow> read_nat (four n) = n"
proof -
  assume n: "n < 10000"
  then have h: "n div 100 < 100" "n mod 100 < 100" by auto
  show "list_all is_digit (four n)" using two_digits[OF h(1)] two_digits[OF h(2)] by (simp add: four_def)
  show "read_nat (four n) = n"
    using read_two[OF h(1), of 0] read_two[OF h(2)] by (simp add: read_nat_def four_def)
qed (simp add: four_def)

lemma get_year_four [simp]: "n < 10000 \<Longrightarrow> get_year (four n @ v) = Some (int n, v)"
  by (simp add: get_year_def four_simps)

lemma get_frac_digits:
  assumes "list_all is_digit frac"
  shows "get_frac (frac_text frac @ ''Z'') = (nanos frac, ''Z'')"
proof (cases frac)
  case Nil
  then show ?thesis by (simp add: get_frac_def frac_text_def nanos_def read_nat_def)
next
  case (Cons a t)
  have z: "\<not> is_digit CHR ''Z''" by (simp add: is_digit_def)
  from assms have "\<forall>x \<in> set frac. is_digit x" by (simp add: list_all_iff)
  then have "takeWhile is_digit (frac @ ''Z'') = frac" "dropWhile is_digit (frac @ ''Z'') = ''Z''"
    using z by simp_all
  with Cons assms show ?thesis by (simp add: get_frac_def frac_text_def)
qed

lemma time_Parse_rfc3339:
  assumes "y < 10000" "1 \<le> mo" "mo \<le> 12" "1 \<le> d" "int d \<le> daysIn (int mo) (int y)" "h < 24" "mi < 60" "s < 60"
    and "list_all is_digit frac"
  shows "time_Parse (rfc3339 y mo d h mi s frac) =
    Some (unix_seconds (int y) (int mo) (int d) (int h) (int mi) (int s) * 1000000000 + nanos frac)"
proof -
  have "daysIn (int mo) (int y) \<le> 31" by (simp add: daysIn_def)
  with assms(5) have "d < 100" by linarith
  with assms show ?thesis
    by (simp add: time_Parse_def rfc3339_def in_range_def get_frac_digits get_zone_def)
qed

end
