(* ===== verification/Cleanup.thy ===== *)
theory Cleanup
  imports Spawner Go_Time
begin

text \<open>
  \<open>internal/cleanup/cleanup.go\<close>: the removal of runner registrations whose container is
  gone (ghosts), of the workflow runs stuck on them, and of local containers without a
  registration. The order of a tick's repos and of the iteration over a Go map are
  arguments; the repos, which the code cleans in parallel, are taken one after the other here
  and interleaved in Cleanup_Race.
  A request built from a URL that does not parse is a nil pointer in \<open>forceCancelRun\<close> and
  \<open>deleteRunner\<close>: the crash is the result \<open>None\<close>.
\<close>

section \<open>State\<close>

record Summary =
  su_Repos :: int
  su_GhostsFound :: int
  su_RunsCancelled :: int
  su_GhostsDeleted :: int
  su_GhostsStillStuck :: int
  su_LocalGhostsReaped :: int
  su_TotalGhostsDeleted :: u64
  su_TotalRunsCancelled :: u64
  su_TotalLocalGhostsReaped :: u64

definition zero_Summary :: Summary where
  "zero_Summary = \<lparr>su_Repos = 0, su_GhostsFound = 0, su_RunsCancelled = 0, su_GhostsDeleted = 0,
     su_GhostsStillStuck = 0, su_LocalGhostsReaped = 0, su_TotalGhostsDeleted = 0,
     su_TotalRunsCancelled = 0, su_TotalLocalGhostsReaped = 0\<rparr>"

record cleaner =
  cn_cfg :: Config
  cn_localGrace :: int
  totalGhostsDeleted :: u64
  totalRunsCancelled :: u64
  totalLocalGhostsReaped :: u64
  cn_lastSummary :: Summary

definition autoPrefix :: string where
  "autoPrefix = ''auto-''"

definition defaultLocalGrace :: int where
  "defaultLocalGrace = 5 * 60 * 1000000000"

definition cn_New :: "Config \<Rightarrow> cleaner" where
  "cn_New cfg = \<lparr>cn_cfg = cfg, cn_localGrace = defaultLocalGrace, totalGhostsDeleted = 0,
     totalRunsCancelled = 0, totalLocalGhostsReaped = 0, cn_lastSummary = zero_Summary\<rparr>"

definition SetLocalGrace :: "int \<Rightarrow> cleaner \<Rightarrow> cleaner" where
  "SetLocalGrace d c = (if d < 30 * 1000000000 then c else c\<lparr>cn_localGrace := d\<rparr>)"

definition LastSummary :: "cleaner \<Rightarrow> Summary" where
  "LastSummary c = (cn_lastSummary c)\<lparr>su_TotalGhostsDeleted := totalGhostsDeleted c,
     su_TotalRunsCancelled := totalRunsCancelled c,
     su_TotalLocalGhostsReaped := totalLocalGhostsReaped c\<rparr>"

section \<open>GitHub calls\<close>

definition cn_apiGET :: "'w env \<Rightarrow> spawner \<Rightarrow> string \<Rightarrow> 'w \<Rightarrow> (err + string) \<times> 'w" where
  "cn_apiGET E sp u w =
     api_get_with (\<lambda>st b. ErrMsg (''GET '' @ u @ '': '' @ show_int st @ '' '' @ b)) E (sp_pat sp) u w"

definition ghost_runs_url :: "string \<Rightarrow> string \<Rightarrow> string" where
  "ghost_runs_url base repo = base @ ''/repos/'' @ repo @ ''/actions/runs?status=in_progress&per_page=100''"

definition run_jobs_url :: "string \<Rightarrow> string \<Rightarrow> int \<Rightarrow> string" where
  "run_jobs_url base repo i = base @ ''/repos/'' @ repo @ ''/actions/runs/'' @ show_int i @ ''/jobs?per_page=100''"

definition force_cancel_url :: "string \<Rightarrow> string \<Rightarrow> int \<Rightarrow> string" where
  "force_cancel_url base repo i = base @ ''/repos/'' @ repo @ ''/actions/runs/'' @ show_int i @ ''/force-cancel''"

definition delete_url :: "string \<Rightarrow> string \<Rightarrow> int \<Rightarrow> string" where
  "delete_url base repo i = base @ ''/repos/'' @ repo @ ''/actions/runners/'' @ show_int i"

record ghostRunner =
  gh_id :: int
  gh_name :: string
  gh_busy :: bool

text \<open>A runner as \<open>listGhostRunners\<close> decodes it.\<close>

record full_runner =
  fr_ID :: int
  fr_Name :: string
  fr_Status :: string
  fr_Busy :: bool

definition dec_full_page :: "full_runner list dec" where
  "dec_full_page = dec_struct [(''runners'', dec_slice
     (dec_struct
        [(''id'', dec_field fr_ID (\<lambda>x. fr_ID_update (\<lambda>_. x)) dec_int64),
         (''name'', dec_field fr_Name (\<lambda>x. fr_Name_update (\<lambda>_. x)) dec_string),
         (''status'', dec_field fr_Status (\<lambda>x. fr_Status_update (\<lambda>_. x)) dec_string),
         (''busy'', dec_field fr_Busy (\<lambda>x. fr_Busy_update (\<lambda>_. x)) dec_bool)])
     \<lparr>fr_ID = 0, fr_Name = [], fr_Status = [], fr_Busy = False\<rparr>)]"

fun ghosts_of :: "full_runner list \<Rightarrow> ghostRunner list" where
  "ghosts_of [] = []"
| "ghosts_of (r # rs) =
     (if \<not> HasPrefix (fr_Name r) autoPrefix then ghosts_of rs
      else if fr_Status r = ''online'' then ghosts_of rs
      else \<lparr>gh_id = fr_ID r, gh_name = fr_Name r, gh_busy = fr_Busy r\<rparr> # ghosts_of rs)"

definition listGhostRunners ::
  "'w env \<Rightarrow> spawner \<Rightarrow> RepoConfig \<Rightarrow> 'w \<Rightarrow> (err + ghostRunner list) \<times> 'w" where
  "listGhostRunners E sp repo w =
     (case cn_apiGET E sp (runners_url (sp_apiBase sp) (rc_Name repo)) w of
        (Inl e, w1) \<Rightarrow> (Inl e, w1)
      | (Inr body, w1) \<Rightarrow>
          (case json_Decode dec_full_page body [] of
             (_, Some e) \<Rightarrow> (Inl e, w1)
           | (page, None) \<Rightarrow> (Inr (ghosts_of page), w1)))"

definition dec_run_ids :: "int list dec" where
  "dec_run_ids = dec_struct [(''workflow_runs'', dec_slice (dec_struct [(''id'', dec_int64)]) 0)]"

record run_job =
  rj_RunnerName :: string
  rj_Status :: string

definition dec_run_jobs :: "run_job list dec" where
  "dec_run_jobs = dec_struct [(''jobs'', dec_slice
     (dec_struct
        [(''runner_name'', dec_field rj_RunnerName (\<lambda>x. rj_RunnerName_update (\<lambda>_. x)) dec_string),
         (''status'', dec_field rj_Status (\<lambda>x. rj_Status_update (\<lambda>_. x)) dec_string)])
     \<lparr>rj_RunnerName = [], rj_Status = []\<rparr>)]"

text \<open>Whether a run is stuck; the error of decoding its jobs is ignored.\<close>

definition has_ghost_job :: "string set \<Rightarrow> run_job list \<Rightarrow> bool" where
  "has_ghost_job names js \<longleftrightarrow> list_ex (\<lambda>j. rj_Status j = ''in_progress'' \<and> rj_RunnerName j \<in> names) js"

definition listStuckJobs :: "'w env \<Rightarrow> spawner \<Rightarrow> RepoConfig \<Rightarrow> int \<Rightarrow> 'w \<Rightarrow> (err + run_job list) \<times> 'w" where
  "listStuckJobs E sp repo i w =
     (case cn_apiGET E sp (run_jobs_url (sp_apiBase sp) (rc_Name repo) i) w of
        (Inl e, w1) \<Rightarrow> (Inl e, w1)
      | (Inr body, w1) \<Rightarrow> (Inr (fst (json_Decode dec_run_jobs body [])), w1))"

text \<open>The keys of \<open>stuckRuns\<close>, the last one inserted first.\<close>

fun stuck_runs :: "'w env \<Rightarrow> spawner \<Rightarrow> RepoConfig \<Rightarrow> string set \<Rightarrow> int list \<Rightarrow> int list \<Rightarrow> 'w \<Rightarrow> int list \<times> 'w" where
  "stuck_runs E sp repo names [] stuck w = (stuck, w)"
| "stuck_runs E sp repo names (i # runs) stuck w =
     (case listStuckJobs E sp repo i w of
        (Inl e, w1) \<Rightarrow> stuck_runs E sp repo names runs stuck w1
      | (Inr js, w1) \<Rightarrow>
          stuck_runs E sp repo names runs
            (if has_ghost_job names js then List.insert i stuck else stuck) w1)"

definition runIDsForGhosts ::
  "'w env \<Rightarrow> (int list \<Rightarrow> int list) \<Rightarrow> spawner \<Rightarrow> RepoConfig \<Rightarrow> ghostRunner list \<Rightarrow> 'w \<Rightarrow> (err + int list) \<times> 'w" where
  "runIDsForGhosts E rng sp repo ghosts w =
     (case cn_apiGET E sp (ghost_runs_url (sp_apiBase sp) (rc_Name repo)) w of
        (Inl e, w1) \<Rightarrow> (Inl e, w1)
      | (Inr body, w1) \<Rightarrow>
          (case json_Decode dec_run_ids body [] of
             (_, Some e) \<Rightarrow> (Inl e, w1)
           | (runs, None) \<Rightarrow>
               (case stuck_runs E sp repo (gh_name ` set ghosts) runs [] w1 of
                  (stuck, w2) \<Rightarrow> (Inr (rng stuck), w2))))"

text \<open>A request whose answer is only its status: \<open>None\<close> is the crash on a nil request.\<close>

definition cn_send :: "'w env \<Rightarrow> spawner \<Rightarrow> string \<Rightarrow> string \<Rightarrow> (int \<Rightarrow> bool) \<Rightarrow> 'w \<Rightarrow> (bool \<times> 'w) option" where
  "cn_send E sp m u ok w =
     (case http_NewRequest m u (github_headers (sp_pat sp)) of
        None \<Rightarrow> None
      | Some rq \<Rightarrow>
          (case http_Do E rq w of
             (Inl e, w1) \<Rightarrow> Some (False, w1)
           | (Inr rs, w1) \<Rightarrow> Some (ok (rs_StatusCode rs), w1)))"

definition forceCancelRun :: "'w env \<Rightarrow> spawner \<Rightarrow> RepoConfig \<Rightarrow> int \<Rightarrow> 'w \<Rightarrow> (bool \<times> 'w) option" where
  "forceCancelRun E sp repo i w =
     cn_send E sp ''POST'' (force_cancel_url (sp_apiBase sp) (rc_Name repo) i) (\<lambda>st. 200 \<le> st \<and> st < 300) w"

definition deleteRunner :: "'w env \<Rightarrow> spawner \<Rightarrow> RepoConfig \<Rightarrow> int \<Rightarrow> 'w \<Rightarrow> (bool \<times> 'w) option" where
  "deleteRunner E sp repo i w =
     cn_send E sp ''DELETE'' (delete_url (sp_apiBase sp) (rc_Name repo) i) (\<lambda>st. st = 204) w"

section \<open>One repo\<close>

record repoResult =
  rr_found :: int
  rr_cancelled :: int
  rr_deleted :: int
  rr_stillStuck :: int

definition zero_result :: repoResult where
  "zero_result = \<lparr>rr_found = 0, rr_cancelled = 0, rr_deleted = 0, rr_stillStuck = 0\<rparr>"

fun cancel_all :: "'w env \<Rightarrow> spawner \<Rightarrow> RepoConfig \<Rightarrow> int list \<Rightarrow> repoResult \<Rightarrow> cleaner \<Rightarrow> 'w
    \<Rightarrow> (repoResult \<times> cleaner \<times> 'w) option" where
  "cancel_all E sp repo [] r c w = Some (r, c, w)"
| "cancel_all E sp repo (i # ids) r c w =
     (case forceCancelRun E sp repo i w of
        None \<Rightarrow> None
      | Some (True, w1) \<Rightarrow> cancel_all E sp repo ids (r\<lparr>rr_cancelled := rr_cancelled r + 1\<rparr>)
          (c\<lparr>totalRunsCancelled := totalRunsCancelled c + 1\<rparr>) w1
      | Some (False, w1) \<Rightarrow> cancel_all E sp repo ids r c w1)"

fun delete_all :: "'w env \<Rightarrow> spawner \<Rightarrow> RepoConfig \<Rightarrow> ghostRunner list \<Rightarrow> repoResult \<Rightarrow> cleaner \<Rightarrow> 'w
    \<Rightarrow> (repoResult \<times> cleaner \<times> 'w) option" where
  "delete_all E sp repo [] r c w = Some (r, c, w)"
| "delete_all E sp repo (g # gs) r c w =
     (case deleteRunner E sp repo (gh_id g) w of
        None \<Rightarrow> None
      | Some (True, w1) \<Rightarrow> delete_all E sp repo gs (r\<lparr>rr_deleted := rr_deleted r + 1\<rparr>)
          (c\<lparr>totalGhostsDeleted := totalGhostsDeleted c + 1\<rparr>) w1
      | Some (False, w1) \<Rightarrow> delete_all E sp repo gs (r\<lparr>rr_stillStuck := rr_stillStuck r + 1\<rparr>) c w1)"

definition cleanupRepo ::
  "'w env \<Rightarrow> (int list \<Rightarrow> int list) \<Rightarrow> spawner \<Rightarrow> RepoConfig \<Rightarrow> cleaner \<Rightarrow> 'w
     \<Rightarrow> ((err + repoResult) \<times> cleaner \<times> 'w) option" where
  "cleanupRepo E rng sp repo c w =
     (case listGhostRunners E sp repo w of
        (Inl e, w1) \<Rightarrow> Some (Inl (ErrWrap ''list ghosts: '' e []), c, w1)
      | (Inr ghosts, w1) \<Rightarrow>
          if ghosts = [] then Some (Inr zero_result, c, w1)
          else (let r = zero_result\<lparr>rr_found := int (length ghosts)\<rparr> in
            case (case runIDsForGhosts E rng sp repo ghosts w1 of
                    (Inl e, w2) \<Rightarrow> Some (r, c, w2)
                  | (Inr ids, w2) \<Rightarrow> cancel_all E sp repo ids r c w2) of
              None \<Rightarrow> None
            | Some (r1, c1, w3) \<Rightarrow>
                (case delete_all E sp repo ghosts r1 c1 w3 of
                   None \<Rightarrow> None
                 | Some (r2, c2, w4) \<Rightarrow> Some (Inr r2, c2, w4))))"

section \<open>Local containers\<close>

definition dockerOutput :: "'w env \<Rightarrow> string list \<Rightarrow> 'w \<Rightarrow> (err + string) \<times> 'w" where
  "dockerOutput E args w =
     (case docker_Exec E args w of
        ((out, er, None), w1) \<Rightarrow> (Inr out, w1)
      | ((out, er, Some e), w1) \<Rightarrow>
          (Inl (ErrWrap (''docker '' @ join '' '' args @ '': '') e ('' (stderr='' @ TrimSpace er @ '')'')), w1))"

definition dockerRun :: "'w env \<Rightarrow> string list \<Rightarrow> 'w \<Rightarrow> err option \<times> 'w" where
  "dockerRun E args w = (case dockerOutput E args w of (Inl e, w1) \<Rightarrow> (Some e, w1) | (Inr _, w1) \<Rightarrow> (None, w1))"

record localContainer =
  lc_id :: string
  lc_name :: string
  lc_repo :: string
  lc_state :: string

definition ps_all_args :: "string list" where
  "ps_all_args = [''ps'', ''-a'', ''--filter'', ''label='' @ managedLabel,
     ''--format'', ''{{.ID}}|{{.Names}}|{{.Label \"'' @ repoLabelKey @ ''\"}}'']"

definition parse_local :: "string \<Rightarrow> localContainer option" where
  "parse_local line =
     (if line = [] then None
      else case SplitN 3 CHR ''|'' line of
        [a, b, c] \<Rightarrow> Some \<lparr>lc_id = a, lc_name = b, lc_repo = c, lc_state = []\<rparr>
      | _ \<Rightarrow> None)"

definition with_states :: "string list \<Rightarrow> localContainer list \<Rightarrow> localContainer list" where
  "with_states states cs = map (\<lambda>(lc, st). lc\<lparr>lc_state := TrimSpace st\<rparr>) (zip cs states)"

definition listManagedContainers :: "'w env \<Rightarrow> 'w \<Rightarrow> (err + localContainer list) \<times> 'w" where
  "listManagedContainers E w =
     (case dockerOutput E ps_all_args w of
        (Inl e, w1) \<Rightarrow> (Inl e, w1)
      | (Inr out, w1) \<Rightarrow>
          (let cs = List.map_filter parse_local (Split CHR 0x0A (TrimSpace out)) in
           if cs = [] then (Inr cs, w1)
           else case dockerOutput E (inspect_args (map lc_id cs)) w1 of
             (Inl e, w2) \<Rightarrow> (Inr cs, w2)
           | (Inr iout, w2) \<Rightarrow>
               (let states = Split CHR 0x0A (TrimSpace iout) in
                if length states \<noteq> length cs then (Inr cs, w2) else (Inr (with_states states cs), w2))))"

text \<open>The two layouts tried accept the same strings, so the fallback fails again.\<close>

definition created_args :: "string \<Rightarrow> string list" where
  "created_args i = [''inspect'', ''--format'', ''{{.Created}}'', i]"

definition containerAge :: "'w env \<Rightarrow> string \<Rightarrow> 'w \<Rightarrow> (err + int) \<times> 'w" where
  "containerAge E i w =
     (case dockerOutput E (created_args i) w of
        (Inl e, w1) \<Rightarrow> (Inl e, w1)
      | (Inr out, w1) \<Rightarrow>
          (case time_Parse (TrimSpace out) of
             Some t \<Rightarrow> (case time_Now E w1 of (n, w2) \<Rightarrow> (Inr (time_Since n t), w2))
           | None \<Rightarrow>
               (case time_Parse (TrimSpace out) of
                  Some t \<Rightarrow> (case time_Now E w1 of (n, w2) \<Rightarrow> (Inr (time_Since n t), w2))
                | None \<Rightarrow> (Inl (ErrMsg ''parsing time''), w1))))"

definition dec_names :: "string list dec" where
  "dec_names = dec_struct [(''runners'', dec_slice (dec_struct [(''name'', dec_string)]) [])]"

definition listAllRunnerNames :: "'w env \<Rightarrow> spawner \<Rightarrow> RepoConfig \<Rightarrow> 'w \<Rightarrow> (err + string list) \<times> 'w" where
  "listAllRunnerNames E sp repo w =
     (case cn_apiGET E sp (runners_url (sp_apiBase sp) (rc_Name repo)) w of
        (Inl e, w1) \<Rightarrow> (Inl e, w1)
      | (Inr body, w1) \<Rightarrow>
          (case json_Decode dec_names body [] of
             (_, Some e) \<Rightarrow> (Inl e, w1)
           | (names, None) \<Rightarrow> (Inr names, w1)))"

text \<open>The registered names per repo, for the repos whose runners can be listed.\<close>

fun registered_names :: "'w env \<Rightarrow> spawner \<Rightarrow> RepoConfig list \<Rightarrow> (string \<rightharpoonup> string set) \<Rightarrow> 'w
    \<Rightarrow> (string \<rightharpoonup> string set) \<times> 'w" where
  "registered_names E sp [] reg w = (reg, w)"
| "registered_names E sp (repo # repos) reg w =
     (case listAllRunnerNames E sp repo w of
        (Inl e, w1) \<Rightarrow> registered_names E sp repos reg
          (slog E LevelWarn ''local reap: list runners failed; skipping repo to avoid false positives'' w1)
      | (Inr names, w1) \<Rightarrow> registered_names E sp repos (reg(rc_Name repo \<mapsto> set names)) w1)"

section \<open>Reaping\<close>

definition rm_args :: "string \<Rightarrow> string list" where
  "rm_args i = [''rm'', ''-f'', i]"

text \<open>\<open>docker rm -f\<close> with what is counted and logged: whether it removed the container.\<close>

definition remove_container :: "'w env \<Rightarrow> string \<Rightarrow> string \<Rightarrow> cleaner \<Rightarrow> 'w \<Rightarrow> bool \<times> cleaner \<times> 'w" where
  "remove_container E why i c w =
     (case dockerRun E (rm_args i) (slog E LevelInfo why w) of
        (Some e, w1) \<Rightarrow> (False, c, slog E LevelWarn ''local reap: docker rm -f failed'' w1)
      | (None, w1) \<Rightarrow> (True, c\<lparr>totalLocalGhostsReaped := totalLocalGhostsReaped c + 1\<rparr>, w1))"

definition reap_one ::
  "'w env \<Rightarrow> (string \<rightharpoonup> string set) \<Rightarrow> int \<Rightarrow> localContainer \<Rightarrow> cleaner \<Rightarrow> 'w \<Rightarrow> bool \<times> cleaner \<times> 'w" where
  "reap_one E reg grace lc c w =
     (if lc_state lc \<noteq> [] \<and> lc_state lc \<noteq> ''running''
      then remove_container E ''reaping non-running ghost container'' (lc_id lc) c w
      else case reg (lc_repo lc) of
        None \<Rightarrow> (False, c, w)
      | Some repoSet \<Rightarrow>
          if lc_name lc \<in> repoSet then (False, c, w)
          else (case containerAge E (lc_id lc) w of
            (Inl e, w1) \<Rightarrow> (False, c, slog E LevelDebug ''local reap: age lookup failed'' w1)
          | (Inr age, w1) \<Rightarrow>
              if age < grace then (False, c, w1)
              else remove_container E ''reaping unregistered running container'' (lc_id lc) c w1))"

fun reap_all :: "'w env \<Rightarrow> (string \<rightharpoonup> string set) \<Rightarrow> int \<Rightarrow> localContainer list \<Rightarrow> int \<Rightarrow> cleaner \<Rightarrow> 'w
    \<Rightarrow> int \<times> cleaner \<times> 'w" where
  "reap_all E reg grace [] n c w = (n, c, w)"
| "reap_all E reg grace (lc # lcs) n c w =
     (case reap_one E reg grace lc c w of
        (b, c1, w1) \<Rightarrow> reap_all E reg grace lcs (if b then n + 1 else n) c1 w1)"

definition grace_of :: "cleaner \<Rightarrow> int" where
  "grace_of c = (if cn_localGrace c \<le> 0 then defaultLocalGrace else cn_localGrace c)"

definition reapLocalGhosts :: "'w env \<Rightarrow> spawner \<Rightarrow> cleaner \<Rightarrow> 'w \<Rightarrow> int \<times> cleaner \<times> 'w" where
  "reapLocalGhosts E sp c w =
     (case listManagedContainers E w of
        (Inl e, w1) \<Rightarrow> (0, c, slog E LevelWarn ''local reap: docker ps failed'' w1)
      | (Inr locals, w1) \<Rightarrow>
          if locals = [] then (0, c, w1)
          else (case registered_names E sp (cfg_Repos (cn_cfg c)) Map.empty w1 of
            (reg, w2) \<Rightarrow> reap_all E reg (grace_of c) locals 0 c w2))"

section \<open>A tick\<close>

definition add_result :: "repoResult \<Rightarrow> Summary \<Rightarrow> Summary" where
  "add_result r su = su\<lparr>su_GhostsFound := su_GhostsFound su + rr_found r,
     su_RunsCancelled := su_RunsCancelled su + rr_cancelled r,
     su_GhostsDeleted := su_GhostsDeleted su + rr_deleted r,
     su_GhostsStillStuck := su_GhostsStillStuck su + rr_stillStuck r\<rparr>"

fun cleanup_all :: "'w env \<Rightarrow> (int list \<Rightarrow> int list) \<Rightarrow> spawner \<Rightarrow> RepoConfig list \<Rightarrow> Summary \<Rightarrow> cleaner \<Rightarrow> 'w
    \<Rightarrow> (Summary \<times> cleaner \<times> 'w) option" where
  "cleanup_all E rng sp [] su c w = Some (su, c, w)"
| "cleanup_all E rng sp (repo # repos) su c w =
     (case cleanupRepo E rng sp repo c w of
        None \<Rightarrow> None
      | Some (Inl e, c1, w1) \<Rightarrow> cleanup_all E rng sp repos su c1 (slog E LevelWarn ''cleanup repo failed'' w1)
      | Some (Inr r, c1, w1) \<Rightarrow> cleanup_all E rng sp repos (add_result r su) c1 w1)"

text \<open>What follows the per-repo passes.\<close>

definition finish_tick :: "'w env \<Rightarrow> spawner \<Rightarrow> Summary \<Rightarrow> cleaner \<Rightarrow> 'w \<Rightarrow> Summary \<times> cleaner \<times> 'w" where
  "finish_tick E sp su1 c1 w1 =
     (case reapLocalGhosts E sp c1 w1 of
        (reaped, c2, w2) \<Rightarrow>
          (let su = su1\<lparr>su_LocalGhostsReaped := reaped,
               su_TotalGhostsDeleted := totalGhostsDeleted c2,
               su_TotalRunsCancelled := totalRunsCancelled c2,
               su_TotalLocalGhostsReaped := totalLocalGhostsReaped c2\<rparr>;
             w3 = (if 0 < su_GhostsFound su \<or> 0 < su_GhostsDeleted su \<or> 0 < su_LocalGhostsReaped su
                   then slog E LevelInfo ''cleanup tick complete'' w2 else w2)
           in (su, c2\<lparr>cn_lastSummary := su\<rparr>, w3)))"

definition tickWithSummary ::
  "'w env \<Rightarrow> (int list \<Rightarrow> int list) \<Rightarrow> (RepoConfig list \<Rightarrow> RepoConfig list) \<Rightarrow> spawner \<Rightarrow> cleaner \<Rightarrow> 'w
     \<Rightarrow> (Summary \<times> cleaner \<times> 'w) option" where
  "tickWithSummary E rng order sp c w =
     (case cleanup_all E rng sp (order (cfg_Repos (cn_cfg c)))
         (zero_Summary\<lparr>su_Repos := int (length (cfg_Repos (cn_cfg c)))\<rparr>) c w of
        None \<Rightarrow> None
      | Some (su1, c1, w1) \<Rightarrow> Some (finish_tick E sp su1 c1 w1))"

definition cn_Tick ::
  "'w env \<Rightarrow> (int list \<Rightarrow> int list) \<Rightarrow> (RepoConfig list \<Rightarrow> RepoConfig list) \<Rightarrow> spawner \<Rightarrow> cleaner \<Rightarrow> 'w
     \<Rightarrow> (Summary \<times> cleaner \<times> 'w) option" where
  "cn_Tick E rng order sp c w = tickWithSummary E rng order sp c w"

text \<open>\<open>Run\<close>: one tick at once, then one per tick of the ticker; a crash ends it.\<close>

definition cn_tick ::
  "'w env \<Rightarrow> (int list \<Rightarrow> int list) \<Rightarrow> (RepoConfig list \<Rightarrow> RepoConfig list) \<Rightarrow> spawner
     \<Rightarrow> (cleaner \<times> 'w) option \<Rightarrow> (cleaner \<times> 'w) option" where
  "cn_tick E rng order sp s = (case s of
     None \<Rightarrow> None
   | Some (c, w) \<Rightarrow> map_option snd (tickWithSummary E rng order sp c w))"

definition cn_Run ::
  "'w env \<Rightarrow> (int list \<Rightarrow> int list) \<Rightarrow> (RepoConfig list \<Rightarrow> RepoConfig list) \<Rightarrow> spawner \<Rightarrow> select list
     \<Rightarrow> cleaner \<Rightarrow> 'w \<Rightarrow> (cleaner \<times> 'w) option" where
  "cn_Run E rng order sp es c w =
     ticker_loop (cn_tick E rng order sp) es
       (cn_tick E rng order sp (Some (c, slog E LevelInfo ''cleanup started'' w)))"

section \<open>Case rule\<close>

lemma cleanupRepo_cases [consumes 1, case_names failed clean ghosts]:
  assumes "cleanupRepo E rng sp repo c w = Some (x, c', w')"
  obtains
    e where "listGhostRunners E sp repo w = (Inl e, w')" "x = Inl (ErrWrap ''list ghosts: '' e [])" "c' = c"
  | "listGhostRunners E sp repo w = (Inr [], w')" "x = Inr zero_result" "c' = c"
  | gs w1 z w2 r1 c1 w3 r2 where "listGhostRunners E sp repo w = (Inr gs, w1)" "gs \<noteq> []"
      "runIDsForGhosts E rng sp repo gs w1 = (z, w2)"
      "(case z of Inl e \<Rightarrow> r1 = zero_result\<lparr>rr_found := int (length gs)\<rparr> \<and> c1 = c \<and> w3 = w2
        | Inr ids \<Rightarrow> cancel_all E sp repo ids (zero_result\<lparr>rr_found := int (length gs)\<rparr>) c w2 = Some (r1, c1, w3))"
      "delete_all E sp repo gs r1 c1 w3 = Some (r2, c', w')" "x = Inr r2"
proof -
  obtain y w1 where l: "listGhostRunners E sp repo w = (y, w1)" by fastforce
  show ?thesis
  proof (cases y)
    case (Inl e)
    with assms l show ?thesis by (intro that(1)) (auto simp: cleanupRepo_def)
  next
    case (Inr gs)
    show ?thesis
    proof (cases "gs = []")
      case True
      with assms l Inr show ?thesis by (intro that(2)) (auto simp: cleanupRepo_def)
    next
      case gs: False
      let ?r = "zero_result\<lparr>rr_found := int (length gs)\<rparr>"
      obtain z w2 where z: "runIDsForGhosts E rng sp repo gs w1 = (z, w2)" by fastforce
      let ?c = "case z of Inl e \<Rightarrow> Some (?r, c, w2) | Inr ids \<Rightarrow> cancel_all E sp repo ids ?r c w2"
      have eq: "(case ?c of None \<Rightarrow> None | Some (r1, c1, w3) \<Rightarrow>
          (case delete_all E sp repo gs r1 c1 w3 of None \<Rightarrow> None | Some (r2, c2, w4) \<Rightarrow> Some (Inr r2, c2, w4)))
          = Some (x, c', w')"
        using assms l Inr gs z by (simp add: cleanupRepo_def Let_def)
      obtain r1 c1 w3 where r1: "?c = Some (r1, c1, w3)" using eq by (cases ?c) auto
      obtain r2 where r2: "delete_all E sp repo gs r1 c1 w3 = Some (r2, c', w')" "x = Inr r2"
        using eq unfolding r1 by (auto split: option.splits)
      show ?thesis
        by (rule that(3)[OF _ gs z _ r2]) (use l Inr r1 in \<open>auto split: sum.split\<close>)
    qed
  qed
qed

end
