(* ===== verification/Reconciler.thy ===== *)
theory Reconciler
  imports Spawner
begin

text \<open>
  \<open>internal/reconciler/reconciler.go\<close>: the GitHub queries (runs by status, jobs of a run),
  the count of queued jobs that want one of the repo's labels, one repo's reconciliation
  and one tick over the configured repos. The repos of a tick run in parallel in the code;
  \<open>tickFiltered\<close> runs them one after the other in a given order (\<open>order\<close>), which is what the
  per-repo lemmas need; interleaved \<open>Spawn\<close> calls are the subject of \<open>Spawn_Race\<close>. The
  lemmas say how many jobs are counted and how often \<open>Spawn\<close> is called.
\<close>

section \<open>State\<close>

text \<open>The shared spawner is passed through; \<open>rn_apiBase\<close> is \<open>apiBaseFor()\<close>.\<close>

record reconciler =
  rn_cfg :: Config
  rn_interval :: int
  rn_apiBase :: string

definition rn_New :: "Config \<Rightarrow> int \<Rightarrow> reconciler" where
  "rn_New cfg interval = \<lparr>rn_cfg = cfg,
     rn_interval = (if interval \<le> 0 then 30 * 1000000000 else interval),
     rn_apiBase = ''https://api.github.com''\<rparr>"

section \<open>GitHub queries\<close>

definition rn_apiGET :: "'w env \<Rightarrow> spawner \<Rightarrow> string \<Rightarrow> 'w \<Rightarrow> (err + string) \<times> 'w" where
  "rn_apiGET E sp u w =
     api_get_with (\<lambda>st b. ErrMsg (''status '' @ show_int st @ '': '' @ b)) E (sp_pat sp) u w"

definition runs_url :: "string \<Rightarrow> string \<Rightarrow> string \<Rightarrow> string" where
  "runs_url base repo status =
     base @ ''/repos/'' @ repo @ ''/actions/runs?status='' @ status @ ''&per_page=100''"

definition jobs_url :: "string \<Rightarrow> string \<Rightarrow> int \<Rightarrow> string" where
  "jobs_url base repo runID =
     base @ ''/repos/'' @ repo @ ''/actions/runs/'' @ show_int runID @ ''/jobs?per_page=100''"

text \<open>The page's \<open>workflow_runs\<close>, each the id alone.\<close>

definition dec_runs :: "int list dec" where
  "dec_runs = dec_struct [(''workflow_runs'', dec_slice (dec_struct [(''id'', dec_int64)]) 0)]"

definition listRunIDsByStatus ::
  "'w env \<Rightarrow> reconciler \<Rightarrow> spawner \<Rightarrow> RepoConfig \<Rightarrow> string \<Rightarrow> 'w \<Rightarrow> (err + int list) \<times> 'w" where
  "listRunIDsByStatus E r sp repo status w =
     (case rn_apiGET E sp (runs_url (rn_apiBase r) (rc_Name repo) status) w of
        (Inl e, w1) \<Rightarrow> (Inl e, w1)
      | (Inr body, w1) \<Rightarrow>
          (case json_Decode dec_runs body [] of
             (_, Some e) \<Rightarrow> (Inl (ErrWrap ''decode runs: '' e []), w1)
           | (ids, None) \<Rightarrow> (Inr ids, w1)))"

definition listQueuedRunIDs ::
  "'w env \<Rightarrow> reconciler \<Rightarrow> spawner \<Rightarrow> RepoConfig \<Rightarrow> 'w \<Rightarrow> (err + int list) \<times> 'w" where
  "listQueuedRunIDs E r sp repo w =
     (case listRunIDsByStatus E r sp repo ''queued'' w of
        (Inl e, w1) \<Rightarrow> (Inl e, w1)
      | (Inr queued, w1) \<Rightarrow>
          (case listRunIDsByStatus E r sp repo ''in_progress'' w1 of
             (Inl e, w2) \<Rightarrow> (Inl e, w2)
           | (Inr inProgress, w2) \<Rightarrow> (Inr (queued @ inProgress), w2)))"

record apiJob =
  aj_Status :: string
  aj_Labels :: "string list"

definition dec_jobs :: "apiJob list dec" where
  "dec_jobs = dec_struct [(''jobs'', dec_slice
     (dec_struct
        [(''status'', dec_field aj_Status (\<lambda>x. aj_Status_update (\<lambda>_. x)) dec_string),
         (''labels'', dec_field aj_Labels (\<lambda>x. aj_Labels_update (\<lambda>_. x)) (dec_slice dec_string []))])
     \<lparr>aj_Status = [], aj_Labels = []\<rparr>)]"

definition listRunJobs ::
  "'w env \<Rightarrow> reconciler \<Rightarrow> spawner \<Rightarrow> RepoConfig \<Rightarrow> int \<Rightarrow> 'w \<Rightarrow> (err + apiJob list) \<times> 'w" where
  "listRunJobs E r sp repo runID w =
     (case rn_apiGET E sp (jobs_url (rn_apiBase r) (rc_Name repo) runID) w of
        (Inl e, w1) \<Rightarrow> (Inl e, w1)
      | (Inr body, w1) \<Rightarrow>
          (case json_Decode dec_jobs body [] of
             (_, Some e) \<Rightarrow> (Inl (ErrWrap ''decode jobs: '' e []), w1)
           | (jobs, None) \<Rightarrow> (Inr jobs, w1)))"

section \<open>Counting queued jobs\<close>

definition wants_label :: "'w env \<Rightarrow> string set \<Rightarrow> apiJob \<Rightarrow> bool" where
  "wants_label E want j \<longleftrightarrow> list_ex (\<lambda>lbl. lower E lbl \<in> want) (aj_Labels j)"

text \<open>The jobs of one run: the count so far and whether it reached the capacity.\<close>

fun count_jobs :: "'w env \<Rightarrow> string set \<Rightarrow> int \<Rightarrow> apiJob list \<Rightarrow> int \<Rightarrow> int \<times> bool" where
  "count_jobs E want cap [] matched = (matched, False)"
| "count_jobs E want cap (j # js) matched =
     (if aj_Status j \<noteq> ''queued'' then count_jobs E want cap js matched
      else (let m = (if wants_label E want j then matched + 1 else matched) in
            if cap \<le> m then (m, True) else count_jobs E want cap js m))"

fun count_runs :: "'w env \<Rightarrow> reconciler \<Rightarrow> spawner \<Rightarrow> RepoConfig \<Rightarrow> string set \<Rightarrow> int \<Rightarrow> int list \<Rightarrow> int \<Rightarrow> 'w
    \<Rightarrow> int \<times> 'w" where
  "count_runs E r sp repo want cap [] matched w = (matched, w)"
| "count_runs E r sp repo want cap (runID # runs) matched w =
     (case listRunJobs E r sp repo runID w of
        (Inl e, w1) \<Rightarrow> count_runs E r sp repo want cap runs matched (slog E LevelWarn ''list jobs failed'' w1)
      | (Inr jobs, w1) \<Rightarrow>
          (case count_jobs E want cap jobs matched of
             (m, True) \<Rightarrow> (m, w1)
           | (m, False) \<Rightarrow> count_runs E r sp repo want cap runs m w1))"

definition countQueuedMatchingJobs ::
  "'w env \<Rightarrow> reconciler \<Rightarrow> spawner \<Rightarrow> RepoConfig \<Rightarrow> int \<Rightarrow> 'w \<Rightarrow> (err + int) \<times> 'w" where
  "countQueuedMatchingJobs E r sp repo cap w =
     (let want = set (map (lower E) (rc_MatchLabels repo)) in
      case listQueuedRunIDs E r sp repo w of
        (Inl e, w1) \<Rightarrow> (Inl e, w1)
      | (Inr runs, w1) \<Rightarrow>
          if runs = [] then (Inr 0, w1)
          else (case count_runs E r sp repo want cap runs 0 w1 of (n, w2) \<Rightarrow> (Inr n, w2)))"

section \<open>Reconciling\<close>

text \<open>
  The spawn loop over the operations it calls: \<open>spawn\<close> and \<open>inc\<close> (\<open>IncReconcile\<close>). It stops
  at the first error and reports how many calls succeeded.
\<close>

fun spawn_loop :: "('s \<Rightarrow> err option \<times> 's) \<Rightarrow> ('s \<Rightarrow> 's) \<Rightarrow> ('s \<Rightarrow> 's) \<Rightarrow> nat \<Rightarrow> 's \<Rightarrow> nat \<times> 's" where
  "spawn_loop spawn inc note 0 s = (0, s)"
| "spawn_loop spawn inc note (Suc n) s =
     (case spawn s of
        (Some e, s1) \<Rightarrow> (0, note s1)
      | (None, s1) \<Rightarrow> (case spawn_loop spawn inc note n (inc s1) of (k, s2) \<Rightarrow> (Suc k, s2)))"

definition reconcileRepo ::
  "'w env \<Rightarrow> reconciler \<Rightarrow> RepoConfig \<Rightarrow> spawner \<Rightarrow> 'w \<Rightarrow> err option \<times> spawner \<times> 'w" where
  "reconcileRepo E r repo sp w =
     (case CountRunning E (rc_Name repo) w of (running, w1) \<Rightarrow>
      (let available = rc_MaxConcurrency repo - running in
       if available \<le> 0 then (None, sp, w1)
       else case countQueuedMatchingJobs E r sp repo available w1 of
         (Inl e, w2) \<Rightarrow> (Some e, sp, w2)
       | (Inr matched, w2) \<Rightarrow>
           if matched = 0 then (None, sp, w2)
           else (let toSpawn = (if available < matched then available else matched) in
             case spawn_loop (\<lambda>(sp, w). Spawn E repo sp w) (\<lambda>(sp, w). (IncReconcile sp, w))
                 (\<lambda>(sp, w). (sp, slog E LevelDebug ''reconcile spawn returned'' w))
                 (nat toSpawn) (sp, slog E LevelInfo ''reconcile spawning'' w2) of
               (_, sp', w') \<Rightarrow> (None, sp', w'))))"

fun reconcile_all :: "'w env \<Rightarrow> reconciler \<Rightarrow> RepoConfig list \<Rightarrow> spawner \<Rightarrow> 'w \<Rightarrow> spawner \<times> 'w" where
  "reconcile_all E r [] sp w = (sp, w)"
| "reconcile_all E r (repo # repos) sp w =
     (case reconcileRepo E r repo sp w of
        (Some e, sp1, w1) \<Rightarrow> reconcile_all E r repos sp1 (slog E LevelWarn ''reconcile failed'' w1)
      | (None, sp1, w1) \<Rightarrow> reconcile_all E r repos sp1 w1)"

text \<open>The order in which the goroutines of a tick run is an argument.\<close>

definition tickFiltered ::
  "'w env \<Rightarrow> reconciler \<Rightarrow> (RepoConfig list \<Rightarrow> RepoConfig list) \<Rightarrow> string \<Rightarrow> spawner \<Rightarrow> 'w \<Rightarrow> spawner \<times> 'w" where
  "tickFiltered E r order repoFilter sp w =
     reconcile_all E r
       (order (filter (\<lambda>rp. \<not> (repoFilter \<noteq> [] \<and> rc_Name rp \<noteq> repoFilter)) (cfg_Repos (rn_cfg r)))) sp w"

definition rn_tick ::
  "'w env \<Rightarrow> reconciler \<Rightarrow> (RepoConfig list \<Rightarrow> RepoConfig list) \<Rightarrow> spawner \<Rightarrow> 'w \<Rightarrow> spawner \<times> 'w" where
  "rn_tick E r order sp w = tickFiltered E r order [] sp w"

definition TriggerOnce ::
  "'w env \<Rightarrow> reconciler \<Rightarrow> (RepoConfig list \<Rightarrow> RepoConfig list) \<Rightarrow> string \<Rightarrow> spawner \<Rightarrow> 'w \<Rightarrow> spawner \<times> 'w" where
  "TriggerOnce E r order repoFilter sp w =
     tickFiltered E r order repoFilter sp (slog E LevelInfo ''manual reconcile triggered'' w)"

text \<open>\<open>Run\<close>: one tick at once, then one per tick of the ticker until the context is done.\<close>

definition rn_Run ::
  "'w env \<Rightarrow> reconciler \<Rightarrow> (RepoConfig list \<Rightarrow> RepoConfig list) \<Rightarrow> select list \<Rightarrow> spawner \<times> 'w \<Rightarrow> spawner \<times> 'w" where
  "rn_Run E r order es s =
     (case s of (sp, w) \<Rightarrow>
        ticker_loop (\<lambda>(sp, w). rn_tick E r order sp w) es
          (rn_tick E r order sp (slog E LevelInfo ''reconciler started'' w)))"

section \<open>Lemmas\<close>

definition queued_for :: "'w env \<Rightarrow> RepoConfig \<Rightarrow> apiJob \<Rightarrow> bool" where
  "queued_for E repo j \<longleftrightarrow> aj_Status j = ''queued''
     \<and> (\<exists>l \<in> set (aj_Labels j). \<exists>m \<in> set (rc_MatchLabels repo). lower E l = lower E m)"

definition demand_of :: "'w env \<Rightarrow> RepoConfig \<Rightarrow> apiJob list \<Rightarrow> int" where
  "demand_of E repo js = int (count_where (queued_for E repo) js)"

lemma wants_label_iff: "wants_label E (lower E ` S) j \<longleftrightarrow>
    (\<exists>l \<in> set (aj_Labels j). \<exists>m \<in> S. lower E l = lower E m)"
  by (auto simp: wants_label_def list_ex_iff)

lemma queued_for_iff: "queued_for E repo j \<longleftrightarrow>
    aj_Status j = ''queued'' \<and> wants_label E (lower E ` set (rc_MatchLabels repo)) j"
  by (simp add: queued_for_def wants_label_iff)

lemma demand_Cons:
  "demand_of E repo (j # js) = (if queued_for E repo j then 1 else 0) + demand_of E repo js"
  by (simp add: demand_of_def)

lemma demand_nonneg: "0 \<le> demand_of E repo js"
  by (simp add: demand_of_def)

lemma count_jobs_eq:
  "m < cap \<Longrightarrow> count_jobs E (lower E ` set (rc_MatchLabels repo)) cap js m
     = (min cap (m + demand_of E repo js), cap \<le> m + demand_of E repo js)"
proof (induction js arbitrary: m)
  case Nil
  then show ?case by (simp add: demand_of_def)
next
  case (Cons j js)
  let ?want = "lower E ` set (rc_MatchLabels repo)"
  have nn: "0 \<le> demand_of E repo js" by (rule demand_nonneg)
  show ?case
  proof (cases "aj_Status j = ''queued''")
    case False
    with Cons show ?thesis by (simp add: demand_Cons queued_for_iff)
  next
    case True
    show ?thesis
    proof (cases "cap \<le> (if wants_label E ?want j then m + 1 else m)")
      case c: True
      with Cons.prems have "wants_label E ?want j" "cap = m + 1" by (auto split: if_splits)
      with True nn show ?thesis by (simp add: demand_Cons queued_for_iff Let_def)
    next
      case c: False
      then have "(if wants_label E ?want j then m + 1 else m) < cap" by simp
      from Cons.IH[OF this] True c show ?thesis
        by (auto simp: demand_Cons queued_for_iff Let_def add.assoc)
    qed
  qed
qed

text \<open>
  When GitHub's answers do not change while the runs are walked: the jobs of the runs
  whose listing succeeds, counted up to the capacity.
\<close>

lemma count_runs_eq:
  assumes "\<And>id w. fst (listRunJobs E r sp repo id w) = ans id" "m < cap"
  shows "fst (count_runs E r sp repo (lower E ` set (rc_MatchLabels repo)) cap runs m w)
     = min cap (m + (\<Sum>id \<leftarrow> runs. case ans id of Inr js \<Rightarrow> demand_of E repo js | Inl e \<Rightarrow> 0))"
  using assms(2)
proof (induction runs arbitrary: m w)
  case Nil
  then show ?case by simp
next
  case (Cons id runs)
  let ?f = "\<lambda>id. case ans id of Inr js \<Rightarrow> demand_of E repo js | Inl e \<Rightarrow> 0"
  have nn: "0 \<le> (\<Sum>id \<leftarrow> runs. ?f id)"
    by (intro sum_list_nonneg) (auto simp: demand_nonneg split: sum.splits)
  obtain a w1 where l: "listRunJobs E r sp repo id w = (a, w1)" by fastforce
  with assms(1)[of id w] have a: "a = ans id" by simp
  show ?case
  proof (cases a)
    case (Inl e)
    with a have "ans id = Inl e" by simp
    with Cons.IH[OF Cons.prems] l a show ?thesis by simp
  next
    case (Inr js)
    with a have ai: "ans id = Inr js" by simp
    note c = count_jobs_eq[OF Cons.prems, of E repo js]
    show ?thesis
    proof (cases "cap \<le> m + demand_of E repo js")
      case True
      with c l a ai nn show ?thesis by simp
    next
      case False
      then have lt: "min cap (m + demand_of E repo js) < cap" by simp
      from Cons.IH[OF lt, of w1] c l a ai False show ?thesis by (simp add: add.assoc)
    qed
  qed
qed

text \<open>
  The spawner as the reconciler sees it: a relation between states that each successful or
  failed \<open>Spawn\<close>, each count and each log line keeps.
\<close>

locale spawn_service =
  fixes spawn :: "'s \<Rightarrow> err option \<times> 's" and inc :: "'s \<Rightarrow> 's" and logd :: "'s \<Rightarrow> 's"
    and inv :: "'s \<Rightarrow> 's \<Rightarrow> bool"
  assumes inv_refl [simp]: "inv s s"
    and inv_trans: "inv s s' \<Longrightarrow> inv s' s'' \<Longrightarrow> inv s s''"
    and spawn_inv: "spawn s = (e, s') \<Longrightarrow> inv s s'"
    and inc_inv: "inv s (inc s)"
    and logd_inv: "inv s (logd s)"
begin

lemma loop_inv: "spawn_loop spawn inc logd n s = (k, s') \<Longrightarrow> inv s s'"
proof (induction n arbitrary: s k)
  case (Suc n)
  obtain e s1 where sp: "spawn s = (e, s1)" by fastforce
  note i = spawn_inv[OF sp]
  show ?case
  proof (cases e)
    case None
    with Suc.prems sp obtain k1 where "spawn_loop spawn inc logd n (inc s1) = (k1, s')"
      by (auto split: prod.splits)
    from inv_trans[OF inv_trans[OF i inc_inv] Suc.IH[OF this]] show ?thesis .
  next
    case (Some x)
    with Suc.prems sp inv_trans[OF i logd_inv] show ?thesis by auto
  qed
qed simp

end

lemma spawn_loop_le: "spawn_loop spawn inc logd n s = (k, s') \<Longrightarrow> k \<le> n"
  by (induction n arbitrary: s k) (fastforce split: prod.splits option.splits)+

end
