(* ===== verification/Go_Crypto.thy ===== *)
theory Go_Crypto
  imports Go_Strings
begin

text \<open>
  The standard library's \<open>crypto/sha256\<close> and \<open>crypto/hmac\<close>, which the webhook
  signature check calls, as functions on byte strings; and the constant-time
  comparison of \<open>hmac.Equal\<close> and \<open>subtle.ConstantTimeCompare\<close>, whose result is
  equality (its timing is outside the model).
\<close>

unbundle bit_operations_syntax

section \<open>SHA-256\<close>

type_synonym u32 = "32 word"

definition sha_init :: "u32 list" where
  "sha_init =
     [1779033703, 3144134277, 1013904242, 2773480762, 1359893119, 2600822924,
      528734635, 1541459225]"

text \<open>The round constants: the fractional parts of the cube roots of the first 64 primes.\<close>

definition sha_round_consts :: "u32 list" where
  "sha_round_consts =
     [1116352408, 1899447441, 3049323471, 3921009573, 961987163, 1508970993,
      2453635748, 2870763221, 3624381080, 310598401, 607225278, 1426881987,
      1925078388, 2162078206, 2614888103, 3248222580, 3835390401, 4022224774,
      264347078, 604807628, 770255983, 1249150122, 1555081692, 1996064986,
      2554220882, 2821834349, 2952996808, 3210313671, 3336571891, 3584528711,
      113926993, 338241895, 666307205, 773529912, 1294757372, 1396182291,
      1695183700, 1986661051, 2177026350, 2456956037, 2730485921, 2820302411,
      3259730800, 3345764771, 3516065817, 3600352804, 4094571909, 275423344,
      430227734, 506948616, 659060556, 883997877, 958139571, 1322822218,
      1537002063, 1747873779, 1955562222, 2024104815, 2227730452, 2361852424,
      2428436474, 2756734187, 3204031479, 3329325298]"

definition sha_small0 :: "u32 \<Rightarrow> u32" where
  "sha_small0 x = word_rotr 7 x XOR word_rotr 18 x XOR drop_bit 3 x"

definition sha_small1 :: "u32 \<Rightarrow> u32" where
  "sha_small1 x = word_rotr 17 x XOR word_rotr 19 x XOR drop_bit 10 x"

definition sha_big0 :: "u32 \<Rightarrow> u32" where
  "sha_big0 x = word_rotr 2 x XOR word_rotr 13 x XOR word_rotr 22 x"

definition sha_big1 :: "u32 \<Rightarrow> u32" where
  "sha_big1 x = word_rotr 6 x XOR word_rotr 11 x XOR word_rotr 25 x"

text \<open>The message schedule, newest word first.\<close>

fun sha_schedule :: "nat \<Rightarrow> u32 list \<Rightarrow> u32 list" where
  "sha_schedule 0 ws = rev ws"
| "sha_schedule (Suc n) ws =
     sha_schedule n
       ((sha_small1 (ws ! 1) + ws ! 6 + sha_small0 (ws ! 14) + ws ! 15) # ws)"

type_synonym sha_state = "u32 \<times> u32 \<times> u32 \<times> u32 \<times> u32 \<times> u32 \<times> u32 \<times> u32"

definition sha_round :: "sha_state \<Rightarrow> u32 \<times> u32 \<Rightarrow> sha_state" where
  "sha_round st kw = (case st of (a, b, c, d, e, f, g, h) \<Rightarrow>
     let t1 = h + sha_big1 e + ((e AND f) XOR (NOT e AND g)) + fst kw + snd kw;
         t2 = sha_big0 a + ((a AND b) XOR (a AND c) XOR (b AND c))
     in (t1 + t2, a, b, c, d + t1, e, f, g))"

definition sha_compress :: "u32 list \<Rightarrow> u32 list \<Rightarrow> u32 list" where
  "sha_compress hs block =
     (case foldl sha_round
             (hs ! 0, hs ! 1, hs ! 2, hs ! 3, hs ! 4, hs ! 5, hs ! 6, hs ! 7)
             (zip sha_round_consts (sha_schedule 48 (rev block)))
      of (a, b, c, d, e, f, g, h) \<Rightarrow>
        [hs ! 0 + a, hs ! 1 + b, hs ! 2 + c, hs ! 3 + d,
         hs ! 4 + e, hs ! 5 + f, hs ! 6 + g, hs ! 7 + h])"

definition be_bytes :: "nat \<Rightarrow> nat \<Rightarrow> string" where
  "be_bytes n v = rev (map (\<lambda>i. char_of (v div 256 ^ i mod 256)) [0 ..< n])"

definition sha_pad :: "string \<Rightarrow> string" where
  "sha_pad m = m @ CHR 0x80 # replicate ((119 - length m mod 64) mod 64) (CHR 0x00)
                 @ be_bytes 8 (8 * length m mod 2 ^ 64)"

fun words_of_bytes :: "string \<Rightarrow> u32 list" where
  "words_of_bytes (a # b # c # d # s) =
     (of_nat (of_char a * 2 ^ 24 + of_char b * 2 ^ 16 + of_char c * 2 ^ 8 + of_char d))
       # words_of_bytes s"
| "words_of_bytes _ = []"

fun sha_blocks :: "nat \<Rightarrow> u32 list \<Rightarrow> u32 list \<Rightarrow> u32 list" where
  "sha_blocks 0 hs ws = hs"
| "sha_blocks (Suc n) hs ws = sha_blocks n (sha_compress hs (take 16 ws)) (drop 16 ws)"

definition sha256_Sum :: "string \<Rightarrow> string" where
  "sha256_Sum m = (let ws = words_of_bytes (sha_pad m) in
     concat (map (\<lambda>w. be_bytes 4 (unat w)) (sha_blocks (length ws div 16) sha_init ws)))"

lemma be_bytes_length [simp]: "length (be_bytes n v) = n"
  by (simp add: be_bytes_def)

lemma sha_compress_length [simp]: "length (sha_compress hs b) = 8"
  by (simp add: sha_compress_def split: prod.splits)

lemma sha_blocks_length: "length hs = 8 \<Longrightarrow> length (sha_blocks n hs ws) = 8"
  by (induction n arbitrary: hs ws) auto

lemma sum_list_const: "sum_list (map (\<lambda>x. c :: nat) xs) = c * length xs"
  by (induction xs) auto

lemma sha256_length: "length (sha256_Sum m) = 32"
  by (simp add: sha256_Sum_def Let_def length_concat comp_def sum_list_const
      sha_blocks_length sha_init_def)

section \<open>HMAC\<close>

definition hmac_key :: "string \<Rightarrow> string" where
  "hmac_key key = (let k = (if 64 < length key then sha256_Sum key else key)
                   in k @ replicate (64 - length k) (CHR 0x00))"

definition xor_bytes :: "nat \<Rightarrow> string \<Rightarrow> string" where
  "xor_bytes v s = map (\<lambda>c. char_of (of_char c XOR v)) s"

definition hmac_sha256 :: "string \<Rightarrow> string \<Rightarrow> string" where
  "hmac_sha256 key msg = (let k = hmac_key key in
     sha256_Sum (xor_bytes 92 k @ sha256_Sum (xor_bytes 54 k @ msg)))"

lemma hmac_length: "length (hmac_sha256 key msg) = 32"
  by (simp add: hmac_sha256_def Let_def sha256_length)

definition ConstantTimeCompare :: "string \<Rightarrow> string \<Rightarrow> int" where
  "ConstantTimeCompare x y =
     (if length x \<noteq> length y then 0
      else if foldl (\<lambda>v (a, b). v OR (of_char a XOR of_char b)) (0 :: nat) (zip x y) = 0
        then 1 else 0)"

lemma foldl_or_zero:
  "foldl (\<lambda>v (a, b). v OR (of_char a XOR of_char b)) (v0 :: nat) ps = 0
     \<longleftrightarrow> v0 = 0 \<and> (\<forall>(a, b) \<in> set ps. (of_char a :: nat) = of_char b)"
proof (induction ps arbitrary: v0)
  case Nil
  then show ?case by simp
next
  case (Cons p ps)
  have x: "((m :: nat) XOR n = 0) = (m = n)" for m n
    by (metis xor.comm_neutral xor.assoc xor_self_eq)
  show ?case using Cons by (cases p) (auto simp: or_eq_0_iff x)
qed

lemma ConstantTimeCompare_eq: "ConstantTimeCompare x y = 1 \<longleftrightarrow> x = y"
proof -
  have "length x = length y \<Longrightarrow>
      (\<forall>(a, b) \<in> set (zip x y). (of_char a :: nat) = of_char b) \<longleftrightarrow> x = y"
    by (induction x y rule: list_induct2) auto
  then show ?thesis
    by (auto simp: ConstantTimeCompare_def foldl_or_zero)
qed

end
