(* ===== verification/Portal.thy ===== *)
theory Portal
  imports Cleanup Reconciler Go_Crypto
begin

text \<open>
  \<open>internal/portal/portal.go\<close>: the token check, the live state and the action endpoints. A
  handler takes the request and the shared state (spawner, cleaner, world) and gives the
  reply; the reconcile endpoint starts a goroutine, which is left in a list of triggers for
  the rest of the program to run. The embedded page is the reply \<open>Page\<close>; a nil request in
  \<open>queryRunCount\<close> is the reply \<open>Crash\<close> (net/http drops the connection).
\<close>

section \<open>Requests and replies\<close>

record request =
  pr_Method :: string
  pr_Path :: string
  pr_RawQuery :: string
  pr_Authorization :: string
  pr_Cookie :: "string option"

text \<open>\<open>url.QueryUnescape\<close> and \<open>r.URL.Query().Get(key)\<close>: malformed pairs are dropped.\<close>

fun QueryUnescape :: "string \<Rightarrow> string option" where
  "QueryUnescape [] = Some []"
| "QueryUnescape (c # cs) =
     (if c = CHR ''%'' then
        (case cs of
           a # b # t \<Rightarrow>
             (case (unhex a, unhex b) of
                (Some x, Some y) \<Rightarrow> map_option (Cons (char_of (16 * x + y))) (QueryUnescape t)
              | _ \<Rightarrow> None)
         | _ \<Rightarrow> None)
      else map_option (Cons (if c = CHR ''+'' then CHR '' '' else c)) (QueryUnescape cs))"

definition query_pair :: "string \<Rightarrow> (string \<times> string) option" where
  "query_pair p =
     (if p = [] \<or> CHR '';'' \<in> set p then None
      else case (QueryUnescape (takeWhile (\<lambda>c. c \<noteq> CHR ''='') p),
                 QueryUnescape (drop (Suc (length (takeWhile (\<lambda>c. c \<noteq> CHR ''='') p))) p)) of
        (Some k, Some v) \<Rightarrow> Some (k, v)
      | _ \<Rightarrow> None)"

definition query_Get :: "string \<Rightarrow> string \<Rightarrow> string" where
  "query_Get raw key =
     (case map_of (List.map_filter query_pair (Split CHR ''&'' raw)) key of None \<Rightarrow> [] | Some v \<Rightarrow> v)"

record RepoState =
  rst_Name :: string
  rst_Cap :: int
  rst_Queued :: int
  rst_InProgress :: int
  rst_Online :: int
  rst_Busy :: int
  rst_Idle :: int
  rst_Ghosts :: int
  rst_RunningEphemerals :: int

record ContainerState =
  cst_Name :: string
  cst_Repo :: string
  cst_Busy :: bool

record State =
  sta_Stats :: Stats
  sta_Cleanup :: Summary
  sta_Repos :: "RepoState list"
  sta_Containers :: "ContainerState list"
  sta_Paused :: bool

datatype reply =
    HttpError int string
  | Page
  | ReplyState State
  | ReplySummary Summary
  | ReplyText string string
  | ReplyBool string bool
  | Crash

record 'w portal =
  po_sp :: spawner
  po_cl :: cleaner
  po_world :: 'w
  po_triggers :: "string list"

type_synonym 'w handler = "request \<Rightarrow> 'w portal \<Rightarrow> reply \<times> 'w portal"

section \<open>The token check\<close>

definition presented :: "request \<Rightarrow> string" where
  "presented rq =
     (let got = TrimPrefix (pr_Authorization rq) ''Bearer '' in
      if got = [] then (case pr_Cookie rq of Some v \<Rightarrow> v | None \<Rightarrow> got) else got)"

definition auth :: "Config \<Rightarrow> 'w handler \<Rightarrow> 'w handler" where
  "auth cfg h =
     (if cfg_PortalToken cfg = [] then h
      else (\<lambda>rq s.
        if ConstantTimeCompare (presented rq) (cfg_PortalToken cfg) \<noteq> 1
        then (HttpError 401 ''unauthorized'', s) else h rq s))"

definition handleIndex :: "'w handler" where
  "handleIndex rq s = (if pr_Path rq \<noteq> ''/'' then (HttpError 404 ''404 page not found'', s) else (Page, s))"

section \<open>The live state\<close>

definition run_count_url :: "string \<Rightarrow> string \<Rightarrow> string \<Rightarrow> string" where
  "run_count_url base repo status =
     base @ ''/repos/'' @ repo @ ''/actions/runs?status='' @ status @ ''&per_page=1''"

definition queryRunCount :: "'w env \<Rightarrow> spawner \<Rightarrow> string \<Rightarrow> string \<Rightarrow> 'w \<Rightarrow> (int \<times> 'w) option" where
  "queryRunCount E sp repo status w =
     (case http_NewRequest ''GET'' (run_count_url (sp_apiBase sp) repo status)
         [(''Authorization'', ''Bearer '' @ sp_pat sp), (''Accept'', ''application/vnd.github+json'')] of
        None \<Rightarrow> None
      | Some rq \<Rightarrow>
          (case http_Do E rq w of
             (Inl e, w1) \<Rightarrow> Some (0, w1)
           | (Inr rs, w1) \<Rightarrow>
               if rs_StatusCode rs \<noteq> 200 then Some (0, w1)
               else Some (fst (json_Decode (dec_struct [(''total_count'', dec_int64)]) (rs_Body rs) 0), w1)))"

definition collectRepoState :: "'w env \<Rightarrow> spawner \<Rightarrow> RepoConfig \<Rightarrow> 'w \<Rightarrow> (RepoState \<times> 'w) option" where
  "collectRepoState E sp repo w =
     (case CountRunning E (rc_Name repo) w of (running, w1) \<Rightarrow>
      (case queryRunCount E sp (rc_Name repo) ''queued'' w1 of None \<Rightarrow> None
      | Some (queued, w2) \<Rightarrow>
      (case queryRunCount E sp (rc_Name repo) ''in_progress'' w2 of None \<Rightarrow> None
      | Some (inProgress, w3) \<Rightarrow>
      (case RepoRunnerCounts E sp repo w3 of ((online, busy, ghosts), w4) \<Rightarrow>
         Some (\<lparr>rst_Name = rc_Name repo, rst_Cap = rc_MaxConcurrency repo, rst_Queued = queued,
           rst_InProgress = inProgress, rst_Online = online, rst_Busy = busy, rst_Idle = online - busy,
           rst_Ghosts = ghosts, rst_RunningEphemerals = running\<rparr>, w4)))))"

fun collect_all :: "'w env \<Rightarrow> spawner \<Rightarrow> RepoConfig list \<Rightarrow> 'w \<Rightarrow> (RepoState list \<times> 'w) option" where
  "collect_all E sp [] w = Some ([], w)"
| "collect_all E sp (repo # repos) w =
     (case collectRepoState E sp repo w of None \<Rightarrow> None
      | Some (rs, w1) \<Rightarrow>
          (case collect_all E sp repos w1 of None \<Rightarrow> None | Some (rss, w2) \<Rightarrow> Some (rs # rss, w2)))"

definition ps_live_args :: "string list" where
  "ps_live_args = [''ps'', ''--filter'', ''label='' @ managedLabel, ''--format'',
     ''{{.Names}}'' @ [CHR 0x09] @ ''{{.Label \"'' @ repoLabelKey @ ''\"}}'']"

definition parse_live :: "string \<Rightarrow> ContainerState option" where
  "parse_live line =
     (if line = [] then None
      else let parts = SplitN 2 CHR 0x09 line in
        Some \<lparr>cst_Name = hd parts, cst_Repo = (if length parts = 2 then parts ! 1 else []), cst_Busy = False\<rparr>)"

definition listLiveEphemerals :: "'w env \<Rightarrow> 'w \<Rightarrow> ContainerState list \<times> 'w" where
  "listLiveEphemerals E w =
     (case docker_Exec E ps_live_args w of
        ((_, _, Some e), w1) \<Rightarrow> ([], w1)
      | ((out, _, None), w1) \<Rightarrow> (List.map_filter parse_live (Split CHR 0x0A (TrimSpace out)), w1))"

definition handleState :: "'w env \<Rightarrow> Config \<Rightarrow> 'w handler" where
  "handleState E cfg rq s =
     (case collect_all E (po_sp s) (cfg_Repos cfg) (po_world s) of
        None \<Rightarrow> (Crash, s)
      | Some (rss, w1) \<Rightarrow>
          (case listLiveEphemerals E w1 of (cs, w2) \<Rightarrow>
            (ReplyState \<lparr>sta_Stats = spawner_Stats (po_sp s), sta_Cleanup = LastSummary (po_cl s),
               sta_Repos = rss, sta_Containers = cs, sta_Paused = IsPaused (po_sp s)\<rparr>,
             s\<lparr>po_world := w2\<rparr>)))"

section \<open>Actions\<close>

definition post_only :: "'w handler \<Rightarrow> 'w handler" where
  "post_only h rq s = (if pr_Method rq \<noteq> ''POST'' then (HttpError 405 ''POST only'', s) else h rq s)"

definition handleReconcile :: "'w handler" where
  "handleReconcile = post_only (\<lambda>rq s.
     (ReplyText ''status'' ''triggered'', s\<lparr>po_triggers := po_triggers s @ [query_Get (pr_RawQuery rq) ''repo'']\<rparr>))"

definition handleCleanup ::
  "'w env \<Rightarrow> (int list \<Rightarrow> int list) \<Rightarrow> (RepoConfig list \<Rightarrow> RepoConfig list) \<Rightarrow> 'w handler" where
  "handleCleanup E rng order = post_only (\<lambda>rq s.
     (case cn_Tick E rng order (po_sp s) (po_cl s) (po_world s) of
        None \<Rightarrow> (Crash, s)
      | Some (su, c, w) \<Rightarrow> (ReplySummary su, s\<lparr>po_cl := c, po_world := w\<rparr>)))"

definition handlePause :: "'w handler" where
  "handlePause = post_only (\<lambda>rq s. (ReplyBool ''paused'' True, s\<lparr>po_sp := SetPaused True (po_sp s)\<rparr>))"

definition handleResume :: "'w handler" where
  "handleResume = post_only (\<lambda>rq s. (ReplyBool ''paused'' False, s\<lparr>po_sp := SetPaused False (po_sp s)\<rparr>))"

definition stop_args :: "string \<Rightarrow> string list" where
  "stop_args name = [''stop'', name]"

definition handleStop :: "'w env \<Rightarrow> 'w handler" where
  "handleStop E = post_only (\<lambda>rq s.
     (let name = query_Get (pr_RawQuery rq) ''name'' in
      if name = [] then (HttpError 400 ''name required'', s)
      else if \<not> HasPrefix name ''auto-''
      then (HttpError 400 ''only auto-* containers can be stopped via portal'', s)
      else case docker_Exec E (stop_args name) (po_world s) of
        ((out, er, Some e), w) \<Rightarrow>
          (HttpError 500 (''docker stop: '' @ err_text e @ '': '' @ TrimSpace (out @ er)), s\<lparr>po_world := w\<rparr>)
      | ((out, er, None), w) \<Rightarrow> (ReplyText ''stopped'' name, s\<lparr>po_world := w\<rparr>)))"

text \<open>\<open>Mount\<close>: the handler of each path, the index for every path not named.\<close>

definition Mount ::
  "'w env \<Rightarrow> Config \<Rightarrow> (int list \<Rightarrow> int list) \<Rightarrow> (RepoConfig list \<Rightarrow> RepoConfig list) \<Rightarrow> string \<Rightarrow> 'w handler" where
  "Mount E cfg rng order path =
     (if path = ''/api/state'' then auth cfg (handleState E cfg)
      else if path = ''/api/reconcile'' then auth cfg handleReconcile
      else if path = ''/api/cleanup'' then auth cfg (handleCleanup E rng order)
      else if path = ''/api/pause'' then auth cfg handlePause
      else if path = ''/api/resume'' then auth cfg handleResume
      else if path = ''/api/stop'' then auth cfg (handleStop E)
      else handleIndex)"

end
