(* ===== verification/Json_Encode.thy ===== *)
theory Json_Encode
  imports Json_Text "HOL-Library.List_Lexorder" "HOL-Library.Char_ord"
begin

text \<open>
  What \<open>json.NewEncoder(w).Encode(v)\<close> writes for any value (Go 1.22): the escapes of
  strings, HTML characters included, invalid UTF-8 written as U+FFFD, and a final newline.
  The text of every value whose numbers are integers is read back by the parser of \<open>Go_Json\<close>,
  with the invalid bytes of strings replaced.
\<close>

section \<open>Strings\<close>

definition backslash :: "char \<Rightarrow> string" where
  "backslash c = [CHR 0x5C, c]"

definition escape_ascii :: "char \<Rightarrow> string" where
  "escape_ascii c =
     (if c = CHR 0x22 \<or> c = CHR 0x5C then backslash c
      else if c = CHR 0x08 then backslash (CHR ''b'') else if c = CHR 0x0C then backslash (CHR ''f'')
      else if c = CHR 0x0A then backslash (CHR ''n'') else if c = CHR 0x0D then backslash (CHR ''r'')
      else if c = CHR 0x09 then backslash (CHR ''t'')
      else if of_char c < (32::nat) \<or> c \<in> set ''<>&'' then backslash (CHR ''u'') @ ''00'' @ hex_byte c
      else [c])"

text \<open>A rune of more than one byte: the line separators U+2028 and U+2029 are escaped.\<close>

definition escape_rune :: "string \<Rightarrow> string" where
  "escape_rune r =
     (if r = utf8_encode 8232 then backslash (CHR ''u'') @ ''2028''
      else if r = utf8_encode 8233 then backslash (CHR ''u'') @ ''2029'' else r)"

function json_escape :: "string \<Rightarrow> string" where
  "json_escape [] = []"
| "json_escape (c # cs) =
     (if of_char c < (128::nat) then escape_ascii c @ json_escape cs
      else if utf8_len (c # cs) = 0 then backslash (CHR ''u'') @ ''fffd'' @ json_escape cs
      else escape_rune (take (utf8_len (c # cs)) (c # cs)) @ json_escape (drop (utf8_len (c # cs)) (c # cs)))"
  by pat_completeness auto
termination by (relation "measure length") auto

text \<open>The string with each byte that is not part of a UTF-8 sequence replaced by U+FFFD.\<close>

function to_valid :: "string \<Rightarrow> string" where
  "to_valid [] = []"
| "to_valid (c # cs) =
     (if utf8_len (c # cs) = 0 then utf8_encode 65533 @ to_valid cs
      else take (utf8_len (c # cs)) (c # cs) @ to_valid (drop (utf8_len (c # cs)) (c # cs)))"
  by pat_completeness auto
termination by (relation "measure length") auto

declare json_escape.simps(2) [simp del] to_valid.simps(2) [simp del]

lemma utf8_len_ascii: "of_char c < (128::nat) \<Longrightarrow> utf8_len (c # cs) = 1"
  by (simp add: utf8_len_def)

lemma to_valid_ascii: "of_char c < (128::nat) \<Longrightarrow> to_valid (c # cs) = c # to_valid cs"
  by (simp add: to_valid.simps utf8_len_ascii)

lemma to_valid_plain: "list_all is_ascii s \<Longrightarrow> to_valid s = s"
  by (induction s) (simp_all add: to_valid_ascii is_ascii_def)

text \<open>The length of the first rune does not depend on what follows it.\<close>

lemma utf8_len_le: "utf8_len s \<le> length s"
  by (cases s) (auto simp: utf8_len_def cont_byte_def Let_def Suc_le_eq)

lemma utf8_len_take:
  assumes "utf8_len s = n" "n \<noteq> 0" shows "utf8_len (take n s @ t) = n"
proof -
  obtain c cs where s: "s = c # cs" using assms by (cases s) (auto simp: utf8_len_def)
  obtain m where n: "n = Suc m" using assms(2) by (cases n) auto
  have l: "n \<le> length s" using utf8_len_le[of s] assms(1) by simp
  have cb: "cont_byte lo hi (take n s @ t) i = cont_byte lo hi s i" if "i < n" for lo hi i
    using l that by (simp add: cont_byte_def nth_append)
  have h: "take n s @ t = c # (take m cs @ t)" by (simp add: s n)
  let ?b = "of_char c :: nat"
  note u = utf8_len_def[of s, unfolded s list.case Let_def, folded s]
  consider "?b < 128" | "194 \<le> ?b" "?b \<le> 223" | "224 \<le> ?b" "?b \<le> 239" | "240 \<le> ?b" "?b \<le> 244"
    using assms u by (auto split: if_splits)
  then show ?thesis
  proof cases
    case 1
    with u assms h show ?thesis by (simp add: utf8_len_def)
  next
    case 2
    with u assms have "n = 2" "cont_byte 128 191 s 1" by (auto split: if_splits)
    with 2 cb[of 1] h show ?thesis by (simp add: utf8_len_def Let_def)
  next
    case 3
    with u assms have "n = 3" "cont_byte 128 191 s 2"
      "cont_byte (if ?b = 224 then 160 else 128) (if ?b = 237 then 159 else 191) s 1"
      by (auto split: if_splits)
    with 3 cb[of 1] cb[of 2] h show ?thesis by (simp add: utf8_len_def Let_def)
  next
    case 4
    with u assms have "n = 4" "cont_byte 128 191 s 2" "cont_byte 128 191 s 3"
      "cont_byte (if ?b = 240 then 144 else 128) (if ?b = 244 then 143 else 191) s 1"
      by (auto split: if_splits)
    with 4 cb[of 1] cb[of 2] cb[of 3] h show ?thesis by (simp add: utf8_len_def Let_def)
  qed
qed

text \<open>One step of the reader for each kind of escape.\<close>

lemma json_str_simple:
  assumes "simple_escape e = Some x" "json_str s = Some (t, u)"
  shows "json_str (CHR 0x5C # e # s) = Some (x # t, u)"
proof -
  have "e \<noteq> CHR ''u''" using assms(1) by (auto simp: simple_escape_def split: if_splits)
  with assms show ?thesis by (simp add: json_str.simps)
qed

lemma json_str_u:
  assumes "getu4 (x @ s) = Some r" "length x = 4" "r < 55296 \<or> 57343 < r" "json_str s = Some (t, u)"
  shows "json_str (CHR 0x5C # CHR ''u'' # x @ s) = Some (utf8_encode r @ t, u)"
  using assms by (auto simp: json_str.simps(2)[of "CHR 0x5C" "CHR ''u'' # x @ s"] unescape_u_def)

lemma utf8_encode_ascii: "of_char c < (128::nat) \<Longrightarrow> utf8_encode (of_char c) = [c]"
  by (simp add: utf8_encode_def)

lemma json_str_ascii:
  assumes "of_char c < (128::nat)" "json_str s = Some (t, u)"
  shows "json_str (escape_ascii c @ s) = Some (c # t, u)"
proof -
  let ?S = "{CHR 0x22, CHR 0x5C, CHR 0x08, CHR 0x0C, CHR 0x0A, CHR 0x0D, CHR 0x09}"
  show ?thesis
  proof (cases "c \<in> ?S")
    case True
    then obtain x where x: "escape_ascii c = backslash x" "simple_escape x = Some c"
      by (auto simp: escape_ascii_def simple_escape_def backslash_def)
    with json_str_simple[OF x(2) assms(2)] show ?thesis by (simp add: backslash_def)
  next
    case False
    then have e: "escape_ascii c = (if of_char c < (32::nat) \<or> c \<in> set ''<>&''
        then backslash (CHR ''u'') @ ''00'' @ hex_byte c else [c])"
      by (simp add: escape_ascii_def)
    show ?thesis
    proof (cases "of_char c < (32::nat) \<or> c \<in> set ''<>&''")
      case True
      have "getu4 ((''00'' @ hex_byte c) @ s) = Some (of_char c)"
        using assms(1) by (simp add: getu4_def hex_byte_def unhex_hex_digit unhex_def[of "CHR ''0''"])
      from json_str_u[OF this _ _ assms(2)] have
        "json_str (CHR 0x5C # CHR ''u'' # (''00'' @ hex_byte c) @ s) = Some (utf8_encode (of_char c) @ t, u)"
        using assms(1) by (simp add: hex_byte_def)
      with e True assms(1) show ?thesis by (simp add: backslash_def utf8_encode_ascii)
    next
      case no: False
      with e False assms show ?thesis by (simp add: json_str.simps utf8_len_ascii)
    qed
  qed
qed

lemma json_str_rune:
  assumes "utf8_len (c # cs) = n" "n \<noteq> 0" "\<not> of_char c < (128::nat)" "json_str s = Some (t, u)"
  shows "json_str (escape_rune (take n (c # cs)) @ s) = Some (take n (c # cs) @ t, u)"
proof -
  have sep: "json_str (CHR 0x5C # CHR ''u'' # ''2028'' @ s) = Some (utf8_encode 8232 @ t, u)"
    "json_str (CHR 0x5C # CHR ''u'' # ''2029'' @ s) = Some (utf8_encode 8233 @ t, u)"
    by (rule json_str_u[OF _ _ _ assms(4)]; simp add: getu4_def unhex_def Let_def)+
  obtain m where n: "n = Suc m" using assms(2) by (cases n) auto
  have l: "utf8_len (c # take m cs @ s) = n"
    using utf8_len_take[OF assms(1,2), of s] by (simp add: n)
  have "c \<noteq> CHR 0x22" "c \<noteq> CHR 0x5C" "\<not> of_char c < (32::nat)" using assms(3) by auto
  with l assms(4) utf8_len_le[of "c # cs"] assms(1) n
  have "json_str (c # take m cs @ s) = Some (c # take m cs @ t, u)"
    by (simp add: json_str.simps)
  with sep show ?thesis by (auto simp: escape_rune_def backslash_def n)
qed

lemma json_str_escape: "json_str (json_escape s @ CHR 0x22 # r) = Some (to_valid s, r)"
proof (induction s rule: json_escape.induct)
  case 1
  then show ?case by (simp add: json_str.simps)
next
  case (2 c cs)
  consider "of_char c < (128::nat)" | "\<not> of_char c < (128::nat)" "utf8_len (c # cs) = 0"
    | "\<not> of_char c < (128::nat)" "utf8_len (c # cs) \<noteq> 0" by blast
  then show ?case
  proof cases
    case 1
    with 2(1) show ?thesis by (simp add: json_escape.simps to_valid_ascii json_str_ascii)
  next
    case 2
    have "json_str (CHR 0x5C # CHR ''u'' # ''fffd'' @ json_escape cs @ CHR 0x22 # r)
        = Some (utf8_encode 65533 @ to_valid cs, r)"
      by (rule json_str_u[OF _ _ _ "2.IH"(2)[OF 2]]) (simp_all add: getu4_def unhex_def Let_def)
    with 2 show ?thesis by (simp add: json_escape.simps to_valid.simps backslash_def)
  next
    case 3
    from json_str_rune[OF refl 3(2,1) "2.IH"(3)[OF 3]] 3 show ?thesis
      by (simp add: json_escape.simps to_valid.simps)
  qed
qed

section \<open>Inert text\<close>

text \<open>No HTML character is left in the text of a string, so it is inert inside a page.\<close>

definition inert :: "string \<Rightarrow> bool" where
  "inert s \<longleftrightarrow> set ''<>&'' \<inter> set s = {}"

lemma inert_append [simp]: "inert (s @ t) \<longleftrightarrow> inert s \<and> inert t"
  by (auto simp: inert_def)

lemma inert_Cons [simp]: "inert (c # s) \<longleftrightarrow> c \<notin> set ''<>&'' \<and> inert s"
  by (auto simp: inert_def)

lemma inert_Nil [simp]: "inert []"
  by (simp add: inert_def)

lemma hex_digit_html: "n < 16 \<Longrightarrow> hex_digit n \<notin> set ''<>&''"
  using unhex_hex_digit[of n] by (auto simp: unhex_def Let_def)

lemma inert_hex_byte: "inert (hex_byte c)"
  by (simp add: hex_byte_def hex_digit_html less_mult_imp_div_less del: list.set)

lemma inert_escape_ascii: "inert (escape_ascii c)"
  by (simp add: escape_ascii_def backslash_def inert_hex_byte)

lemma utf8_high:
  assumes "utf8_len s \<noteq> 0" "\<not> of_char (hd s) < (128::nat)"
  shows "\<forall>i < utf8_len s. (128::nat) \<le> of_char (s ! i)"
proof (intro allI impI)
  fix i assume i: "i < utf8_len s"
  obtain c cs where s: "s = c # cs" using assms by (cases s) (auto simp: utf8_len_def)
  have "i = 0 \<or> i = 1 \<or> i = 2 \<or> i = 3"
    using i by (auto simp: utf8_len_def s Let_def split: if_splits)
  then show "(128::nat) \<le> of_char (s ! i)"
    using i assms s by (auto simp: utf8_len_def cont_byte_def Let_def split: if_splits)
qed

lemma inert_high: "\<forall>x \<in> set s. (128::nat) \<le> of_char x \<Longrightarrow> inert s"
  by (auto simp: inert_def)

lemma inert_rune:
  assumes "utf8_len s \<noteq> 0" "\<not> of_char (hd s) < (128::nat)" shows "inert (escape_rune (take (utf8_len s) s))"
proof -
  have "inert (take (utf8_len s) s)"
    using utf8_high[OF assms] by (intro inert_high) (auto simp: in_set_conv_nth)
  then show ?thesis by (simp add: escape_rune_def backslash_def)
qed

lemma inert_json_escape: "inert (json_escape s)"
proof (induction s rule: json_escape.induct)
  case (2 c cs)
  then show ?case
    using inert_rune[of "c # cs"] inert_escape_ascii[of c] by (simp add: json_escape.simps backslash_def)
qed simp

section \<open>Values\<close>

fun json_enc :: "json \<Rightarrow> string" where
  "json_enc JNull = ''null''"
| "json_enc (JBool b) = (if b then ''true'' else ''false'')"
| "json_enc (JNum s) = s"
| "json_enc (JStr s) = quote (json_escape s)"
| "json_enc (JArr js) = ''['' @ join '','' (map json_enc js) @ '']''"
| "json_enc (JObj ms) =
     ''{'' @ join '','' (map (\<lambda>(k, j). quote (json_escape k) @ '':'' @ json_enc j) ms) @ ''}''"

definition Encode :: "json \<Rightarrow> string" where
  "Encode j = json_enc j @ [CHR 0x0A]"

fun json_valid :: "json \<Rightarrow> json" where
  "json_valid (JStr s) = JStr (to_valid s)"
| "json_valid (JArr js) = JArr (map json_valid js)"
| "json_valid (JObj ms) = JObj (map (\<lambda>(k, j). (to_valid k, json_valid j)) ms)"
| "json_valid j = j"

text \<open>The numbers that Go writes for its integer types.\<close>

definition int_num :: "string \<Rightarrow> bool" where
  "int_num s \<longleftrightarrow> (\<exists>i. s = show_int i)"

fun int_json :: "json \<Rightarrow> bool" where
  "int_json (JNum s) = int_num s"
| "int_json (JArr js) = list_all int_json js"
| "int_json (JObj ms) = list_all (\<lambda>(k, j). int_json j) ms"
| "int_json _ = True"

lemma show_nat_plain: "plain_num (show_nat n)"
proof -
  have "hd (show_nat n) = CHR ''0'' \<longrightarrow> show_nat n = ''0''"
  proof (induction n rule: show_nat.induct)
    case (1 n)
    show ?case
    proof (cases "n < 10")
      case True
      then show ?thesis by (simp add: show_nat.simps[of n])
    next
      case False
      then have "show_nat (n div 10) \<noteq> ''0''"
        using show_nat_inj[of "n div 10" 0] by (simp add: show_nat_digit)
      with False 1 show ?thesis by (simp add: show_nat.simps[of n])
    qed
  qed
  then show ?thesis using show_nat_digits[of _ n] by (auto simp: plain_num_def list_all_iff)
qed

lemma json_num_minus:
  assumes "plain_num s" "stops r" shows "json_num (CHR ''-'' # s @ r) = Some (CHR ''-'' # s, r)"
proof -
  have "expect (CHR ''-'') (s @ r) = None"
    using assms(1) by (cases s) (auto simp: plain_num_def expect_def is_digit_def)
  with json_num_plain[OF assms] show ?thesis
    by (auto simp: json_num_def expect_def Let_def split: option.splits)
qed

lemma show_int_reads: "reads_as (show_int i) (JNum (show_int i)) k"
proof (cases "i < 0")
  case True
  show ?thesis
    by (rule number_reads[where c = "CHR ''-''" and cs = "show_nat (nat (- i))"])
       (simp_all add: show_int_def True json_num_minus show_nat_plain)
next
  case False
  obtain c cs where s: "show_nat (nat i) = c # cs" by (cases "show_nat (nat i)") auto
  with show_nat_digits[of c "nat i"] have "is_digit c" by simp
  with number_reads[OF json_num_plain[OF show_nat_plain] s] False show ?thesis by (simp add: show_int_def)
qed

lemma json_enc_head:
  assumes "int_json j"
  shows "\<exists>c cs. json_enc j = c # cs \<and> \<not> json_ws c \<and> c \<noteq> CHR '']''"
proof (cases j)
  case (JNum s)
  with assms obtain i where i: "s = show_int i" by (auto simp: int_num_def)
  obtain c cs where s: "show_nat (nat i) = c # cs" by (cases "show_nat (nat i)") auto
  with show_nat_digits[of c "nat i"] have "is_digit c" by simp
  with JNum i s show ?thesis by (auto simp: show_int_def json_ws_def is_digit_def)
qed (auto simp: json_ws_def quote_def)

lemma json_enc_reads: "int_json j \<Longrightarrow> reads_as (json_enc j) (json_valid j) (json_depth j)"
proof (induction j rule: json_enc.induct)
  case (3 s)
  then show ?case by (auto simp: int_num_def show_int_reads)
next
  case (4 s)
  then show ?case by (simp add: string_reads json_str_escape)
next
  case (5 js)
  have "\<forall>j \<in> set js. reads_as (json_enc j) (json_valid j) (json_depth j)
      \<and> (\<exists>c cs. json_enc j = c # cs \<and> \<not> json_ws c \<and> c \<noteq> CHR '']'')"
    using 5 json_enc_head by (fastforce simp: list_all_iff)
  from array_reads[OF this] show ?case by simp
next
  case (6 ms)
  have "\<forall>x \<in> set ms. reads_member (json_escape \<circ> fst) (to_valid \<circ> fst) (json_enc \<circ> snd)
      (json_valid \<circ> snd) (json_depth \<circ> snd) x"
    using 6 by (fastforce simp: list_all_iff reads_member_def json_str_escape)
  from object_reads[OF this] show ?case by (simp add: case_prod_unfold comp_def)
qed (simp_all add: literal_reads)

text \<open>What is written is read back, and holds no HTML character.\<close>

lemma Encode_reads:
  assumes "int_json j" "json_depth j \<le> json_max_depth"
  shows "json_parse (Encode j) = Some (json_valid j)"
proof -
  have "json_value (2 * length (json_enc j)) 0 (json_enc j @ [CHR 0x0A]) = Some (json_valid j, [CHR 0x0A])"
    using assms by (intro reads_asD[OF json_enc_reads]) (auto simp: stops_def json_ws_def)
  from json_first_complete[OF this] show ?thesis
    by (simp add: json_parse_def Encode_def skip_ws_def json_ws_def)
qed

lemma inert_join: "inert sep \<Longrightarrow> \<forall>s \<in> set ss. inert s \<Longrightarrow> inert (join sep ss)"
  by (induction sep ss rule: join.induct) auto

lemma inert_show_int: "inert (show_int i)"
proof -
  have "inert (show_nat n)" for n
    using show_nat_digits[of "CHR ''<''" n] show_nat_digits[of "CHR ''>''" n] show_nat_digits[of "CHR ''&''" n]
    by (auto simp: inert_def is_digit_def)
  then show ?thesis by (simp add: show_int_def)
qed

lemma inert_json_enc: "int_json j \<Longrightarrow> inert (json_enc j)"
proof (induction j rule: json_enc.induct)
  case (3 s)
  then show ?case by (auto simp: int_num_def inert_show_int)
next
  case (5 js)
  have "inert (join '','' (map json_enc js))"
    using 5 by (intro inert_join) (auto simp: list_all_iff)
  then show ?case by simp
next
  case (6 ms)
  have "inert (join '','' (map (\<lambda>(k, j). quote (json_escape k) @ '':'' @ json_enc j) ms))"
    using 6 by (intro inert_join) (fastforce simp: list_all_iff quote_def inert_json_escape)+
  then show ?case by simp
qed (simp_all add: quote_def inert_json_escape)

lemma inert_Encode: "int_json j \<Longrightarrow> inert (Encode j)"
  by (simp add: Encode_def inert_json_enc)

section \<open>Go values as JSON\<close>

text \<open>Integers, slices and maps; a nil slice or map is \<open>null\<close>, the keys of a map are sorted.\<close>

definition json_int :: "int \<Rightarrow> json" where
  "json_int i = JNum (show_int i)"

definition json_u64 :: "u64 \<Rightarrow> json" where
  "json_u64 n = JNum (show_int (uint n))"

definition json_slice :: "('a \<Rightarrow> json) \<Rightarrow> 'a list \<Rightarrow> json" where
  "json_slice f xs = (if xs = [] then JNull else JArr (map f xs))"

definition json_map :: "('a \<Rightarrow> json) \<Rightarrow> (string \<rightharpoonup> 'a) option \<Rightarrow> json" where
  "json_map f m = (case m of None \<Rightarrow> JNull
   | Some m \<Rightarrow> JObj (map (\<lambda>k. (k, f (the (m k)))) (sorted_list_of_set (dom m))))"

text \<open>The decoders for the types that \<open>Go_Json\<close> has none for.\<close>

fun dec_u64 :: "u64 dec" where
  "dec_u64 (JNum s) v = (if s \<noteq> [] \<and> list_all is_digit s \<and> read_nat s < 2 ^ 64
     then (of_nat (read_nat s), False) else (v, True))"
| "dec_u64 JNull v = (v, False)"
| "dec_u64 _ v = (v, True)"

fun dec_map_members :: "'a dec \<Rightarrow> 'a \<Rightarrow> (string \<times> json) list \<Rightarrow> (string \<rightharpoonup> 'a) \<Rightarrow> (string \<rightharpoonup> 'a) \<times> bool" where
  "dec_map_members d z [] m = (m, False)"
| "dec_map_members d z ((k, j) # ms) m =
     (let (x, e) = d j z; (m', e') = dec_map_members d z ms (m(k \<mapsto> x)) in (m', e \<or> e'))"

fun dec_map :: "'a dec \<Rightarrow> 'a \<Rightarrow> (string \<rightharpoonup> 'a) option dec" where
  "dec_map d z (JObj ms) m =
     (case dec_map_members d z ms (case m of None \<Rightarrow> Map.empty | Some m \<Rightarrow> m) of (m', e) \<Rightarrow> (Some m', e))"
| "dec_map d z JNull m = (None, False)"
| "dec_map d z _ m = (m, True)"

text \<open>A decoder that gives back what was written, on the values \<open>ok\<close>, from the zero value.\<close>

definition decodes :: "'a dec \<Rightarrow> ('a \<Rightarrow> json) \<Rightarrow> 'a \<Rightarrow> ('a \<Rightarrow> bool) \<Rightarrow> bool" where
  "decodes d e z ok \<longleftrightarrow> (\<forall>x. ok x \<longrightarrow> d (json_valid (e x)) z = (x, False))"

definition fits64 :: "int \<Rightarrow> bool" where
  "fits64 i \<longleftrightarrow> - (2 ^ 63) \<le> i \<and> i < 2 ^ 63"

definition utf8_ok :: "string \<Rightarrow> bool" where
  "utf8_ok s \<longleftrightarrow> to_valid s = s"

lemma show_nat_digits_all: "list_all is_digit (show_nat n)"
  using show_nat_digits by (auto simp: list_all_iff)

lemma dec_int64_show: "fits64 i \<Longrightarrow> dec_int64 (JNum (show_int i)) v = (i, False)"
proof -
  assume i: "fits64 i"
  have nm: "\<not> HasPrefix (show_nat n) ''-''" for n
    using show_nat_digits[of "CHR ''-''" n] by (auto simp: is_digit_def HasPrefix_Cons)
  have "TrimPrefix (show_int i) ''-'' = show_nat (nat \<bar>i\<bar>)" "HasPrefix (show_int i) ''-'' = (i < 0)"
    using nm by (simp_all add: show_int_def TrimPrefix_def)
  moreover have "(if i < 0 then - int (nat \<bar>i\<bar>) else int (nat \<bar>i\<bar>)) = i" by simp
  ultimately have "parse_int64 (show_int i) = Some i"
    using i unfolding parse_int64_def Let_def fits64_def
    by (simp only: read_show_nat show_nat_digits_all show_nat_nonempty if_True not_False_eq_True simp_thms)
  then show ?thesis by simp
qed

lemma dec_u64_show: "dec_u64 (JNum (show_int (uint n))) v = (n, False)"
proof -
  have "unat n < 2 ^ 64" using unsigned_less[of n] by simp
  then show ?thesis by (simp add: show_int_def show_nat_digits_all)
qed

lemma decodes_slice:
  assumes "decodes d e z ok" shows "decodes (dec_slice d z) (json_slice e) [] (list_all ok)"
proof -
  have "dec_elems d z (map (json_valid \<circ> e) xs) [] = (xs, False)" if "list_all ok xs" for xs
    using that assms by (induction xs) (simp_all add: decodes_def)
  then show ?thesis by (simp add: decodes_def json_slice_def)
qed

lemma dec_map_members_map:
  assumes "decodes d e z ok" "distinct ks" "\<forall>k \<in> set ks. utf8_ok k \<and> ok (f k)"
  shows "dec_map_members d z (map (\<lambda>k. (to_valid k, json_valid (e (f k)))) ks) m
    = (m ++ (\<lambda>k. if k \<in> set ks then Some (f k) else None), False)"
  using assms(2,3)
proof (induction ks arbitrary: m)
  case Nil
  then show ?case by simp
next
  case (Cons k ks)
  have "m(k \<mapsto> f k) ++ (\<lambda>x. if x \<in> set ks then Some (f x) else None)
      = m ++ (\<lambda>x. if x \<in> set (k # ks) then Some (f x) else None)"
    using Cons.prems(1) by (auto simp: map_add_def)
  with Cons assms(1) show ?case by (simp add: decodes_def utf8_ok_def)
qed

lemma decodes_map:
  assumes "decodes d e z ok"
  shows "decodes (dec_map d z) (json_map e) None
    (\<lambda>m. \<forall>f. m = Some f \<longrightarrow> finite (dom f) \<and> (\<forall>k x. f k = Some x \<longrightarrow> utf8_ok k \<and> ok x))"
  unfolding decodes_def
proof (intro allI impI)
  fix m assume ok: "\<forall>f. m = Some f \<longrightarrow> finite (dom f) \<and> (\<forall>k x. f k = Some x \<longrightarrow> utf8_ok k \<and> ok x)"
  show "dec_map d z (json_valid (json_map e m)) None = (m, False)"
  proof (cases m)
    case None
    then show ?thesis by (simp add: json_map_def)
  next
    case (Some f)
    with ok have fin: "finite (dom f)" and v: "\<And>k x. f k = Some x \<Longrightarrow> utf8_ok k \<and> ok x" by auto
    let ?ks = "sorted_list_of_set (dom f)"
    have "dec_map_members d z (map (\<lambda>k. (to_valid k, json_valid (e (the (f k))))) ?ks) Map.empty
        = (Map.empty ++ (\<lambda>k. if k \<in> set ?ks then Some (the (f k)) else None), False)"
      using fin v by (intro dec_map_members_map[OF assms]) auto
    moreover have "Map.empty ++ (\<lambda>k. if k \<in> set ?ks then Some (the (f k)) else None) = f"
      using fin by (auto simp: domIff)
    ultimately show ?thesis using Some by (simp add: json_map_def comp_def)
  qed
qed

lemma int_json_values:
  "int_json (json_int i)" "int_json (json_u64 n)"
  "(\<And>x. int_json (f x)) \<Longrightarrow> int_json (json_slice f xs)"
  "(\<And>x. int_json (f x)) \<Longrightarrow> int_json (json_map f m)"
  by (auto simp: json_int_def json_u64_def json_slice_def json_map_def int_num_def list_all_iff split: option.split)

end
