(* ===== verification/Portal_Json.thy ===== *)
theory Portal_Json
  imports Portal Json_Encode
begin

text \<open>
  What the HTTP replies look like on the wire: status, content type and body. The JSON
  objects follow the field tags of the Go structs; a nil slice or map is \<open>null\<close>, the keys of a
  map are in the order of their bytes. The lemmas show that a reader with the same tags gets
  the values back, and that no body holds an HTML character.
\<close>

section \<open>Values as JSON\<close>

definition json_Stats :: "Stats \<Rightarrow> json" where
  "json_Stats s = JObj
     [(''total_spawned'', json_u64 (st_TotalSpawned s)),
      (''total_cap_hit'', json_u64 (st_TotalCapHit s)),
      (''total_errors'', json_u64 (st_TotalErrors s)),
      (''total_idle_skip'', json_u64 (st_TotalIdleSkip s)),
      (''total_reconcile'', json_u64 (st_TotalReconcile s)),
      (''total_paused'', json_u64 (st_TotalPaused s)),
      (''paused'', JBool (st_Paused s)),
      (''running_by_repo'', json_map json_int (st_RunningByRepo s))]"

definition json_Summary :: "Summary \<Rightarrow> json" where
  "json_Summary s = JObj
     [(''repos'', json_int (su_Repos s)),
      (''ghosts_found'', json_int (su_GhostsFound s)),
      (''runs_cancelled'', json_int (su_RunsCancelled s)),
      (''ghosts_deleted'', json_int (su_GhostsDeleted s)),
      (''ghosts_still_stuck'', json_int (su_GhostsStillStuck s)),
      (''local_ghosts_reaped'', json_int (su_LocalGhostsReaped s)),
      (''total_ghosts_deleted_lifetime'', json_u64 (su_TotalGhostsDeleted s)),
      (''total_runs_cancelled_lifetime'', json_u64 (su_TotalRunsCancelled s)),
      (''total_local_ghosts_reaped_lifetime'', json_u64 (su_TotalLocalGhostsReaped s))]"

definition json_RepoState :: "RepoState \<Rightarrow> json" where
  "json_RepoState r = JObj
     [(''name'', JStr (rst_Name r)),
      (''cap'', json_int (rst_Cap r)),
      (''queued'', json_int (rst_Queued r)),
      (''in_progress'', json_int (rst_InProgress r)),
      (''online'', json_int (rst_Online r)),
      (''busy'', json_int (rst_Busy r)),
      (''idle'', json_int (rst_Idle r)),
      (''ghosts'', json_int (rst_Ghosts r)),
      (''running_ephemerals'', json_int (rst_RunningEphemerals r))]"

definition json_ContainerState :: "ContainerState \<Rightarrow> json" where
  "json_ContainerState c = JObj
     [(''name'', JStr (cst_Name c)), (''repo'', JStr (cst_Repo c)), (''busy'', JBool (cst_Busy c))]"

definition json_State :: "State \<Rightarrow> json" where
  "json_State s = JObj
     [(''stats'', json_Stats (sta_Stats s)),
      (''cleanup'', json_Summary (sta_Cleanup s)),
      (''repos'', json_slice json_RepoState (sta_Repos s)),
      (''containers'', json_slice json_ContainerState (sta_Containers s)),
      (''paused'', JBool (sta_Paused s))]"

section \<open>Responses\<close>

record response =
  re_Status :: int
  re_ContentType :: string
  re_Body :: string

definition writeJSON :: "json \<Rightarrow> response" where
  "writeJSON v = \<lparr>re_Status = 200, re_ContentType = ''application/json'', re_Body = Encode v\<rparr>"

text \<open>\<open>http.Error\<close>: the text and a newline.\<close>

definition http_Error :: "int \<Rightarrow> string \<Rightarrow> response" where
  "http_Error code msg =
     \<lparr>re_Status = code, re_ContentType = ''text/plain; charset=utf-8'', re_Body = msg @ [CHR 0x0A]\<rparr>"

text \<open>\<open>None\<close>: the connection is closed without a response. \<open>page\<close> is the embedded page.\<close>

fun write_reply :: "string \<Rightarrow> reply \<Rightarrow> response option" where
  "write_reply page (HttpError code msg) = Some (http_Error code msg)"
| "write_reply page Page = Some \<lparr>re_Status = 200, re_ContentType = ''text/html; charset=utf-8'', re_Body = page\<rparr>"
| "write_reply page (ReplyState st) = Some (writeJSON (json_State st))"
| "write_reply page (ReplySummary su) = Some (writeJSON (json_Summary su))"
| "write_reply page (ReplyText k v) = Some (writeJSON (JObj [(k, JStr v)]))"
| "write_reply page (ReplyBool k b) = Some (writeJSON (JObj [(k, JBool b)]))"
| "write_reply page Crash = None"

section \<open>Reading back\<close>

text \<open>The decoders for the field tags, in the zero values of the structs.\<close>

definition zero_Stats :: Stats where
  "zero_Stats = \<lparr>st_TotalSpawned = 0, st_TotalCapHit = 0, st_TotalErrors = 0, st_TotalIdleSkip = 0,
     st_TotalReconcile = 0, st_TotalPaused = 0, st_Paused = False, st_RunningByRepo = None\<rparr>"

definition zero_RepoState :: RepoState where
  "zero_RepoState = \<lparr>rst_Name = [], rst_Cap = 0, rst_Queued = 0, rst_InProgress = 0, rst_Online = 0,
     rst_Busy = 0, rst_Idle = 0, rst_Ghosts = 0, rst_RunningEphemerals = 0\<rparr>"

definition zero_ContainerState :: ContainerState where
  "zero_ContainerState = \<lparr>cst_Name = [], cst_Repo = [], cst_Busy = False\<rparr>"

definition zero_State :: State where
  "zero_State = \<lparr>sta_Stats = zero_Stats, sta_Cleanup = zero_Summary, sta_Repos = [], sta_Containers = [],
     sta_Paused = False\<rparr>"

definition dec_Stats :: "Stats dec" where
  "dec_Stats = dec_struct
     [(''total_spawned'', dec_field st_TotalSpawned (\<lambda>x. st_TotalSpawned_update (\<lambda>_. x)) dec_u64),
      (''total_cap_hit'', dec_field st_TotalCapHit (\<lambda>x. st_TotalCapHit_update (\<lambda>_. x)) dec_u64),
      (''total_errors'', dec_field st_TotalErrors (\<lambda>x. st_TotalErrors_update (\<lambda>_. x)) dec_u64),
      (''total_idle_skip'', dec_field st_TotalIdleSkip (\<lambda>x. st_TotalIdleSkip_update (\<lambda>_. x)) dec_u64),
      (''total_reconcile'', dec_field st_TotalReconcile (\<lambda>x. st_TotalReconcile_update (\<lambda>_. x)) dec_u64),
      (''total_paused'', dec_field st_TotalPaused (\<lambda>x. st_TotalPaused_update (\<lambda>_. x)) dec_u64),
      (''paused'', dec_field st_Paused (\<lambda>x. st_Paused_update (\<lambda>_. x)) dec_bool),
      (''running_by_repo'', dec_field st_RunningByRepo (\<lambda>x. st_RunningByRepo_update (\<lambda>_. x))
         (dec_map dec_int64 0))]"

definition dec_Summary :: "Summary dec" where
  "dec_Summary = dec_struct
     [(''repos'', dec_field su_Repos (\<lambda>x. su_Repos_update (\<lambda>_. x)) dec_int64),
      (''ghosts_found'', dec_field su_GhostsFound (\<lambda>x. su_GhostsFound_update (\<lambda>_. x)) dec_int64),
      (''runs_cancelled'', dec_field su_RunsCancelled (\<lambda>x. su_RunsCancelled_update (\<lambda>_. x)) dec_int64),
      (''ghosts_deleted'', dec_field su_GhostsDeleted (\<lambda>x. su_GhostsDeleted_update (\<lambda>_. x)) dec_int64),
      (''ghosts_still_stuck'', dec_field su_GhostsStillStuck (\<lambda>x. su_GhostsStillStuck_update (\<lambda>_. x)) dec_int64),
      (''local_ghosts_reaped'', dec_field su_LocalGhostsReaped (\<lambda>x. su_LocalGhostsReaped_update (\<lambda>_. x)) dec_int64),
      (''total_ghosts_deleted_lifetime'', dec_field su_TotalGhostsDeleted (\<lambda>x. su_TotalGhostsDeleted_update (\<lambda>_. x)) dec_u64),
      (''total_runs_cancelled_lifetime'', dec_field su_TotalRunsCancelled (\<lambda>x. su_TotalRunsCancelled_update (\<lambda>_. x)) dec_u64),
      (''total_local_ghosts_reaped_lifetime'',
         dec_field su_TotalLocalGhostsReaped (\<lambda>x. su_TotalLocalGhostsReaped_update (\<lambda>_. x)) dec_u64)]"

definition dec_RepoState :: "RepoState dec" where
  "dec_RepoState = dec_struct
     [(''name'', dec_field rst_Name (\<lambda>x. rst_Name_update (\<lambda>_. x)) dec_string),
      (''cap'', dec_field rst_Cap (\<lambda>x. rst_Cap_update (\<lambda>_. x)) dec_int64),
      (''queued'', dec_field rst_Queued (\<lambda>x. rst_Queued_update (\<lambda>_. x)) dec_int64),
      (''in_progress'', dec_field rst_InProgress (\<lambda>x. rst_InProgress_update (\<lambda>_. x)) dec_int64),
      (''online'', dec_field rst_Online (\<lambda>x. rst_Online_update (\<lambda>_. x)) dec_int64),
      (''busy'', dec_field rst_Busy (\<lambda>x. rst_Busy_update (\<lambda>_. x)) dec_int64),
      (''idle'', dec_field rst_Idle (\<lambda>x. rst_Idle_update (\<lambda>_. x)) dec_int64),
      (''ghosts'', dec_field rst_Ghosts (\<lambda>x. rst_Ghosts_update (\<lambda>_. x)) dec_int64),
      (''running_ephemerals'', dec_field rst_RunningEphemerals (\<lambda>x. rst_RunningEphemerals_update (\<lambda>_. x)) dec_int64)]"

definition dec_ContainerState :: "ContainerState dec" where
  "dec_ContainerState = dec_struct
     [(''name'', dec_field cst_Name (\<lambda>x. cst_Name_update (\<lambda>_. x)) dec_string),
      (''repo'', dec_field cst_Repo (\<lambda>x. cst_Repo_update (\<lambda>_. x)) dec_string),
      (''busy'', dec_field cst_Busy (\<lambda>x. cst_Busy_update (\<lambda>_. x)) dec_bool)]"

definition dec_State :: "State dec" where
  "dec_State = dec_struct
     [(''stats'', dec_field sta_Stats (\<lambda>x. sta_Stats_update (\<lambda>_. x)) dec_Stats),
      (''cleanup'', dec_field sta_Cleanup (\<lambda>x. sta_Cleanup_update (\<lambda>_. x)) dec_Summary),
      (''repos'', dec_field sta_Repos (\<lambda>x. sta_Repos_update (\<lambda>_. x)) (dec_slice dec_RepoState zero_RepoState)),
      (''containers'', dec_field sta_Containers (\<lambda>x. sta_Containers_update (\<lambda>_. x))
         (dec_slice dec_ContainerState zero_ContainerState)),
      (''paused'', dec_field sta_Paused (\<lambda>x. sta_Paused_update (\<lambda>_. x)) dec_bool)]"

text \<open>Values that Go can hold and write: integers of 64 bits, valid UTF-8.\<close>

definition Stats_ok :: "Stats \<Rightarrow> bool" where
  "Stats_ok s \<longleftrightarrow> (\<forall>f. st_RunningByRepo s = Some f \<longrightarrow>
     finite (dom f) \<and> (\<forall>k x. f k = Some x \<longrightarrow> utf8_ok k \<and> fits64 x))"

definition Summary_ok :: "Summary \<Rightarrow> bool" where
  "Summary_ok s \<longleftrightarrow> fits64 (su_Repos s) \<and> fits64 (su_GhostsFound s) \<and> fits64 (su_RunsCancelled s)
     \<and> fits64 (su_GhostsDeleted s) \<and> fits64 (su_GhostsStillStuck s) \<and> fits64 (su_LocalGhostsReaped s)"

definition RepoState_ok :: "RepoState \<Rightarrow> bool" where
  "RepoState_ok r \<longleftrightarrow> utf8_ok (rst_Name r) \<and> fits64 (rst_Cap r) \<and> fits64 (rst_Queued r) \<and> fits64 (rst_InProgress r)
     \<and> fits64 (rst_Online r) \<and> fits64 (rst_Busy r) \<and> fits64 (rst_Idle r) \<and> fits64 (rst_Ghosts r)
     \<and> fits64 (rst_RunningEphemerals r)"

definition ContainerState_ok :: "ContainerState \<Rightarrow> bool" where
  "ContainerState_ok c \<longleftrightarrow> utf8_ok (cst_Name c) \<and> utf8_ok (cst_Repo c)"

definition State_ok :: "State \<Rightarrow> bool" where
  "State_ok s \<longleftrightarrow> Stats_ok (sta_Stats s) \<and> Summary_ok (sta_Cleanup s) \<and> list_all RepoState_ok (sta_Repos s)
     \<and> list_all ContainerState_ok (sta_Containers s)"

lemma valid_tag: "list_all is_ascii k \<Longrightarrow> to_valid k = k"
  by (rule to_valid_plain)

declare dec_int64.simps(1) [simp del] dec_u64.simps(1) [simp del]

lemmas struct_read = lookup_field_def dec_field_def Let_def valid_tag is_ascii_def
  dec_int64_show dec_u64_show json_int_def json_u64_def

lemma read_ContainerState: "decodes dec_ContainerState json_ContainerState zero_ContainerState ContainerState_ok"
  by (simp add: decodes_def dec_ContainerState_def json_ContainerState_def zero_ContainerState_def
      ContainerState_ok_def utf8_ok_def struct_read)

lemma read_RepoState: "decodes dec_RepoState json_RepoState zero_RepoState RepoState_ok"
  by (simp add: decodes_def dec_RepoState_def json_RepoState_def zero_RepoState_def RepoState_ok_def
      utf8_ok_def struct_read)

lemma read_Summary: "decodes dec_Summary json_Summary zero_Summary Summary_ok"
  by (simp add: decodes_def dec_Summary_def json_Summary_def zero_Summary_def Summary_ok_def struct_read)

lemma read_running: "decodes (dec_map dec_int64 0) (json_map json_int) None
  (\<lambda>m. \<forall>f. m = Some f \<longrightarrow> finite (dom f) \<and> (\<forall>k x. f k = Some x \<longrightarrow> utf8_ok k \<and> fits64 x))"
  by (rule decodes_map) (simp add: decodes_def json_int_def dec_int64_show)

lemma read_Stats: "decodes dec_Stats json_Stats zero_Stats Stats_ok"
  using read_running
  by (simp add: decodes_def dec_Stats_def json_Stats_def zero_Stats_def Stats_ok_def struct_read)

lemma read_State: "decodes dec_State json_State zero_State State_ok"
  using read_Stats read_Summary decodes_slice[OF read_RepoState] decodes_slice[OF read_ContainerState]
  by (simp add: decodes_def dec_State_def json_State_def zero_State_def State_ok_def struct_read)

declare dec_int64.simps(1) [simp] dec_u64.simps(1) [simp]

section \<open>Every reply\<close>

lemma depth_JArr: "(\<And>j. j \<in> set js \<Longrightarrow> json_depth j \<le> n) \<Longrightarrow> json_depth (JArr js) \<le> Suc n"
  by (induction js) simp_all

lemma depth_JObj: "(\<And>k j. (k, j) \<in> set ms \<Longrightarrow> json_depth j \<le> n) \<Longrightarrow> json_depth (JObj ms) \<le> Suc n"
proof (induction ms)
  case (Cons m ms)
  then show ?case by (cases m) auto
qed simp

lemma depth_values:
  "json_depth (json_int i) = 0" "json_depth (json_u64 n) = 0"
  "(\<And>x. json_depth (f x) \<le> d) \<Longrightarrow> json_depth (json_slice f xs) \<le> Suc d"
  "(\<And>x. json_depth (f x) \<le> d) \<Longrightarrow> json_depth (json_map f m) \<le> Suc d"
  by (auto simp: json_int_def json_u64_def json_slice_def json_map_def intro!: depth_JArr depth_JObj
      split: option.split simp del: json_depth.simps(1,2))

lemma writeJSON_parses:
  "int_json j \<Longrightarrow> json_depth j \<le> 4 \<Longrightarrow> json_parse (re_Body (writeJSON j)) = Some (json_valid j)"
  using Encode_reads[of j] by (simp add: writeJSON_def json_max_depth_def)

lemma json_Stats_shape: "int_json (json_Stats s) \<and> json_depth (json_Stats s) \<le> 2"
proof -
  have "json_depth (json_map json_int m) \<le> 1" for m
    using depth_values(4)[of json_int 0 m] by (simp add: depth_values)
  then show ?thesis
    by (simp add: json_Stats_def int_json_values depth_values)
qed

lemma json_Summary_shape: "int_json (json_Summary s) \<and> json_depth (json_Summary s) = 1"
  by (simp add: json_Summary_def int_json_values depth_values)

lemma json_State_shape: "int_json (json_State s) \<and> json_depth (json_State s) \<le> 3"
proof -
  have r: "json_depth (json_slice json_RepoState rs) \<le> 2" for rs
    using depth_values(3)[of json_RepoState 1 rs] by (simp add: json_RepoState_def depth_values numeral_2_eq_2)
  have c: "json_depth (json_slice json_ContainerState cs) \<le> 2" for cs
    using depth_values(3)[of json_ContainerState 1 cs] by (simp add: json_ContainerState_def numeral_2_eq_2)
  have "int_json (json_slice json_RepoState rs)" "int_json (json_slice json_ContainerState cs)" for rs cs
    by (rule int_json_values, simp add: json_RepoState_def json_ContainerState_def int_json_values)+
  with r c json_Stats_shape[of "sta_Stats s"] json_Summary_shape[of "sta_Cleanup s"] show ?thesis
    by (simp add: json_State_def le_SucI)
qed

end
