(* ===== verification/Go_Http.thy ===== *)
theory Go_Http
  imports Go_Strings
begin

text \<open>
  \<open>http.Header\<close> of the standard library, as far as the program uses it: one value per
  key, keys in canonical form (\<open>textproto.CanonicalMIMEHeaderKey\<close>), \<open>Get\<close> and \<open>Set\<close>.
\<close>

definition token_char :: "char \<Rightarrow> bool" where
  "token_char c \<longleftrightarrow> is_digit c
     \<or> (65::nat) \<le> of_char c \<and> of_char c \<le> (90::nat) \<or> (97::nat) \<le> of_char c \<and> of_char c \<le> (122::nat)
     \<or> c \<in> set ''!#$%&*+-.^_`|~'' \<or> c = CHR 0x27"

definition upper_ascii :: "char \<Rightarrow> char" where
  "upper_ascii c = (if (97::nat) \<le> of_char c \<and> of_char c \<le> (122::nat)
                    then char_of (of_char c - (32::nat)) else c)"

text \<open>Upper case at the start and after a hyphen, lower case elsewhere.\<close>

fun canonical_from :: "bool \<Rightarrow> string \<Rightarrow> string" where
  "canonical_from up [] = []"
| "canonical_from up (c # cs) =
     (if up then upper_ascii c else lower_byte c) # canonical_from (c = CHR ''-'') cs"

text \<open>A key with a byte that no header name has is left as it is.\<close>

definition canonical_key :: "string \<Rightarrow> string" where
  "canonical_key k = (if list_all token_char k then canonical_from True k else k)"

type_synonym header = "string \<rightharpoonup> string"

definition header_Set :: "string \<Rightarrow> string \<Rightarrow> header \<Rightarrow> header" where
  "header_Set k v h = h(canonical_key k \<mapsto> v)"

definition header_Get :: "header \<Rightarrow> string \<Rightarrow> string" where
  "header_Get h k = (case h (canonical_key k) of None \<Rightarrow> [] | Some v \<Rightarrow> v)"

lemma header_Get_Set: "header_Get (header_Set k v h) k = v"
  by (simp add: header_Get_def header_Set_def)

lemma header_Get_Set_other:
  "canonical_key k \<noteq> canonical_key k' \<Longrightarrow> header_Get (header_Set k v h) k' = header_Get h k'"
  by (simp add: header_Get_def header_Set_def)

lemma canonical_event [simp]:
  "canonical_key ''x-github-event'' = ''X-Github-Event''"
  "canonical_key ''X-Github-Event'' = ''X-Github-Event''"
  "canonical_key ''x-hub-signature-256'' = ''X-Hub-Signature-256''"
  "canonical_key ''X-Hub-Signature-256'' = ''X-Hub-Signature-256''"
  by (simp_all add: canonical_key_def token_char_def upper_ascii_def lower_byte_def is_digit_def
      char_of_def bit_iff_odd)

end
