(* ===== verification/Json_Doc.thy ===== *)
theory Json_Doc
  imports Json_Encode
begin

text \<open>
  The JSON grammar of RFC 8259 as derivations, apart from any parser: string literals with
  their escapes and UTF-8, numbers, arrays, objects, and whitespace between the tokens. The
  parser of \<open>Go_Json\<close> reads every document of the grammar as its value, and decoding an object
  into \<open>map[string]json.RawMessage\<close> gives the text of every member as it stands.
\<close>

section \<open>The grammar\<close>

definition ws :: "string \<Rightarrow> bool" where
  "ws s \<longleftrightarrow> set s \<subseteq> {CHR '' '', CHR 0x09, CHR 0x0A, CHR 0x0D}"

definition digits :: "string \<Rightarrow> bool" where
  "digits s \<longleftrightarrow> s \<noteq> [] \<and> list_all is_digit s"

text \<open>\<open>number = [ minus ] int [ frac ] [ exp ]\<close>\<close>

inductive is_int :: "string \<Rightarrow> bool" where
  int_zero: "is_int ''0''"
| int_digits: "digits s \<Longrightarrow> hd s \<noteq> CHR ''0'' \<Longrightarrow> is_int s"

inductive is_frac :: "string \<Rightarrow> bool" where
  frac_none: "is_frac []"
| frac_digits: "digits s \<Longrightarrow> is_frac (CHR ''.'' # s)"

inductive is_exp :: "string \<Rightarrow> bool" where
  exp_none: "is_exp []"
| exp_digits: "e \<in> set ''eE'' \<Longrightarrow> digits s \<Longrightarrow> is_exp (e # s)"
| exp_sign: "e \<in> set ''eE'' \<Longrightarrow> g \<in> set ''+-'' \<Longrightarrow> digits s \<Longrightarrow> is_exp (e # g # s)"

inductive is_number :: "string \<Rightarrow> bool" where
  num_pos: "is_int i \<Longrightarrow> is_frac f \<Longrightarrow> is_exp e \<Longrightarrow> is_number (i @ f @ e)"
| num_neg: "is_int i \<Longrightarrow> is_frac f \<Longrightarrow> is_exp e \<Longrightarrow> is_number (CHR ''-'' # i @ f @ e)"

text \<open>UTF-8 (RFC 3629): the bytes of a code point, in the shortest form and not a surrogate.\<close>

inductive utf8 :: "string \<Rightarrow> nat \<Rightarrow> bool" where
  utf8_1: "map of_char u = [r] \<Longrightarrow> r < 0x80 \<Longrightarrow> utf8 u r"
| utf8_2: "map of_char u = [0xC0 + x, 0x80 + y] \<Longrightarrow> x < 32 \<Longrightarrow> y < 64 \<Longrightarrow> r = x * 64 + y \<Longrightarrow> 0x80 \<le> r
    \<Longrightarrow> utf8 u r"
| utf8_3: "map of_char u = [0xE0 + x, 0x80 + y, 0x80 + z] \<Longrightarrow> x < 16 \<Longrightarrow> y < 64 \<Longrightarrow> z < 64
    \<Longrightarrow> r = (x * 64 + y) * 64 + z \<Longrightarrow> 0x800 \<le> r \<Longrightarrow> r < 0xD800 \<or> 0xDFFF < r \<Longrightarrow> utf8 u r"
| utf8_4: "map of_char u = [0xF0 + x, 0x80 + y, 0x80 + z, 0x80 + v] \<Longrightarrow> x < 8 \<Longrightarrow> y < 64 \<Longrightarrow> z < 64 \<Longrightarrow> v < 64
    \<Longrightarrow> r = ((x * 64 + y) * 64 + z) * 64 + v \<Longrightarrow> 0x10000 \<le> r \<Longrightarrow> r \<le> 0x10FFFF \<Longrightarrow> utf8 u r"

text \<open>The eight short escapes, and four hexadecimal digits with their value.\<close>

definition short_escapes :: "(char \<times> char) list" where
  "short_escapes = [(CHR 0x22, CHR 0x22), (CHR 0x5C, CHR 0x5C), (CHR ''/'', CHR ''/''),
     (CHR ''b'', CHR 0x08), (CHR ''f'', CHR 0x0C), (CHR ''n'', CHR 0x0A), (CHR ''r'', CHR 0x0D),
     (CHR ''t'', CHR 0x09)]"

definition hex_val :: "char \<Rightarrow> nat \<Rightarrow> bool" where
  "hex_val c n \<longleftrightarrow> n < 16 \<and> (c = ''0123456789abcdef'' ! n \<or> c = ''0123456789ABCDEF'' ! n)"

definition hex4 :: "string \<Rightarrow> nat \<Rightarrow> bool" where
  "hex4 h r \<longleftrightarrow> (\<exists>a b c d i j k l. h = [a, b, c, d] \<and> hex_val a i \<and> hex_val b j
     \<and> hex_val c k \<and> hex_val d l \<and> r = ((i * 16 + j) * 16 + k) * 16 + l)"

text \<open>
  \<open>encodes t s\<close>: the text \<open>t\<close> between the quotes stands for the bytes \<open>s\<close>. A character outside
  the basic plane may be written as two escapes, the halves of its surrogate pair.
\<close>

inductive encodes :: "string \<Rightarrow> string \<Rightarrow> bool" where
  enc_end: "encodes [] []"
| enc_ascii: "(32::nat) \<le> of_char c \<Longrightarrow> of_char c < (128::nat) \<Longrightarrow> c \<noteq> CHR 0x22 \<Longrightarrow> c \<noteq> CHR 0x5C
    \<Longrightarrow> encodes t s \<Longrightarrow> encodes (c # t) (c # s)"
| enc_rune: "utf8 u r \<Longrightarrow> 0x80 \<le> r \<Longrightarrow> encodes t s \<Longrightarrow> encodes (u @ t) (u @ s)"
| enc_short: "(e, x) \<in> set short_escapes \<Longrightarrow> encodes t s \<Longrightarrow> encodes (CHR 0x5C # e # t) (x # s)"
| enc_u: "hex4 h r \<Longrightarrow> utf8 u r \<Longrightarrow> encodes t s
    \<Longrightarrow> encodes (CHR 0x5C # CHR ''u'' # h @ t) (u @ s)"
| enc_pair: "hex4 h hi \<Longrightarrow> 0xD800 \<le> hi \<Longrightarrow> hi < 0xDC00 \<Longrightarrow> hex4 l lo \<Longrightarrow> 0xDC00 \<le> lo \<Longrightarrow> lo \<le> 0xDFFF
    \<Longrightarrow> utf8 u (0x10000 + (hi - 0xD800) * 0x400 + (lo - 0xDC00)) \<Longrightarrow> encodes t s
    \<Longrightarrow> encodes (CHR 0x5C # CHR ''u'' # h @ CHR 0x5C # CHR ''u'' # l @ t) (u @ s)"

text \<open>A member of an object: its key, the text of its value, the value.\<close>

type_synonym member = "string \<times> string \<times> json"

definition doc_object :: "member list \<Rightarrow> json" where
  "doc_object ms = JObj (map (\<lambda>(k, t, j). (k, j)) ms)"

inductive json_doc :: "string \<Rightarrow> json \<Rightarrow> bool"
  and json_items :: "string \<Rightarrow> json list \<Rightarrow> bool"
  and json_mems :: "string \<Rightarrow> member list \<Rightarrow> bool"
where
  doc_null: "json_doc ''null'' JNull"
| doc_true: "json_doc ''true'' (JBool True)"
| doc_false: "json_doc ''false'' (JBool False)"
| doc_num: "is_number t \<Longrightarrow> json_doc t (JNum t)"
| doc_str: "encodes t s \<Longrightarrow> json_doc (CHR 0x22 # t @ [CHR 0x22]) (JStr s)"
| doc_arr0: "ws a \<Longrightarrow> json_doc (CHR ''['' # a @ '']'') (JArr [])"
| doc_arr: "json_items t js \<Longrightarrow> json_doc (CHR ''['' # t @ '']'') (JArr js)"
| doc_obj0: "ws a \<Longrightarrow> json_doc (CHR ''{'' # a @ ''}'') (JObj [])"
| doc_obj: "json_mems t ms \<Longrightarrow> json_doc (CHR ''{'' # t @ ''}'') (doc_object ms)"
| item_last: "ws a \<Longrightarrow> ws b \<Longrightarrow> json_doc t j \<Longrightarrow> json_items (a @ t @ b) [j]"
| item_more: "ws a \<Longrightarrow> ws b \<Longrightarrow> json_doc t j \<Longrightarrow> json_items u js
    \<Longrightarrow> json_items (a @ t @ b @ CHR '','' # u) (j # js)"
| mem_last: "ws a \<Longrightarrow> encodes q k \<Longrightarrow> ws b \<Longrightarrow> ws c \<Longrightarrow> json_doc t j \<Longrightarrow> ws d
    \<Longrightarrow> json_mems (a @ CHR 0x22 # q @ CHR 0x22 # b @ CHR '':'' # c @ t @ d) [(k, t, j)]"
| mem_more: "ws a \<Longrightarrow> encodes q k \<Longrightarrow> ws b \<Longrightarrow> ws c \<Longrightarrow> json_doc t j \<Longrightarrow> ws d \<Longrightarrow> json_mems u ms
    \<Longrightarrow> json_mems (a @ CHR 0x22 # q @ CHR 0x22 # b @ CHR '':'' # c @ t @ d @ CHR '','' # u) ((k, t, j) # ms)"

section \<open>Tokens\<close>

lemma ws_json: "ws a \<Longrightarrow> \<forall>c \<in> set a. json_ws c"
  by (auto simp: ws_def json_ws_def)

lemma skip_ws_append: "ws a \<Longrightarrow> skip_ws (a @ t) = skip_ws t"
  using ws_json[of a] by (induction a) (auto simp: skip_ws_def ws_def)

lemma skip_ws_head: "ws a \<Longrightarrow> \<not> json_ws c \<Longrightarrow> skip_ws (a @ c # t) = c # t"
  by (simp add: skip_ws_append skip_ws_plain)

lemma stops_ws: "ws a \<Longrightarrow> stops t \<Longrightarrow> stops (a @ t)"
  using ws_json[of a] by (cases a) (auto simp: stops_def)

lemma stops_simps [simp]:
  "stops []" "stops (CHR '','' # t)" "stops (CHR '']'' # t)" "stops (CHR ''}'' # t)"
  by (simp_all add: stops_def)

lemma json_ws_simps [simp]:
  "\<not> json_ws CHR 0x22" "\<not> json_ws CHR '':''" "\<not> json_ws CHR '',''" "\<not> json_ws CHR '']''"
  "\<not> json_ws CHR ''}''" "\<not> json_ws CHR ''{''" "\<not> json_ws CHR ''[''"
  by (simp_all add: json_ws_def)

lemma hex_val_unhex: "hex_val c n \<Longrightarrow> unhex c = Some n"
proof -
  have "n < 16 \<Longrightarrow> unhex (''0123456789abcdef'' ! n) = Some n \<and> unhex (''0123456789ABCDEF'' ! n) = Some n"
    by (simp add: less_Suc_eq numeral_eq_Suc, elim disjE) (simp_all add: unhex_def Let_def)
  then show "hex_val c n \<Longrightarrow> unhex c = Some n" by (auto simp: hex_val_def)
qed

lemma map_char_of: "map of_char u = (bs :: nat list) \<Longrightarrow> u = map char_of bs"
  by (auto simp: comp_def)

lemma divmod_64: "z < 64 \<Longrightarrow> (q * 64 + z) div 64 = q" "z < 64 \<Longrightarrow> (q * 64 + z) mod 64 = (z :: nat)"
  by simp_all

lemma utf8_encode_utf8: "utf8 u r \<Longrightarrow> utf8_encode r = u"
proof (induction rule: utf8.induct)
  case (utf8_1 u r)
  then show ?case using map_char_of[OF utf8_1(1)] by (simp add: utf8_encode_def)
next
  case (utf8_2 u x y r)
  have "r div 64 = x" "r mod 64 = y" "\<not> r < 128" "r < 2048" using utf8_2 by simp_all
  then show ?case using map_char_of[OF utf8_2(1)] by (simp add: utf8_encode_def)
next
  case (utf8_3 u x y z r)
  have "r = x * 4096 + (y * 64 + z)" "y * 64 + z < 4096" using utf8_3 by simp_all
  then have "r div 4096 = x" by simp
  moreover have "r div 64 mod 64 = y" "r mod 64 = z"
    unfolding utf8_3(5) by (simp_all only: divmod_64 utf8_3(3,4))
  moreover have "\<not> r < 2048" "r < 65536" "r < 55296 \<or> 57343 < r" using utf8_3 by auto
  ultimately show ?case using map_char_of[OF utf8_3(1)] by (auto simp: utf8_encode_def)
next
  case (utf8_4 u x y z v r)
  have "r = x * 262144 + (y * 4096 + z * 64 + v)" "y * 4096 + z * 64 + v < 262144" using utf8_4 by simp_all
  then have "r div 262144 = x" by simp
  moreover have "r = (x * 64 + y) * 4096 + (z * 64 + v)" "z * 64 + v < 4096" using utf8_4 by simp_all
  then have "r div 4096 = x * 64 + y" by simp
  then have "r div 4096 mod 64 = y" using utf8_4(3) by simp
  moreover have "r div 64 mod 64 = z" "r mod 64 = v"
    unfolding utf8_4(6) by (simp_all only: divmod_64 utf8_4(4,5))
  moreover have "\<not> r < 65536" "\<not> (55296 \<le> r \<and> r \<le> 57343 \<or> 1114111 < r)" using utf8_4 by auto
  ultimately show ?case using map_char_of[OF utf8_4(1)] by (simp add: utf8_encode_def)
qed

lemma utf8_len_utf8: "utf8 u r \<Longrightarrow> utf8_len (u @ t) = length u"
proof (induction rule: utf8.induct)
  case (utf8_1 u r)
  then obtain c where "u = [c]" "of_char c = r" by (cases u) auto
  with utf8_1 show ?case by (simp add: utf8_len_ascii)
next
  case (utf8_2 u x y r)
  obtain c d where u: "u = [c, d]" using map_char_of[OF utf8_2(1)] by simp
  with utf8_2(1) have b: "of_char c = 0xC0 + x" "of_char d = 0x80 + y" by simp_all
  have "2 \<le> x" using utf8_2 by simp
  with utf8_2 b show ?case by (simp add: u utf8_len_def cont_byte_def Let_def)
next
  case (utf8_3 u x y z r)
  obtain c d e where u: "u = [c, d, e]" using map_char_of[OF utf8_3(1)] by simp
  with utf8_3(1) have b: "of_char c = 0xE0 + x" "of_char d = 0x80 + y" "of_char e = 0x80 + z" by simp_all
  have "x = 0 \<Longrightarrow> 32 \<le> y" "x = 13 \<Longrightarrow> y < 32" using utf8_3 by auto
  with utf8_3 b show ?case by (auto simp: u utf8_len_def cont_byte_def Let_def)
next
  case (utf8_4 u x y z v r)
  obtain c d e f where u: "u = [c, d, e, f]" using map_char_of[OF utf8_4(1)] by simp
  with utf8_4(1) have b: "of_char c = 0xF0 + x" "of_char d = 0x80 + y" "of_char e = 0x80 + z" "of_char f = 0x80 + v"
    by simp_all
  have "x = 0 \<Longrightarrow> 16 \<le> y" "x = 4 \<Longrightarrow> y < 16" "x \<le> 4" using utf8_4 by auto
  with utf8_4 b show ?case by (auto simp: u utf8_len_def cont_byte_def Let_def)
qed
lemma getu4_hex4: "hex4 h r \<Longrightarrow> getu4 (h @ t) = Some r \<and> length h = 4"
  by (auto simp: hex4_def getu4_def numeral_2_eq_2 numeral_3_eq_3 hex_val_unhex)

lemma utf8_no_surrogate: "utf8 u r \<Longrightarrow> r < 0xD800 \<or> 0xDFFF < r"
  by (induction rule: utf8.induct) auto

lemma json_str_pair:
  assumes "hex4 h hi" "0xD800 \<le> hi" "hi < 0xDC00" "hex4 l lo" "0xDC00 \<le> lo" "lo \<le> 0xDFFF"
    "json_str s = Some (t, u)"
  shows "json_str (CHR 0x5C # CHR ''u'' # h @ CHR 0x5C # CHR ''u'' # l @ s)
    = Some (utf8_encode (0x10000 + (hi - 0xD800) * 0x400 + (lo - 0xDC00)) @ t, u)"
proof -
  let ?s = "CHR 0x5C # CHR ''u'' # l @ s"
  have h: "getu4 (h @ ?s) = Some hi" "length h = 4" using getu4_hex4[OF assms(1)] by simp_all
  have l: "getu4 (l @ s) = Some lo" "length l = 4" using getu4_hex4[OF assms(4)] by simp_all
  have "unescape_u hi ?s = (utf8_encode (0x10000 + (hi - 0xD800) * 0x400 + (lo - 0xDC00)), s)"
    using l assms by (simp add: unescape_u_def HasPrefix_def algebra_simps)
  with h assms(7) show ?thesis by (simp add: json_str.simps(2)[of "CHR 0x5C" "CHR ''u'' # h @ ?s"])
qed

lemma short_escapes_read: "(e, x) \<in> set short_escapes \<Longrightarrow> simple_escape e = Some x"
  by (auto simp: short_escapes_def simple_escape_def)

lemma json_str_encodes: "encodes t s \<Longrightarrow> json_str (t @ CHR 0x22 # u) = Some (s, u)"
proof (induction rule: encodes.induct)
  case enc_end
  then show ?case by (simp add: json_str.simps)
next
  case (enc_ascii c t s)
  then show ?case by (simp add: json_str.simps(2)[of c] utf8_len_ascii)
next
  case (enc_rune r p t s)
  from enc_rune(1,2) obtain c cs where r: "r = c # cs" "\<not> of_char c < (128::nat)"
    by cases (auto simp: Cons_eq_map_conv)
  have l: "utf8_len (r @ t @ CHR 0x22 # u) = length r" by (rule utf8_len_utf8[OF enc_rune(1)])
  have "\<not> of_char c < (128::nat)" by (rule r(2))
  then have "c \<noteq> CHR 0x22" "c \<noteq> CHR 0x5C" "\<not> of_char c < (32::nat)" by auto
  with l r enc_rune show ?case by (simp add: json_str.simps(2)[of c])
next
  case (enc_short e x t s)
  then show ?case using json_str_simple[OF short_escapes_read] by simp
next
  case (enc_u h r v t s)
  then have "json_str (CHR 0x5C # CHR ''u'' # h @ (t @ CHR 0x22 # u)) = Some (utf8_encode r @ s, u)"
    using getu4_hex4[OF enc_u(1)] utf8_no_surrogate[OF enc_u(2)] by (intro json_str_u) auto
  then show ?case by (simp add: utf8_encode_utf8[OF enc_u(2)])
next
  case (enc_pair h hi l lo v t s)
  from json_str_pair[OF enc_pair(1-6,9)] show ?case by (simp add: utf8_encode_utf8[OF enc_pair(7)])
qed

lemma json_digits_digits:
  assumes "digits s" "r = [] \<or> \<not> is_digit (hd r)" shows "json_digits (s @ r) = Some (s, r)"
proof -
  have "takeWhile is_digit (s @ r) = s" "dropWhile is_digit (s @ r) = r"
    using assms by (cases r; auto simp: digits_def list_all_iff takeWhile_append2)+
  with assms(1) show ?thesis by (simp add: json_digits_def digits_def Let_def)
qed

lemma number_parts:
  assumes "stops r"
  shows "is_exp e \<Longrightarrow> json_exp (e @ r) = Some (e, r) \<and> (e @ r = [] \<or> \<not> is_digit (hd (e @ r)) \<and> hd (e @ r) \<noteq> CHR ''.'')"
proof -
  have r: "r = [] \<or> \<not> is_digit (hd r) \<and> hd r \<noteq> CHR ''.'' \<and> hd r \<noteq> CHR ''e'' \<and> hd r \<noteq> CHR ''E''"
    using assms by (auto simp: stops_def json_ws_def is_digit_def)
  then have nd: "r = [] \<or> \<not> is_digit (hd r)" by auto
  assume "is_exp e"
  then show ?thesis
  proof cases
    case exp_none
    with r show ?thesis by (cases r) (auto simp: json_exp_def)
  next
    case (exp_digits c s)
    then obtain x xs where s: "s = x # xs" "is_digit x" by (cases s) (auto simp: digits_def)
    then have "x \<noteq> CHR ''+''" "x \<noteq> CHR ''-''" by (auto simp: is_digit_def)
    with exp_digits s json_digits_digits[OF exp_digits(3) nd] show ?thesis
      by (auto simp: json_exp_def is_digit_def)
  next
    case (exp_sign c g s)
    with json_digits_digits[OF exp_sign(4) nd] show ?thesis by (auto simp: json_exp_def is_digit_def)
  qed
qed

lemma json_num_number: "is_number t \<Longrightarrow> stops r \<Longrightarrow> json_num (t @ r) = Some (t, r)"
proof -
  have unsigned: "json_int_part (i @ f @ e @ r) = Some (i, f @ e @ r) \<and> json_frac (f @ e @ r) = Some (f, e @ r)
      \<and> json_exp (e @ r) = Some (e, r) \<and> expect CHR ''-'' (i @ f @ e @ r) = None"
    if "stops r" "is_int i" "is_frac f" "is_exp e" for i f e
  proof -
    note e = number_parts[OF that(1,4)]
    then have en: "e @ r = [] \<or> \<not> is_digit (hd (e @ r))" by auto
    have f: "json_frac (f @ e @ r) = Some (f, e @ r) \<and> (f @ e @ r = [] \<or> \<not> is_digit (hd (f @ e @ r)))"
      using that(3)
    proof cases
      case frac_none
      with e show ?thesis by (cases "e @ r") (auto simp: json_frac_def expect_def)
    next
      case (frac_digits s)
      with json_digits_digits[OF frac_digits(2) en] show ?thesis
        by (simp add: json_frac_def expect_def is_digit_def)
    qed
    then have fn: "f @ e @ r = [] \<or> \<not> is_digit (hd (f @ e @ r))" ..
    have ip: "json_int_part (i @ f @ e @ r) = Some (i, f @ e @ r) \<and> expect CHR ''-'' (i @ f @ e @ r) = None"
      using that(2)
    proof cases
      case int_digits
      then obtain x xs where s: "i = x # xs" "is_digit x" "x \<noteq> CHR ''0''" by (cases i) (auto simp: digits_def)
      with json_digits_digits[OF int_digits(1) fn] show ?thesis
        by (auto simp: json_int_part_def expect_def is_digit_def)
    qed (simp add: json_int_part_def expect_def)
    show ?thesis by (rule conjI[OF conjunct1[OF ip] conjI[OF conjunct1[OF f] conjI[OF conjunct1[OF e] conjunct2[OF ip]]]])
  qed
  assume "is_number t" "stops r"
  then show ?thesis
  proof cases
    case (num_pos i f e)
    with unsigned[OF \<open>stops r\<close> num_pos(2-4)] show ?thesis by (simp add: json_num_def)
  next
    case (num_neg i f e)
    with unsigned[OF \<open>stops r\<close> num_neg(2-4)] show ?thesis by (simp add: json_num_def expect_def)
  qed
qed

lemma is_number_head: "is_number t \<Longrightarrow> \<exists>c cs. t = c # cs \<and> (is_digit c \<or> c = CHR ''-'')"
proof -
  have "\<exists>c cs. i = c # cs \<and> is_digit c" if "is_int i" for i
    using that by cases (auto simp: digits_def list_all_iff is_digit_def neq_Nil_conv)
  note i = this
  assume "is_number t"
  then show ?thesis
  proof cases
    case (num_pos i' f e)
    with i[OF num_pos(2)] show ?thesis by auto
  qed simp
qed

section \<open>Documents\<close>

lemma json_value_ws: "ws a \<Longrightarrow> json_value n d (a @ s) = json_value n d s"
  by (cases n) (simp_all add: skip_ws_append)

lemma reads_ws:
  assumes "reads_as t j k" "d + k \<le> json_max_depth" "ws a" "ws b" "stops r"
  shows "2 * length t \<le> m \<Longrightarrow> json_value m d (a @ t @ b @ r) = Some (j, b @ r)"
  using reads_asD[OF assms(1,2) stops_ws[OF assms(4,5)]] by (simp add: json_value_ws[OF assms(3)])

lemma items_last:
  assumes "reads_as t j k" "d + k \<le> json_max_depth" "ws a" "ws b"
  shows "\<exists>n. json_elems n d (a @ t @ b @ CHR '']'' # r) = Some ([j], r)"
proof (intro exI)
  show "json_elems (Suc (2 * length t)) d (a @ t @ b @ CHR '']'' # r) = Some ([j], r)"
    using reads_ws[OF assms, of "CHR '']'' # r" "2 * length t"] skip_ws_head[OF assms(4), of "CHR '']''" r]
    by (simp add: expect_def)
qed

lemma items_more:
  assumes "reads_as t j k" "d + k \<le> json_max_depth" "ws a" "ws b" "\<exists>n. json_elems n d u = Some (js, r)"
  shows "\<exists>n. json_elems n d (a @ t @ b @ CHR '','' # u) = Some (j # js, r)"
proof -
  obtain n where n: "json_elems n d u = Some (js, r)" using assms(5) ..
  let ?m = "2 * length t + 2 * length u + 1"
  have "json_elems ?m d u = Some (js, r)" by (rule json_fuel_suffices(2)[OF n]) simp
  then have "json_elems (Suc ?m) d (a @ t @ b @ CHR '','' # u) = Some (j # js, r)"
    using reads_ws[OF assms(1-4), of "CHR '','' # u" ?m] skip_ws_head[OF assms(4), of "CHR '',''" u]
    by (simp add: expect_def del: json_value.simps)
  then show ?thesis ..
qed

text \<open>A member up to its value.\<close>

abbreviation mem_text :: "string \<Rightarrow> string \<Rightarrow> string \<Rightarrow> string \<Rightarrow> string \<Rightarrow> string \<Rightarrow> string" where
  "mem_text a q b c t r \<equiv> a @ CHR 0x22 # q @ CHR 0x22 # b @ CHR '':'' # c @ t @ r"

lemma mem_head:
  assumes "ws a" "encodes q k" "ws b"
  shows "expect CHR 0x22 (skip_ws (mem_text a q b c t r)) = Some (q @ CHR 0x22 # b @ CHR '':'' # c @ t @ r)"
    "json_str (q @ CHR 0x22 # b @ CHR '':'' # c @ t @ r) = Some (k, b @ CHR '':'' # c @ t @ r)"
    "expect CHR '':'' (skip_ws (b @ CHR '':'' # c @ t @ r)) = Some (c @ t @ r)"
  using assms by (simp_all add: skip_ws_head json_str_encodes expect_def)

lemma expect_char [simp]: "expect c (c # s) = Some s" "x \<noteq> c \<Longrightarrow> expect c (x # s) = None"
  by (simp_all add: expect_def)

lemma mems_last:
  assumes "ws a" "encodes q k" "ws b" "reads_as t j x" "d + x \<le> json_max_depth" "ws c" "ws e"
  shows "\<exists>n. json_members n d (mem_text a q b c t (e @ CHR ''}'' # r)) = Some ([(k, j)], r)"
proof (intro exI)
  show "json_members (Suc (2 * length t)) d (mem_text a q b c t (e @ CHR ''}'' # r)) = Some ([(k, j)], r)"
    using reads_ws[OF assms(4-7), of "CHR ''}'' # r" "2 * length t"] skip_ws_head[OF assms(7), of "CHR ''}''" r]
    by (simp add: mem_head[OF assms(1-3)] del: json_value.simps)
qed

lemma mems_more:
  assumes "ws a" "encodes q k" "ws b" "reads_as t j x" "d + x \<le> json_max_depth" "ws c" "ws e"
    "\<exists>n. json_members n d u = Some (ms, r)"
  shows "\<exists>n. json_members n d (mem_text a q b c t (e @ CHR '','' # u)) = Some ((k, j) # ms, r)"
proof -
  obtain n where n: "json_members n d u = Some (ms, r)" using assms(8) ..
  define m where "m = 2 * length t + 2 * length u + 1"
  have "json_members m d u = Some (ms, r)" by (rule json_fuel_suffices(3)[OF n]) (simp add: m_def)
  moreover have "2 * length t \<le> m" by (simp add: m_def)
  ultimately have "json_members (Suc m) d (mem_text a q b c t (e @ CHR '','' # u)) = Some ((k, j) # ms, r)"
    using reads_ws[OF assms(4-7), of "CHR '','' # u" m] skip_ws_head[OF assms(7), of "CHR '',''" u]
    by (simp add: mem_head[OF assms(1-3)] del: json_value.simps)
  then show ?thesis ..
qed

text \<open>What starts a value, the items of an array and the members of an object.\<close>

definition doc_head :: "string \<Rightarrow> bool" where
  "doc_head t \<longleftrightarrow> (\<exists>c cs. t = c # cs \<and> \<not> json_ws c \<and> c \<noteq> CHR '']'')"

lemma doc_head_append: "doc_head t \<Longrightarrow> doc_head (t @ r)"
  by (auto simp: doc_head_def)

lemma doc_head_skip: "doc_head t \<Longrightarrow> ws a \<Longrightarrow> doc_head (skip_ws (a @ t))"
  by (auto simp: doc_head_def skip_ws_head)

lemma doc_head_not: "doc_head t \<Longrightarrow> expect CHR '']'' t = None"
  by (auto simp: doc_head_def expect_def)

lemma array_doc_reads:
  assumes "\<And>d r. \<forall>j \<in> set js. d + json_depth j \<le> json_max_depth \<Longrightarrow>
      \<exists>n. json_elems n d (t @ CHR '']'' # r) = Some (js, r)" "\<And>r. doc_head (skip_ws (t @ r))"
  shows "reads_as (CHR ''['' # t @ '']'') (JArr js) (json_depth (JArr js))"
  unfolding reads_as_def
proof (intro allI impI)
  fix d r assume d: "d + json_depth (JArr js) \<le> json_max_depth"
  then have "\<forall>j \<in> set js. Suc d + json_depth j \<le> json_max_depth"
    using depth_le_foldr[of _ js json_depth] by fastforce
  from assms(1)[OF this] obtain n where n: "json_elems n (Suc d) (t @ CHR '']'' # r) = Some (js, r)" ..
  have "json_value (Suc n) d ((CHR ''['' # t @ '']'') @ r) = Some (JArr js, r)"
    using d n doc_head_not[OF assms(2)[of "CHR '']'' # r"]] by (simp add: skip_ws_plain)
  then show "\<exists>n. json_value n d ((CHR ''['' # t @ '']'') @ r) = Some (JArr js, r)" ..
qed

lemma object_doc_reads:
  assumes "\<And>d r. \<forall>j \<in> (snd \<circ> snd) ` set ms. d + json_depth j \<le> json_max_depth \<Longrightarrow>
      \<exists>n. json_members n d (t @ CHR ''}'' # r) = Some (map (\<lambda>(k, u, j). (k, j)) ms, r)"
    "\<And>r. \<exists>cs. skip_ws (t @ r) = CHR 0x22 # cs"
  shows "reads_as (CHR ''{'' # t @ ''}'') (doc_object ms) (json_depth (doc_object ms))"
  unfolding reads_as_def
proof (intro allI impI)
  fix d r assume d: "d + json_depth (doc_object ms) \<le> json_max_depth"
  have "json_depth j \<le> foldr max (map (json_depth \<circ> snd \<circ> snd) ms) 0" if "(k, u, j) \<in> set ms" for k u j
    using depth_le_foldr[OF that, of "json_depth \<circ> snd \<circ> snd"] by simp
  with d have "\<forall>j \<in> (snd \<circ> snd) ` set ms. Suc d + json_depth j \<le> json_max_depth"
    by (fastforce simp: doc_object_def comp_def case_prod_unfold)
  from assms(1)[OF this] obtain n where
    n: "json_members n (Suc d) (t @ CHR ''}'' # r) = Some (map (\<lambda>(k, u, j). (k, j)) ms, r)" ..
  obtain cs where "skip_ws (t @ CHR ''}'' # r) = CHR 0x22 # cs" using assms(2) by blast
  with d n have "json_value (Suc n) d ((CHR ''{'' # t @ ''}'') @ r) = Some (doc_object ms, r)"
    by (simp add: skip_ws_plain expect_def doc_object_def)
  then show "\<exists>n. json_value n d ((CHR ''{'' # t @ ''}'') @ r) = Some (doc_object ms, r)" ..
qed

lemma doc_reads:
  "json_doc t j \<Longrightarrow> reads_as t j (json_depth j) \<and> doc_head t"
  "json_items t js \<Longrightarrow> (\<forall>d r. (\<forall>j \<in> set js. d + json_depth j \<le> json_max_depth) \<longrightarrow>
      (\<exists>n. json_elems n d (t @ CHR '']'' # r) = Some (js, r))) \<and> (\<forall>r. doc_head (skip_ws (t @ r)))"
  "json_mems t ms \<Longrightarrow> (\<forall>d r. (\<forall>j \<in> (snd \<circ> snd) ` set ms. d + json_depth j \<le> json_max_depth) \<longrightarrow>
      (\<exists>n. json_members n d (t @ CHR ''}'' # r) = Some (map (\<lambda>(k, u, j). (k, j)) ms, r)))
      \<and> (\<forall>r. \<exists>cs. skip_ws (t @ r) = CHR 0x22 # cs)"
proof (induction rule: json_doc_json_items_json_mems.inducts)
  case (doc_num t)
  then obtain c cs where t: "t = c # cs" "is_digit c \<or> c = CHR ''-''" using is_number_head by blast
  have "reads_as t (JNum t) k" for k by (rule number_reads[OF json_num_number[OF doc_num] t])
  with t show ?case by (auto simp: doc_head_def json_ws_def is_digit_def)
next
  case (doc_str t s)
  have "reads_as (quote t) (JStr s) k" for k by (rule string_reads) (rule json_str_encodes[OF doc_str])
  then show ?case by (simp add: quote_def doc_head_def)
next
  case (doc_arr0 a)
  have "reads_as (CHR ''['' # a @ '']'') (JArr []) 1"
    by (rule reads_asI[where n = "Suc 0"]) (simp add: skip_ws_plain skip_ws_head[OF doc_arr0])
  then show ?case by (simp add: doc_head_def)
next
  case (doc_arr t js)
  then show ?case using array_doc_reads[of js t] by (simp add: doc_head_def)
next
  case (doc_obj0 a)
  have "reads_as (CHR ''{'' # a @ ''}'') (JObj []) 1"
    by (rule reads_asI[where n = "Suc 0"]) (simp add: skip_ws_plain skip_ws_head[OF doc_obj0])
  then show ?case by (simp add: doc_head_def)
next
  case (doc_obj t ms)
  then show ?case using object_doc_reads[of ms t] by (simp add: doc_head_def)
next
  case (item_last a b t j)
  then show ?case
    using items_last[of t j "json_depth j" _ a b] doc_head_skip[OF doc_head_append, of t a] by simp
next
  case (item_more a b t j u js)
  then show ?case
    using items_more[of t j "json_depth j" _ a b] doc_head_skip[OF doc_head_append, of t a] by simp
next
  case (mem_last a q k b c t j d)
  then show ?case using mems_last[of a q k b t j "json_depth j" _ c d] by (simp add: skip_ws_head)
next
  case (mem_more a q k b c t j d u ms)
  then show ?case using mems_more[of a q k b t j "json_depth j" _ c d] by (simp add: skip_ws_head)
qed (simp_all add: literal_reads doc_head_def json_ws_def)

section \<open>Whole texts\<close>

lemma doc_first:
  assumes "json_doc t j" "json_depth j \<le> json_max_depth" "stops r"
  shows "json_first (t @ r) = Some (j, r)"
proof -
  have "json_value (2 * length t) 0 (t @ r) = Some (j, r)"
    using doc_reads(1)[OF assms(1)] assms(2,3) by (intro reads_asD) auto
  then show ?thesis by (rule json_first_complete)
qed

lemma doc_parse:
  assumes "json_doc t j" "json_depth j \<le> json_max_depth" "ws a" "ws b"
  shows "json_parse (a @ t @ b) = Some j"
proof -
  have "reads_as t j (json_depth j)" using doc_reads(1)[OF assms(1)] ..
  from reads_ws[OF this _ assms(3,4), of 0 "[]" "2 * length t"] assms(2)
  have "json_value (2 * length t) 0 (a @ t @ b) = Some (j, b)" by simp
  from json_first_complete[OF this] skip_ws_append[OF assms(4), of "[]"] show ?thesis
    by (simp add: json_parse_def skip_ws_def)
qed

lemma doc_Unmarshal:
  assumes "json_doc t j" "json_depth j \<le> json_max_depth"
  shows "json_Unmarshal d t v = (fst (d j v), if snd (d j v) then Some ErrJSON else None)"
  using doc_parse[OF assms, of "[]" "[]"] by (simp add: json_Unmarshal_def ws_def split: prod.splits)

lemma doc_nonempty: "json_doc t j \<Longrightarrow> t \<noteq> []"
  using doc_reads(1)[of t j] by (auto simp: doc_head_def)

section \<open>Raw members\<close>

lemma raw_member:
  assumes "ws a" "encodes q k" "ws b" "ws c" "json_doc t j" "json_depth j \<le> json_max_depth" "stops r"
  shows "raw_members (Suc n) (mem_text a q b c t r) =
    (k, t) # (case expect CHR '','' (skip_ws r) of None \<Rightarrow> [] | Some r1 \<Rightarrow> raw_members n r1)"
proof -
  have "doc_head t" using doc_reads(1)[OF assms(5)] ..
  then have "skip_ws (c @ t @ r) = t @ r" by (auto simp: doc_head_def skip_ws_head[OF assms(4)])
  then show ?thesis by (simp add: mem_head[OF assms(1-3)] doc_first[OF assms(5-7)])
qed

text \<open>Every member takes at least one character, so the fuel of \<open>raw_members\<close> is enough.\<close>

lemma raw_members_doc:
  "json_mems t ms \<Longrightarrow> (\<forall>(k, u, j) \<in> set ms. json_depth j \<le> json_max_depth) \<Longrightarrow> length t \<le> n
     \<Longrightarrow> raw_members n (t @ CHR ''}'' # r) = map (\<lambda>(k, u, j). (k, u)) ms"
proof (induction t ms arbitrary: n rule: json_doc_json_items_json_mems.inducts(3)
    [where ?P1.0 = "\<lambda>_ _. True" and ?P2.0 = "\<lambda>_ _. True"])
  case (mem_last a q k b c t j d)
  then obtain m where n: "n = Suc m" by (cases n) auto
  have "stops (d @ CHR ''}'' # r)" using mem_last by (simp add: stops_ws)
  with mem_last raw_member[of a q k b c t j "d @ CHR ''}'' # r" m] show ?case
    by (simp add: n skip_ws_head del: raw_members.simps)
next
  case (mem_more a q k b c t j d u ms)
  then obtain m where n: "n = Suc m" "length u \<le> m" by (cases n) auto
  have "stops (d @ CHR '','' # u @ CHR ''}'' # r)" using mem_more by (simp add: stops_ws)
  with mem_more n raw_member[of a q k b c t j "d @ CHR '','' # u @ CHR ''}'' # r" m] show ?case
    by (simp add: skip_ws_head del: raw_members.simps)
qed simp_all

lemma raw_map_doc:
  assumes "json_mems t ms" "\<forall>(k, u, j) \<in> set ms. json_depth j < json_max_depth" "ws a" "ws b"
  shows "json_raw_map (a @ CHR ''{'' # t @ CHR ''}'' # b) = Some (map (\<lambda>(k, u, j). (k, u)) ms)"
proof -
  have "\<forall>x \<in> set ms. json_depth (snd (snd x)) < json_max_depth" using assms(2) by auto
  then have "foldr max (map (\<lambda>x. json_depth (snd (snd x))) ms) 0 < json_max_depth"
    by (induction ms) (auto simp: json_max_depth_def)
  then have d: "json_depth (doc_object ms) \<le> json_max_depth"
    by (simp add: doc_object_def comp_def case_prod_unfold)
  have "json_parse (a @ CHR ''{'' # t @ CHR ''}'' # b) = Some (doc_object ms)"
    using doc_parse[OF doc_obj[OF assms(1)] d assms(3,4)] by simp
  moreover have "raw_members (length (a @ CHR ''{'' # t @ CHR ''}'' # b)) (t @ CHR ''}'' # b)
      = map (\<lambda>(k, u, j). (k, u)) ms"
    using assms(2) by (intro raw_members_doc[OF assms(1)]) auto
  ultimately show ?thesis
    by (simp add: json_raw_map_def doc_object_def skip_ws_head[OF assms(3)] del: raw_members.simps)
qed

end
