(* ===== verification/Smee_Stream.thy ===== *)
theory Smee_Stream
  imports Smee Json_Doc
begin

text \<open>
  Lemmas about the smee client: the blocks of a server-sent-event stream come back from the
  line scanner one by one; a message that is a JSON object gives its headers
  (whatever the order of Go's map iteration) and its body; and, as a locale, what a whole
  stream and the reconnect loop preserve of a relation that the handler and the log keep.
\<close>

section \<open>Framing\<close>

text \<open>
  A block of a stream: its field lines in the order they come, then the blank line that ends
  it. Every line ends in a newline, some in a carriage return and a newline. The text of an
  \<open>event\<close> or \<open>data\<close> field is what follows its colon; every other line is noise: comments,
  \<open>id\<close> and \<open>retry\<close> fields, unknown ones.
\<close>

datatype sse_field = Event string | Data string | Noise string

type_synonym sse_block = "(sse_field \<times> bool) list \<times> bool"

fun field_line :: "sse_field \<Rightarrow> string" where
  "field_line (Event n) = ''event:'' @ n"
| "field_line (Data d) = ''data:'' @ d"
| "field_line (Noise l) = l"

definition block_lines :: "sse_block \<Rightarrow> (string \<times> bool) list" where
  "block_lines b = map (\<lambda>(f, cr). (field_line f, cr)) (fst b) @ [([], snd b)]"

definition line_end :: "string \<times> bool \<Rightarrow> string" where
  "line_end l = fst l @ (if snd l then [CHR 0x0D] else [])"

definition lines_text :: "string list \<Rightarrow> string" where
  "lines_text ls = concat (map (\<lambda>l. l @ [CHR 0x0A]) ls)"

definition sse_text :: "sse_block list \<Rightarrow> string" where
  "sse_text bs = lines_text (map line_end (concat (map block_lines bs)))"

definition line_ok :: "string \<times> bool \<Rightarrow> bool" where
  "line_ok l \<longleftrightarrow> CHR 0x0A \<notin> set (fst l) \<and> (fst l = [] \<or> last (fst l) \<noteq> CHR 0x0D) \<and> fits (line_end l)"

definition noise_line :: "string \<Rightarrow> bool" where
  "noise_line l \<longleftrightarrow> l \<noteq> [] \<and> \<not> HasPrefix l ''event:'' \<and> \<not> HasPrefix l ''data:''"

fun field_ok :: "sse_field \<Rightarrow> bool" where
  "field_ok (Noise l) = noise_line l"
| "field_ok _ = True"

definition sse_ok :: "sse_block \<Rightarrow> bool" where
  "sse_ok b \<longleftrightarrow> list_all line_ok (block_lines b) \<and> list_all field_ok (map fst (fst b))"

text \<open>
  What a block says: the name of its last \<open>event\<close> field without the space around it, or
  \<open>message\<close>; and the data of its \<open>data\<close> fields, each without one leading space, on lines of
  their own from the first that is not empty.
\<close>

fun field_payload :: "sse_field \<Rightarrow> string list" where
  "field_payload (Data (c # d)) = [if c = CHR '' '' then d else c # d]"
| "field_payload (Data []) = [[]]"
| "field_payload _ = []"

fun field_name :: "sse_field \<Rightarrow> string \<Rightarrow> string" where
  "field_name (Event n) m = TrimSpace n"
| "field_name _ m = m"

definition block_name :: "sse_block \<Rightarrow> string" where
  "block_name b = fold field_name (map fst (fst b)) ''message''"

definition block_data :: "sse_block \<Rightarrow> string" where
  "block_data b = join [CHR 0x0A] (dropWhile (\<lambda>d. d = []) (concat (map field_payload (map fst (fst b)))))"

definition is_message :: "sse_block \<Rightarrow> bool" where
  "is_message b \<longleftrightarrow> block_name b = ''message'' \<and> block_data b \<noteq> []"

lemma Split_lines_text:
  "list_all (\<lambda>l. CHR 0x0A \<notin> set l) ls \<Longrightarrow> Split CHR 0x0A (lines_text ls @ r) = ls @ Split CHR 0x0A r"
  by (induction ls) (auto simp: lines_text_def Split_append_sep)

lemma raw_lines_text:
  assumes "list_all (\<lambda>l. CHR 0x0A \<notin> set l) ls" shows "raw_lines (lines_text ls @ r) = ls @ raw_lines r"
  using Split_ne[of "CHR 0x0A" r]
  by (auto simp: raw_lines_def Let_def Split_lines_text[OF assms] butlast_append)

lemma drop_cr_line: "line_ok l \<Longrightarrow> drop_cr (line_end l) = fst l"
  by (auto simp: drop_cr_def line_end_def line_ok_def)

lemma scan_lines_text:
  assumes "list_all line_ok ls"
  shows "scan_lines (lines_text (map line_end ls) @ r) = map fst ls @ scan_lines r"
    "scan_error (lines_text (map line_end ls) @ r) = scan_error r"
proof -
  have "raw_lines (lines_text (map line_end ls) @ r) = map line_end ls @ raw_lines r"
    using assms by (intro raw_lines_text) (auto simp: list_all_iff line_ok_def line_end_def)
  moreover have "list_all fits (map line_end ls)" using assms by (auto simp: list_all_iff line_ok_def)
  moreover have "map drop_cr (map line_end ls) = map fst ls"
    using assms by (auto simp: list_all_iff drop_cr_line)
  moreover have "takeWhile fits (map line_end ls @ r') = map line_end ls @ takeWhile fits r'"
    if "list_all fits (map line_end ls)" for r'
    using that by (intro takeWhile_append2) (auto simp: list_all_iff)
  ultimately show "scan_lines (lines_text (map line_end ls) @ r) = map fst ls @ scan_lines r"
    "scan_error (lines_text (map line_end ls) @ r) = scan_error r"
    by (simp_all add: scan_lines_def scan_error_def del: map_map)
qed

lemma TrimSpace_space: "TrimSpace (CHR '' '' # s) = TrimSpace s"
proof -
  have "find (\<lambda>p. p \<noteq> [] \<and> HasPrefix (CHR '' '' # s) p) space_runes = Some [CHR '' '']"
    by (simp add: space_runes_def)
  then have "strip space_runes (CHR '' '' # s) = strip space_runes s"
    by (subst strip.simps) simp
  then show ?thesis by (simp add: TrimSpace_def)
qed

lemma sse_field_line:
  assumes "field_ok f"
  shows "sse_line C (field_line f) (ev, d, s) =
    (field_name f ev, join [CHR 0x0A] (dropWhile (\<lambda>d. d = []) (d # field_payload f)), s)"
proof (cases f)
  case (Data x)
  then show ?thesis by (cases x) (simp_all add: sse_line_def HasPrefix_def TrimPrefix_def)
qed (use assms in \<open>auto simp: sse_line_def HasPrefix_def noise_line_def\<close>)

lemma join_dropWhile:
  "join [CHR 0x0A] (dropWhile (\<lambda>d. d = []) (join [CHR 0x0A] (dropWhile (\<lambda>d. d = []) xs) # ys))
    = join [CHR 0x0A] (dropWhile (\<lambda>d. d = []) (xs @ ys))"
proof (induction xs)
  case (Cons x xs)
  have j: "join [CHR 0x0A] ((x @ t) # ys) = x @ join [CHR 0x0A] (t # ys)" for t by (cases ys) auto
  show ?case
  proof (cases "x = []")
    case False
    have "join [CHR 0x0A] (join [CHR 0x0A] (x # xs) # ys) = join [CHR 0x0A] (x # xs @ ys)" for x
    proof (induction xs arbitrary: x)
      case (Cons z zs)
      then show ?case by (cases ys) (auto simp: neq_Nil_conv)
    qed simp
    moreover have "join [CHR 0x0A] (x # xs) \<noteq> []" using False by (cases xs) auto
    ultimately show ?thesis using False by simp
  qed (use Cons in simp)
qed simp

lemma fold_sse_fields:
  assumes "list_all field_ok fs"
  shows "fold (sse_line C) (map field_line fs) (ev, d, s) = (fold field_name fs ev,
    join [CHR 0x0A] (dropWhile (\<lambda>d. d = []) (d # concat (map field_payload fs))), s)"
  using assms
proof (induction fs arbitrary: ev d)
  case (Cons f fs)
  from Cons.prems have f: "field_ok f" "list_all field_ok fs" by simp_all
  show ?case
    using join_dropWhile[of "d # field_payload f" "concat (map field_payload fs)"]
    by (simp add: sse_field_line[OF f(1)] Cons.IH[OF f(2)] del: dropWhile.simps)
qed simp

lemma fold_sse_block:
  assumes "sse_ok b"
  shows "fold (sse_line C) (map fst (block_lines b)) (''message'', [], s) =
    (''message'', [], if is_message b then handleMessage C (block_data b) s else s)"
proof -
  have n: "list_all field_ok (map fst (fst b))" using assms by (simp add: sse_ok_def)
  have m: "map fst (block_lines b) = map field_line (map fst (fst b)) @ [[]]"
    by (simp add: block_lines_def comp_def case_prod_unfold)
  show ?thesis
    unfolding m fold_append comp_def fold_sse_fields[OF n]
    by (simp add: sse_line_def sse_flush_def is_message_def block_name_def block_data_def)
qed

lemma fold_sse_blocks:
  "list_all sse_ok bs \<Longrightarrow> fold (sse_line C) (map fst (concat (map block_lines bs))) (''message'', [], s) =
    (''message'', [], fold (\<lambda>b. handleMessage C (block_data b)) (filter is_message bs) s)"
  by (induction bs arbitrary: s) (auto simp: fold_sse_block)

text \<open>Lines that do not end an event change nothing but the event being read.\<close>

lemma fold_sse_unfinished:
  "[] \<notin> set ls \<Longrightarrow> \<exists>ev d. fold (sse_line C) ls (ev0, d0, s) = (ev, d, s)"
proof (induction ls arbitrary: ev0 d0)
  case (Cons l ls)
  have "\<exists>ev1 d1. sse_line C l (ev0, d0, s) = (ev1, d1, s)"
    using Cons.prems by (auto simp: sse_line_def)
  then obtain ev1 d1 where "sse_line C l (ev0, d0, s) = (ev1, d1, s)" by blast
  with Cons.IH[of ev1 d1] Cons.prems show ?case by simp
qed simp

section \<open>Messages\<close>

lemma map_entries_distinct: "distinct (map fst es) \<Longrightarrow> map_entries es = es"
  by (induction es) auto

text \<open>The headers do not depend on the order in which Go walks the map.\<close>

definition header_value :: "string \<Rightarrow> string option" where
  "header_value v = (case json_Unmarshal dec_string v [] of (s, None) \<Rightarrow> Some s | _ \<Rightarrow> None)"

definition is_header :: "string \<Rightarrow> bool" where
  "is_header k \<longleftrightarrow> k \<noteq> ''body'' \<and> k \<noteq> ''query'' \<and> k \<noteq> ''timestamp''"

lemma add_header_eq:
  "add_header (k, v) h = (if is_header k then (case header_value v of Some s \<Rightarrow> header_Set k s h | None \<Rightarrow> h) else h)"
  by (auto simp: add_header_def header_value_def is_header_def split: prod.splits option.splits)

lemma fold_add_header:
  assumes "inj_on canonical_key (fst ` set es)" "distinct (map fst es)"
  shows "fold add_header es h c =
    (case List.find (\<lambda>(k, v). canonical_key k = c \<and> is_header k \<and> header_value v \<noteq> None) es of
       Some (k, v) \<Rightarrow> header_value v | None \<Rightarrow> h c)"
  using assms
proof (induction es arbitrary: h)
  case (Cons e es)
  obtain k v where e: "e = (k, v)" by (cases e)
  have IH: "fold add_header es h' c =
    (case List.find (\<lambda>(k, v). canonical_key k = c \<and> is_header k \<and> header_value v \<noteq> None) es of
       Some (k, v) \<Rightarrow> header_value v | None \<Rightarrow> h' c)" for h'
    using Cons.prems by (intro Cons.IH) (auto intro: inj_on_subset)
  show ?case
  proof (cases "canonical_key k = c \<and> is_header k \<and> header_value v \<noteq> None")
    case True
    have "List.find (\<lambda>(k, v). canonical_key k = c \<and> is_header k \<and> header_value v \<noteq> None) es = None"
      using Cons.prems True by (auto simp: e find_None_iff inj_on_def image_iff)
    with True IH show ?thesis by (auto simp: e add_header_eq header_Set_def)
  next
    case False
    then have "add_header (k, v) h c = h c"
      by (auto simp: add_header_eq header_Set_def split: option.splits)
    with False IH show ?thesis by (auto simp: e split: option.splits)
  qed
qed simp

lemma fold_add_header_get:
  assumes "inj_on canonical_key (fst ` set es)" "distinct (map fst es)"
    "(k, v) \<in> set es" "is_header k"
  shows "header_Get (fold add_header es Map.empty) k = (case header_value v of Some s \<Rightarrow> s | None \<Rightarrow> [])"
proof (cases "header_value v")
  case None
  have "List.find (\<lambda>(k', v). canonical_key k' = canonical_key k \<and> is_header k' \<and> header_value v \<noteq> None) es = None"
    using assms None by (auto simp: find_None_iff inj_on_def) (metis eq_key_imp_eq_value fst_conv image_eqI option.distinct(1))
  with None fold_add_header[OF assms(1,2)] show ?thesis by (simp add: header_Get_def)
next
  case (Some s)
  let ?P = "\<lambda>(k', v). canonical_key k' = canonical_key k \<and> is_header k' \<and> header_value v \<noteq> None"
  have "List.find ?P es \<noteq> None" using assms(3,4) Some by (auto simp: find_None_iff)
  then obtain k' v' where f: "List.find ?P es = Some (k', v')" by fastforce
  then have "(k', v') \<in> set es" "canonical_key k' = canonical_key k"
    by (auto simp: find_Some_iff) (metis nth_mem)
  with assms have "v' = v" by (metis eq_key_imp_eq_value fst_conv image_eqI inj_onD)
  with f Some fold_add_header[OF assms(1,2)] show ?thesis by (simp add: header_Get_def)
qed

text \<open>
  The fields of a message: its headers, and its body, which is the decoded string if smee
  passes a string and the text of the value as it stands otherwise.
\<close>

lemma header_value_doc:
  assumes "json_doc t j" "json_depth j \<le> json_max_depth"
  shows "header_value t = (case j of JStr s \<Rightarrow> Some s | JNull \<Rightarrow> Some [] | _ \<Rightarrow> None)"
  unfolding header_value_def doc_Unmarshal[OF assms] by (cases j) simp_all

lemma extractBody_doc:
  assumes "json_doc t j" "json_depth j \<le> json_max_depth"
  shows "extractBody t = Inr (case j of JStr s \<Rightarrow> s | JNull \<Rightarrow> [] | _ \<Rightarrow> t)"
  using doc_nonempty[OF assms(1)]
  by (cases j) (simp_all add: extractBody_def doc_Unmarshal[OF assms])

lemma mems_doc: "json_mems t ms \<Longrightarrow> (k, u, j) \<in> set ms \<Longrightarrow> json_doc u j"
  by (induction t ms rule: json_doc_json_items_json_mems.inducts(3)
      [where ?P1.0 = "\<lambda>_ _. True" and ?P2.0 = "\<lambda>_ _. True"]) auto

section \<open>What a stream preserves\<close>

text \<open>
  The client's view of its handler: a relation between states, reflexive and transitive,
  that each handled event and each log line keeps.
\<close>

locale event_handler =
  fixes C :: "'s client" and inv :: "'s \<Rightarrow> 's \<Rightarrow> bool"
  assumes inv_refl [simp]: "inv s s"
    and inv_trans: "inv s s' \<Longrightarrow> inv s' s'' \<Longrightarrow> inv s s''"
    and dispatch_inv: "cl_Dispatch C h b s = (e, s') \<Longrightarrow> inv s s'"
    and log_inv: "inv s (cl_Log C lv m s)"
begin

lemma log_after: "inv s s' \<Longrightarrow> inv s (cl_Log C lv m s')"
  by (rule inv_trans[OF _ log_inv])

lemma deliver_inv: "inv s (deliver C h b s)"
proof -
  obtain e s' where d: "cl_Dispatch C h b s = (e, s')" by fastforce
  from dispatch_inv[OF d] log_after show ?thesis
    by (auto simp: deliver_def d split: option.splits)
qed

lemma handleMessage_inv: "inv s (handleMessage C data s)"
proof -
  let ?s1 = "cl_Log C LevelDebug ''sse event received'' s"
  let ?s2 = "if cl_Debug C then cl_Log C LevelDebug ''sse event parsed'' ?s1 else ?s1"
  have "inv s ?s1" "inv s ?s2" by (auto intro: log_inv log_after)
  then show ?thesis
    using inv_trans[OF _ deliver_inv] log_after
    by (auto simp: handleMessage_def Let_def split: option.splits sum.splits)
qed

lemma sse_line_inv: "sse_line C l (ev, d, s) = (ev', d', s') \<Longrightarrow> inv s s'"
  by (auto simp: sse_line_def sse_flush_def handleMessage_inv split: if_splits)

lemma fold_sse_inv: "fold (sse_line C) ls (ev, d, s) = (ev', d', s') \<Longrightarrow> inv s s'"
proof (induction ls arbitrary: ev d s)
  case (Cons l ls)
  obtain ev1 d1 s1 where l: "sse_line C l (ev, d, s) = (ev1, d1, s1)" by (metis prod.exhaust)
  from Cons.prems l have "fold (sse_line C) ls (ev1, d1, s1) = (ev', d', s')" by simp
  from inv_trans[OF sse_line_inv[OF l] Cons.IH[OF this]] show ?case .
qed simp

lemma parseStream_inv: "parseStream C bytes fin s = (e, s') \<Longrightarrow> inv s s'"
  by (auto simp: parseStream_def dest!: fold_sse_inv split: prod.splits option.splits)

end

text \<open>The same for a connection, then for the clock and the waits.\<close>

locale smee_stream = event_handler +
  assumes open_inv: "cl_Open C rq s = (r, s') \<Longrightarrow> inv s s'"
begin

lemma connect_inv:
  assumes "connect C s = (e, s')" shows "inv s s'"
proof (cases "http_NewRequest ''GET'' (cl_URL C) smee_headers")
  case None
  with assms show ?thesis by (simp add: connect_def)
next
  case (Some rq)
  obtain r s1 where o: "cl_Open C rq s = (r, s1)" by fastforce
  note i = open_inv[OF o]
  show ?thesis
  proof (cases r)
    case (Inl x)
    with assms Some o i show ?thesis by (simp add: connect_def)
  next
    case (Inr st)
    with assms Some o i inv_trans[OF log_after[OF i] parseStream_inv] show ?thesis
      by (auto simp: connect_def split: if_splits)
  qed
qed

end

locale smee_connection = smee_stream +
  assumes done_inv: "cl_Done C s = (b, s') \<Longrightarrow> inv s s'"
    and now_inv: "cl_Now C s = (t, s') \<Longrightarrow> inv s s'"
    and wait_inv: "cl_Wait C d s = (b, s') \<Longrightarrow> inv s s'"
begin

lemma smee_turn_inv:
  assumes "smee_turn C b s = (r, s')" shows "inv s s'"
proof -
  obtain dn s1 where 1: "cl_Done C s = (dn, s1)" by fastforce
  obtain t0 s2 where 2: "cl_Now C s1 = (t0, s2)" by fastforce
  obtain e s3 where 3: "connect C s2 = (e, s3)" by fastforce
  define s4 where "s4 = (if errors_Is e ErrCanceled then s3
                     else cl_Log C LevelWarn ''smee connection lost'' s3)"
  obtain t1 s5 where 5: "cl_Now C s4 = (t1, s5)" by fastforce
  define b' where "b' = (if maxBackoff \<le> t1 - t0 then second else b)"
  obtain c s6 where 6: "cl_Wait C b' s5 = (c, s6)" by fastforce
  have a: "inv s s1" using 1 by (rule done_inv)
  have "inv s s3" using inv_trans[OF a inv_trans[OF now_inv[OF 2] connect_inv[OF 3]]] .
  then have "inv s s4" by (simp add: s4_def log_after)
  then have "inv s s6" using inv_trans[OF now_inv[OF 5] wait_inv[OF 6]] inv_trans by blast
  moreover have "s' = s1 \<or> s' = s6"
    using assms 1 2 3 5 6
    by (auto simp: smee_turn_def s4_def[symmetric] b'_def[symmetric] Let_def split: if_splits bool.splits)
  ultimately show ?thesis using a by blast
qed

lemma smee_loop_inv:
  assumes "smee_loop C b s = Some (e, s')" shows "inv s s'"
proof -
  have "C = C \<longrightarrow> inv s (snd (e, s'))"
  proof (rule smee_loop.raw_induct[where P = "\<lambda>C' b s y. C' = C \<longrightarrow> inv s (snd y)"])
    fix loop C' b s y
    assume IH: "\<And>C' b s y. loop C' b s = Some y \<Longrightarrow> C' = C \<longrightarrow> inv s (snd y)"
      and st: "(case smee_turn C' b s of (Inl e, s') \<Rightarrow> Some (e, s') | (Inr b, s') \<Rightarrow> loop C' b s') = Some y"
    show "C' = C \<longrightarrow> inv s (snd y)"
    proof
      assume C: "C' = C"
      obtain r s1 where t: "smee_turn C b s = (r, s1)" by fastforce
      note i = smee_turn_inv[OF t]
      show "inv s (snd y)"
      proof (cases r)
        case (Inl x)
        with st t C i show ?thesis by auto
      next
        case (Inr b1)
        with st t C have "loop C b1 s1 = Some y" by simp
        from IH[OF this] inv_trans[OF i] show ?thesis by simp
      qed
    qed
  qed (rule assms)
  then show ?thesis by simp
qed

end

section \<open>The waits\<close>

text \<open>
  The wait before each reconnect, from the backoff and how long the connection lasted, and
  the waits of a run of connections.
\<close>

definition wait_of :: "int \<Rightarrow> int \<Rightarrow> int" where
  "wait_of b up = (if maxBackoff \<le> up then second else b)"

fun waits :: "int \<Rightarrow> int list \<Rightarrow> int list" where
  "waits b [] = []"
| "waits b (u # us) = wait_of b u # waits (capDuration (wait_of b u * 2) maxBackoff) us"

text \<open>Connections since the last one that lasted 30 seconds, that one included.\<close>

fun streak :: "nat \<Rightarrow> int list \<Rightarrow> nat" where
  "streak k [] = k"
| "streak k (u # us) = streak (if maxBackoff \<le> u then 1 else Suc k) us"

lemma capDuration_double:
  "capDuration (min maxBackoff (second * 2 ^ k) * 2) maxBackoff = min maxBackoff (second * 2 ^ Suc k)"
  by (auto simp: capDuration_def maxBackoff_def second_def min_def)

lemma waits_nth:
  "i < length us \<Longrightarrow> waits (min maxBackoff (second * 2 ^ k)) us ! i
     = min maxBackoff (second * 2 ^ (streak k (take (Suc i) us) - 1))"
proof (induction us arbitrary: k i)
  case Nil
  then show ?case by simp
next
  case (Cons u us)
  let ?k = "if maxBackoff \<le> u then 0 else k"
  have w: "wait_of (min maxBackoff (second * 2 ^ k)) u = min maxBackoff (second * 2 ^ ?k)"
    by (auto simp: wait_of_def maxBackoff_def second_def)
  show ?case
  proof (cases i)
    case 0
    with w show ?thesis by auto
  next
    case (Suc j)
    then have "j < length us" using Cons.prems by simp
    from Cons.IH[OF this, of "Suc ?k"] Suc show ?thesis
      by (simp only: waits.simps w capDuration_double nth_Cons_Suc take_Suc_Cons streak.simps) auto
  qed
qed

text \<open>
  The client with its waits and clock readings written down beside its state.
\<close>

type_synonym 's timed = "'s \<times> int list \<times> int list"

definition timed :: "'s client \<Rightarrow> 's timed client" where
  "timed C = \<lparr>cl_URL = cl_URL C,
     cl_Dispatch = (\<lambda>h b (s, x). case cl_Dispatch C h b s of (e, s') \<Rightarrow> (e, (s', x))),
     cl_Log = (\<lambda>lv m (s, x). (cl_Log C lv m s, x)),
     cl_Debug = cl_Debug C, cl_IgnoredErr = cl_IgnoredErr C, cl_BadSigErr = cl_BadSigErr C,
     cl_Range = cl_Range C,
     cl_Open = (\<lambda>rq (s, x). case cl_Open C rq s of (r, s') \<Rightarrow> (r, (s', x))),
     cl_Done = (\<lambda>(s, x). case cl_Done C s of (b, s') \<Rightarrow> (b, (s', x))),
     cl_Now = (\<lambda>(s, ds, ts). case cl_Now C s of (t, s') \<Rightarrow> (t, (s', ds, ts @ [t]))),
     cl_Wait = (\<lambda>d (s, ds, ts). case cl_Wait C d s of (b, s') \<Rightarrow> (b, (s', ds @ [d], ts)))\<rparr>"

text \<open>The durations between the first and the second, the third and the fourth reading, ...\<close>

fun lasted :: "int list \<Rightarrow> int list" where
  "lasted (t0 # t1 # ts) = (t1 - t0) # lasted ts"
| "lasted _ = []"

text \<open>The loop only ever returns the error of the context.\<close>

lemma smee_turn_canceled: "smee_turn C b s = (Inl e, s') \<Longrightarrow> e = ErrCanceled"
  by (auto simp: smee_turn_def Let_def split: prod.splits bool.splits if_splits)

lemma smee_loop_canceled:
  assumes "smee_loop C b s = Some y" shows "fst y = ErrCanceled"
proof (rule smee_loop.raw_induct[where P = "\<lambda>C b s y. fst y = ErrCanceled", OF _ assms])
  fix loop C b s and y :: "err \<times> 'a"
  assume "\<And>C b s y. loop C b s = Some y \<Longrightarrow> fst y = ErrCanceled"
    and "(case smee_turn C b s of (Inl e, s') \<Rightarrow> Some (e, s') | (Inr b, s') \<Rightarrow> loop C b s') = Some y"
  then show "fst y = ErrCanceled"
    by (auto split: prod.splits sum.splits dest: smee_turn_canceled)
qed

text \<open>
  A bound on the turns left before the context is done: no operation raises it and every
  wait that runs out lowers it.
\<close>

locale canceled_in_time = smee_connection C "\<lambda>s s'. left s' \<le> (left s :: nat)"
    for C :: "'s client" and left :: "'s \<Rightarrow> nat" +
  assumes wait_less: "cl_Wait C d s = (False, s') \<Longrightarrow> left s' < left s"
begin

definition tinv :: "'s timed \<Rightarrow> 's timed \<Rightarrow> bool" where
  "tinv x y \<longleftrightarrow> left (fst y) \<le> left (fst x) \<and> snd y = snd x"

lemma timed_stream: "smee_stream (timed C) tinv"
  by unfold_locales
     (auto simp: tinv_def timed_def dest: dispatch_inv open_inv split: prod.splits intro: log_inv)

lemma timed_connect: "connect (timed C) (s, x) = (e, (s', x')) \<Longrightarrow> left s' \<le> left s \<and> x' = x"
  using smee_stream.connect_inv[OF timed_stream, of "(s, x)" e "(s', x')"] by (simp add: tinv_def)

text \<open>One turn of the timed client.\<close>

lemma timed_turn:
  assumes "smee_turn (timed C) b (s, ds, ts) = (r, (s', ds', ts'))"
  obtains
    "r = Inl ErrCanceled" "ds' = ds" "ts' = ts"
  | t0 t1 where "r = Inl ErrCanceled" "ds' = ds @ [wait_of b (t1 - t0)]" "ts' = ts @ [t0, t1]"
  | t0 t1 where "r = Inr (capDuration (wait_of b (t1 - t0) * 2) maxBackoff)"
      "ds' = ds @ [wait_of b (t1 - t0)]" "ts' = ts @ [t0, t1]" "left s' < left s"
proof -
  obtain dn s1 where 1: "cl_Done C s = (dn, s1)" by fastforce
  obtain t0 s2 where 2: "cl_Now C s1 = (t0, s2)" by fastforce
  obtain e s3 x3 where c: "connect (timed C) (s2, ds, ts @ [t0]) = (e, (s3, x3))" by (metis prod.exhaust)
  have c3: "left s3 \<le> left s2" "x3 = (ds, ts @ [t0])" using timed_connect[OF c] by simp_all
  define s4 where "s4 = (if errors_Is e ErrCanceled then s3
                     else cl_Log C LevelWarn ''smee connection lost'' s3)"
  obtain t1 s5 where 5: "cl_Now C s4 = (t1, s5)" by fastforce
  define b' where "b' = wait_of b (t1 - t0)"
  obtain cn s6 where 6: "cl_Wait C b' s5 = (cn, s6)" by fastforce
  have "left s4 \<le> left s3" using log_inv by (simp add: s4_def)
  with done_inv[OF 1] now_inv[OF 2] c3(1) now_inv[OF 5] have le: "left s5 \<le> left s" by linarith
  have turn: "smee_turn (timed C) b (s, ds, ts) =
      (if dn then (Inl ErrCanceled, (s1, ds, ts))
       else if cn then (Inl ErrCanceled, (s6, ds @ [b'], ts @ [t0, t1]))
       else (Inr (capDuration (b' * 2) maxBackoff), (s6, ds @ [b'], ts @ [t0, t1])))"
    using 1 2 c c3(2) 5 6
    by (auto simp: smee_turn_def timed_def[of C, THEN arg_cong[where f = cl_Done]]
        timed_def[of C, THEN arg_cong[where f = cl_Now]] timed_def[of C, THEN arg_cong[where f = cl_Wait]]
        timed_def[of C, THEN arg_cong[where f = cl_Log]] s4_def b'_def wait_of_def Let_def)
  show ?thesis
  proof (cases dn)
    case True
    with turn assms that(1) show ?thesis by simp
  next
    case False
    show ?thesis
    proof (cases cn)
      case True
      with turn assms False that(2)[of t1 t0] show ?thesis by (simp add: b'_def)
    next
      case cn: False
      with wait_less[of b' s5 s6] 6 le have "left s6 < left s" by simp
      with turn assms False cn that(3)[of t1 t0] show ?thesis by (simp add: b'_def)
    qed
  qed
qed

lemma timed_loop:
  "\<exists>s' us ts'. smee_loop (timed C) b (s, ds, ts) =
     Some (ErrCanceled, (s', ds @ waits b us, ts @ ts')) \<and> lasted ts' = us"
proof (induction "left s" arbitrary: b s ds ts rule: less_induct)
  case less
  obtain r s1 ds1 ts1 where t: "smee_turn (timed C) b (s, ds, ts) = (r, (s1, ds1, ts1))"
    by (metis prod.exhaust)
  from t show ?case
  proof (cases rule: timed_turn)
    case 1
    with t show ?thesis
      by (intro exI[where x = s1] exI[where x = "[]"]) (simp add: smee_loop.simps)
  next
    case (2 t0 t1)
    with t show ?thesis
      by (intro exI[where x = s1] exI[where x = "[t1 - t0]"] exI[where x = "[t0, t1]"])
         (simp add: smee_loop.simps)
  next
    case (3 t0 t1)
    from less[OF 3(4), of "capDuration (wait_of b (t1 - t0) * 2) maxBackoff" ds1 ts1]
    obtain s' us ts' where
      "smee_loop (timed C) (capDuration (wait_of b (t1 - t0) * 2) maxBackoff) (s1, ds1, ts1) =
        Some (ErrCanceled, (s', ds1 @ waits (capDuration (wait_of b (t1 - t0) * 2) maxBackoff) us, ts1 @ ts'))"
      "lasted ts' = us" by blast
    with t 3 show ?thesis
      by (intro exI[where x = s'] exI[where x = "(t1 - t0) # us"] exI[where x = "t0 # t1 # ts'"])
         (simp add: smee_loop.simps[of "timed C" b])
  qed
qed

lemma turn_less:
  assumes "smee_turn C b s = (Inr b', s')" shows "left s' < left s"
proof -
  obtain s1 where 1: "cl_Done C s = (False, s1)"
    using assms by (cases "cl_Done C s") (auto simp: smee_turn_def split: bool.splits)
  obtain t0 s2 where 2: "cl_Now C s1 = (t0, s2)" by fastforce
  obtain e s3 where 3: "connect C s2 = (e, s3)" by fastforce
  define s4 where "s4 = (if errors_Is e ErrCanceled then s3
                     else cl_Log C LevelWarn ''smee connection lost'' s3)"
  obtain t1 s5 where 5: "cl_Now C s4 = (t1, s5)" by fastforce
  obtain d where "cl_Wait C d s5 = (False, s')"
    using assms 1 2 3 5
    by (auto simp: smee_turn_def s4_def[symmetric] Let_def split: prod.splits bool.splits)
  then have "left s' < left s5" by (rule wait_less)
  moreover have "left s4 \<le> left s3" using log_inv by (simp add: s4_def)
  ultimately show ?thesis using done_inv[OF 1] now_inv[OF 2] connect_inv[OF 3] now_inv[OF 5] by linarith
qed

lemma loop_returns: "\<exists>s'. smee_loop C b s = Some (ErrCanceled, s')"
proof (induction "left s" arbitrary: b s rule: less_induct)
  case less
  obtain r s1 where t: "smee_turn C b s = (r, s1)" by fastforce
  show ?case
  proof (cases r)
    case (Inl e)
    with t smee_turn_canceled show ?thesis by (simp add: smee_loop.simps)
  next
    case (Inr b1)
    with less[OF turn_less[OF t[unfolded Inr]]] t show ?thesis by (simp add: smee_loop.simps[of C b])
  qed
qed

end

end
