(* ===== verification/Webhook.thy ===== *)
theory Webhook
  imports Spawner Go_Http Go_Crypto
begin

text \<open>
  \<open>internal/webhook\<close>: the signature check of a delivery and \<open>Dispatch\<close>, which turns a
  \<open>workflow_job\<close> event into a \<open>Spawn\<close>. The handler's configuration is fixed; the shared
  spawner and the world are passed through. The lemmas give the exact condition under
  which a delivery reaches \<open>Spawn\<close>, and what is returned otherwise.
\<close>

section \<open>Signatures\<close>

definition VerifySignature :: "string \<Rightarrow> string \<Rightarrow> string \<Rightarrow> bool" where
  "VerifySignature body header secret =
     (if \<not> HasPrefix header ''sha256='' then False
      else case hex_DecodeString (TrimPrefix header ''sha256='') of
        None \<Rightarrow> False
      | Some got \<Rightarrow> ConstantTimeCompare got (hmac_sha256 secret body) = 1)"

lemma VerifySignature_iff:
  "VerifySignature body header secret \<longleftrightarrow>
     (\<exists>sig. header = ''sha256='' @ sig \<and> hex_DecodeString sig = Some (hmac_sha256 secret body))"
  by (auto simp: VerifySignature_def HasPrefix_iff ConstantTimeCompare_eq
      TrimPrefix_append[of "''sha256=''", simplified] split: option.splits)

section \<open>Events\<close>

record WorkflowJob =
  wj_Status :: string
  wj_Conclusion :: string
  wj_Labels :: "string list"
  wj_RunnerName :: string
  wj_WorkflowURL :: string

record Repo =
  rp_FullName :: string

record WorkflowJobEvent =
  ev_Action :: string
  ev_WorkflowJob :: WorkflowJob
  ev_Repository :: Repo

definition zero_event :: WorkflowJobEvent where
  "zero_event = \<lparr>ev_Action = [],
     ev_WorkflowJob = \<lparr>wj_Status = [], wj_Conclusion = [], wj_Labels = [], wj_RunnerName = [],
       wj_WorkflowURL = []\<rparr>,
     ev_Repository = \<lparr>rp_FullName = []\<rparr>\<rparr>"

definition dec_WorkflowJob :: "WorkflowJob dec" where
  "dec_WorkflowJob = dec_struct
     [(''status'', dec_field wj_Status (\<lambda>x. wj_Status_update (\<lambda>_. x)) dec_string),
      (''conclusion'', dec_field wj_Conclusion (\<lambda>x. wj_Conclusion_update (\<lambda>_. x)) dec_string),
      (''labels'', dec_field wj_Labels (\<lambda>x. wj_Labels_update (\<lambda>_. x)) (dec_slice dec_string [])),
      (''runner_name'', dec_field wj_RunnerName (\<lambda>x. wj_RunnerName_update (\<lambda>_. x)) dec_string),
      (''workflow_url'', dec_field wj_WorkflowURL (\<lambda>x. wj_WorkflowURL_update (\<lambda>_. x)) dec_string)]"

definition dec_event :: "WorkflowJobEvent dec" where
  "dec_event = dec_struct
     [(''action'', dec_field ev_Action (\<lambda>x. ev_Action_update (\<lambda>_. x)) dec_string),
      (''workflow_job'', dec_field ev_WorkflowJob (\<lambda>x. ev_WorkflowJob_update (\<lambda>_. x)) dec_WorkflowJob),
      (''repository'', dec_field ev_Repository (\<lambda>x. ev_Repository_update (\<lambda>_. x))
         (dec_struct [(''full_name'', dec_field rp_FullName (\<lambda>x. rp_FullName_update (\<lambda>_. x)) dec_string)]))]"

section \<open>Dispatch\<close>

text \<open>The map of lower-cased wanted labels is a set; the job's labels are tried in order.\<close>

definition labelMatches :: "'w env \<Rightarrow> string list \<Rightarrow> string list \<Rightarrow> bool" where
  "labelMatches E jobLabels want =
     (let wantSet = set (map (lower E) want) in list_ex (\<lambda>l. lower E l \<in> wantSet) jobLabels)"

definition Dispatch ::
  "'w env \<Rightarrow> Config \<Rightarrow> header \<Rightarrow> string \<Rightarrow> spawner \<Rightarrow> 'w \<Rightarrow> err option \<times> spawner \<times> 'w" where
  "Dispatch E cfg headers body sp w =
     (if cfg_VerifyHMAC cfg \<and>
         \<not> VerifySignature body (header_Get headers ''X-Hub-Signature-256'') (cfg_WebhookSecret cfg)
      then (Some ErrBadSignature, sp, w)
      else if header_Get headers ''X-Github-Event'' \<noteq> ''workflow_job'' then (Some ErrIgnored, sp, w)
      else case json_Unmarshal dec_event body zero_event of
        (_, Some e) \<Rightarrow> (Some (ErrWrap ''parse event: '' e []), sp, w)
      | (evt, None) \<Rightarrow>
          if ev_Action evt \<noteq> ''queued''
          then (Some ErrIgnored, sp, slog E LevelDebug ''ignoring non-queued action'' w)
          else case RepoByName cfg (rp_FullName (ev_Repository evt)) of
            None \<Rightarrow> (Some ErrIgnored, sp, slog E LevelDebug ''unknown repo, ignoring'' w)
          | Some repoCfg \<Rightarrow>
              if \<not> labelMatches E (wj_Labels (ev_WorkflowJob evt)) (rc_MatchLabels repoCfg)
              then (Some ErrIgnored, sp, slog E LevelDebug ''labels do not match'' w)
              else Spawn E repoCfg sp (slog E LevelInfo ''dispatching spawn'' w))"

lemma labelMatches_iff:
  "labelMatches E ls ws \<longleftrightarrow> (\<exists>l \<in> set ls. \<exists>m \<in> set ws. lower E l = lower E m)"
  by (auto simp: labelMatches_def list_ex_iff)

section \<open>What a delivery has to be\<close>

text \<open>
  The contract: signed with the secret when verification is on, a \<open>workflow_job\<close> event
  that decodes, of action \<open>queued\<close>, for a configured repo, whose job wants one of the
  repo's labels up to case.
\<close>

definition authentic :: "Config \<Rightarrow> header \<Rightarrow> string \<Rightarrow> bool" where
  "authentic cfg headers body \<longleftrightarrow> cfg_VerifyHMAC cfg \<longrightarrow>
     (\<exists>sig. header_Get headers ''X-Hub-Signature-256'' = ''sha256='' @ sig
        \<and> hex_DecodeString sig = Some (hmac_sha256 (cfg_WebhookSecret cfg) body))"

definition asks_for :: "'w env \<Rightarrow> Config \<Rightarrow> WorkflowJobEvent \<Rightarrow> RepoConfig \<Rightarrow> bool" where
  "asks_for E cfg evt repo \<longleftrightarrow> ev_Action evt = ''queued''
     \<and> RepoByName cfg (rp_FullName (ev_Repository evt)) = Some repo
     \<and> (\<exists>l \<in> set (wj_Labels (ev_WorkflowJob evt)). \<exists>m \<in> set (rc_MatchLabels repo). lower E l = lower E m)"

definition admitted :: "'w env \<Rightarrow> Config \<Rightarrow> header \<Rightarrow> string \<Rightarrow> RepoConfig \<Rightarrow> bool" where
  "admitted E cfg headers body repo \<longleftrightarrow> authentic cfg headers body
     \<and> header_Get headers ''X-Github-Event'' = ''workflow_job''
     \<and> (\<exists>evt. json_Unmarshal dec_event body zero_event = (evt, None) \<and> asks_for E cfg evt repo)"

lemma authentic_iff:
  "authentic cfg headers body \<longleftrightarrow> \<not> (cfg_VerifyHMAC cfg \<and>
     \<not> VerifySignature body (header_Get headers ''X-Hub-Signature-256'') (cfg_WebhookSecret cfg))"
  by (auto simp: authentic_def VerifySignature_iff)

lemma Dispatch_unsigned:
  "\<not> authentic cfg headers body \<Longrightarrow> Dispatch E cfg headers body sp w = (Some ErrBadSignature, sp, w)"
  by (simp add: Dispatch_def authentic_iff)

lemma Dispatch_admitted:
  "admitted E cfg headers body repo \<Longrightarrow>
     Dispatch E cfg headers body sp w = Spawn E repo sp (slog E LevelInfo ''dispatching spawn'' w)"
  by (auto simp: Dispatch_def admitted_def authentic_iff asks_for_def labelMatches_iff)

lemma Dispatch_refused:
  assumes "authentic cfg headers body" "\<And>repo. \<not> admitted E cfg headers body repo"
  obtains e w' where "Dispatch E cfg headers body sp w = (Some e, sp, w')"
    "e = ErrIgnored \<or> (\<exists>x. e = ErrWrap ''parse event: '' x [])"
    "w' = w \<or> (\<exists>m. w' = slog E LevelDebug m w)"
proof (cases "header_Get headers ''X-Github-Event'' = ''workflow_job''")
  case False
  with assms(1) that show ?thesis by (auto simp: Dispatch_def authentic_iff)
next
  case ev: True
  obtain evt p where p: "json_Unmarshal dec_event body zero_event = (evt, p)" by fastforce
  show ?thesis
  proof (cases p)
    case (Some x)
    with assms(1) ev p that show ?thesis by (auto simp: Dispatch_def authentic_iff)
  next
    case None
    with assms ev p have "\<not> asks_for E cfg evt repo" for repo by (auto simp: admitted_def)
    with assms(1) ev p None have "\<exists>m. Dispatch E cfg headers body sp w = (Some ErrIgnored, sp, slog E LevelDebug m w)"
      by (cases "RepoByName cfg (rp_FullName (ev_Repository evt))")
         (auto simp: Dispatch_def authentic_iff asks_for_def labelMatches_iff)
    with that show ?thesis by blast
  qed
qed

end
