(* ===== verification/Docker_Host.thy ===== *)
theory Docker_Host
  imports Spawner
begin

text \<open>
  The contract between the spawner and the docker daemon, as a locale: what
  \<open>docker ps\<close>, \<open>docker inspect\<close> and \<open>docker run\<close> answer about the running managed
  containers, and that no other call of the spawner starts one. The spawner's lemmas
  about the count, one launch and one \<open>Spawn\<close> are proved inside it.
\<close>

text \<open>The highest cap a list of repos gives a name; 0 if it has none.\<close>

definition cap_of :: "RepoConfig list \<Rightarrow> string \<Rightarrow> int" where
  "cap_of rs n = foldr max (map rc_MaxConcurrency (filter (\<lambda>r. rc_Name r = n) rs)) 0"

lemma foldr_max_ge: "x \<in> set xs \<Longrightarrow> x \<le> foldr max xs (a :: int)"
  by (induction xs) (auto simp: le_max_iff_disj)

lemma cap_of_ge: "repo \<in> set rs \<Longrightarrow> rc_MaxConcurrency repo \<le> cap_of rs (rc_Name repo)"
  unfolding cap_of_def by (rule foldr_max_ge) auto

text \<open>
  From one world to another each repo's name keeps at most its cap of running containers,
  or what it had before if that was more.
\<close>

definition caps_kept ::
  "('w \<Rightarrow> string \<Rightarrow> string set) \<Rightarrow> RepoConfig list \<Rightarrow> 'w \<Rightarrow> 'w \<Rightarrow> bool" where
  "caps_kept live rs w w' \<longleftrightarrow>
     (\<forall>n. int (card (live w' n)) \<le> max (int (card (live w n))) (cap_of rs n))"

lemma caps_kept_trans:
  "caps_kept live rs w w' \<Longrightarrow> caps_kept live rs w' w'' \<Longrightarrow> caps_kept live rs w w''"
  unfolding caps_kept_def by (meson max.bounded_iff max.cobounded2 order_trans)

text \<open>Between states, the caps of all repos are kept.\<close>

definition state_caps_kept ::
  "('w \<Rightarrow> string \<Rightarrow> string set) \<Rightarrow> RepoConfig list \<Rightarrow> spawner \<times> 'w \<Rightarrow> spawner \<times> 'w \<Rightarrow> bool" where
  "state_caps_kept live rs x y = caps_kept live rs (snd x) (snd y)"

text \<open>
  \<open>running w\<close> are the ids of all containers that run at world \<open>w\<close>, \<open>live w r\<close> those of
  them the spawner started for repo \<open>r\<close> (they carry its two labels). Containers may stop
  at any time, so a call may shrink both.
\<close>

locale docker_host =
  fixes E :: "'w env"
    and running :: "'w \<Rightarrow> string set"
    and live :: "'w \<Rightarrow> string \<Rightarrow> string set"
  assumes live_finite [simp]: "finite (live w r)"
    and live_running: "live w r \<subseteq> running w"
    and ps_lists: "docker_Exec E (ps_args r) w = ((out, er, None), w') \<Longrightarrow>
        live w r \<subseteq> set (Fields (TrimSpace out)) \<and> distinct (Fields (TrimSpace out))
        \<and> set (Fields (TrimSpace out)) \<inter> running w \<subseteq> live w r"
    and ps_quiet: "shrinks live (docker_Exec E (ps_args r))"
    and ps_running: "shrinks running (docker_Exec E (ps_args r))"
    and inspect_counts: "ids \<noteq> [] \<Longrightarrow> docker_Exec E (inspect_args ids) w = ((out, er, None), w') \<Longrightarrow>
        running_lines out = count_where (\<lambda>i. i \<in> running w) ids"
    and inspect_quiet: "shrinks live (docker_Exec E (inspect_args ids))"
    and run_adds_one:
      "docker_Exec E (docker_run_args nm ef repo img) w = (res, w') \<Longrightarrow>
        \<exists>i. \<forall>r. live w' r \<subseteq> (if r = rc_Name repo then insert i (live w r) else live w r)"
    and http_quiet: "shrinks live (http_Do E rq)"
    and rand_quiet: "shrinks live (rand_Read E n)"
    and create_quiet: "shrinks live (os_CreateTemp E)"
    and chmod_quiet: "shrinks live (os_Chmod E p m)"
    and write_quiet: "shrinks live (os_WriteString E p txt)"
    and close_quiet: "shrinks live (os_Close E p)"
    and remove_quiet: "shrinks live (os_Remove E p)"
    and slog_quiet: "live (slog E lv msg w) \<le> live w"
begin

lemmas quiet = shrinksD[OF ps_quiet] shrinksD[OF inspect_quiet] shrinksD[OF http_quiet]
  shrinksD[OF rand_quiet] shrinksD[OF create_quiet] shrinksD[OF chmod_quiet]
  shrinksD[OF write_quiet] shrinksD[OF close_quiet] shrinksD[OF remove_quiet]

lemma live_card_mono: "live w' \<le> live w \<Longrightarrow> card (live w' r) \<le> card (live w r)"
  by (intro card_mono) (auto simp: le_fun_def)

lemma snd_remove_quiet: "live (snd (os_Remove E p w)) \<le> live w"
  using remove_quiet by (simp add: shrinks_def)

lemma snd_close_quiet: "live (snd (os_Close E p w)) \<le> live w"
  using close_quiet by (simp add: shrinks_def)

lemma randHex_quiet: "randHex E n w = (h, w') \<Longrightarrow> live w' \<le> live w"
  by (auto simp: randHex_def dest: quiet split: prod.splits)

lemma hasIdle_quiet: "hasIdleMatchingRunner E s repo w = (r, w') \<Longrightarrow> live w' \<le> live w"
  by (auto simp: hasIdleMatchingRunner_def dest: quiet
      split: option.splits prod.splits sum.splits if_splits)

lemma spawn_idle_quiet:
  assumes "spawn_idle E repo s w = (b, s', w')" shows "live w' \<le> live w"
  using assms
proof (cases rule: spawn_idle_cases)
  case (skip w1)
  with order_trans[OF slog_quiet hasIdle_quiet] show ?thesis by simp
next
  case busy
  then show ?thesis using hasIdle_quiet by simp
next
  case (failed er w1 lv m)
  with order_trans[OF slog_quiet hasIdle_quiet] show ?thesis by simp
qed

lemma list_ids_quiet: "list_ids E r w = (x, w') \<Longrightarrow> live w' \<le> live w"
  by (auto simp: list_ids_def dest: quiet split: prod.splits option.splits)

lemma count_ids_quiet: "count_ids E ids w = (x, w') \<Longrightarrow> live w' \<le> live w"
  by (auto simp: count_ids_def dest: quiet split: prod.splits option.splits if_splits)

lemma countRunning_quiet: "countRunning E r w = (x, w') \<Longrightarrow> live w' \<le> live w"
proof -
  assume a: "countRunning E r w = (x, w')"
  obtain y w1 where l: "list_ids E r w = (y, w1)" by fastforce
  note l1 = list_ids_quiet[OF l]
  show ?thesis
  proof (cases y)
    case (Inl e)
    with a l l1 show ?thesis by (simp add: countRunning_def)
  next
    case (Inr ids)
    with a l have "count_ids E ids w1 = (x, w')" by (simp add: countRunning_def)
    from order_trans[OF count_ids_quiet[OF this] l1] show ?thesis .
  qed
qed

lemma decide_quiet: "spawn_decide E repo n s w = Some (e, s', w') \<Longrightarrow> live w' \<le> live w"
  using slog_quiet by (auto simp: spawn_decide_def split: sum.splits if_splits)

text \<open>
  The ids listed cover the containers alive, in any later world too as long as no new
  one of the repo was started; the count of those ids is between the number alive at the
  inspection and the number alive at the listing.
\<close>

lemma list_ids_covers:
  assumes "list_ids E r w = (Inr ids, w')"
  shows "live w' r \<subseteq> set ids" "distinct ids" "set ids \<inter> running w' \<subseteq> live w r"
proof -
  from assms obtain out er where d: "docker_Exec E (ps_args r) w = ((out, er, None), w')"
    and i: "ids = Fields (TrimSpace out)"
    by (auto simp: list_ids_def split: prod.splits option.splits)
  from quiet(1)[OF d] shrinksD[OF ps_running d] ps_lists[OF d] i
  show "live w' r \<subseteq> set ids" "distinct ids" "set ids \<inter> running w' \<subseteq> live w r"
    unfolding le_fun_def by blast+
qed

lemma count_ids_running:
  assumes "count_ids E ids w = (Inr k, w')"
  shows "k = int (count_where (\<lambda>i. i \<in> running w) ids)"
proof (cases "ids = []")
  case True
  with assms show ?thesis by (simp add: count_ids_def)
next
  case False
  with assms obtain out er where
    d: "docker_Exec E (inspect_args ids) w = ((out, er, None), w')" and k: "k = int (running_lines out)"
    by (auto simp: count_ids_def split: prod.splits option.splits)
  with inspect_counts[OF False d] show ?thesis by simp
qed

lemma count_ids_lower:
  assumes "live w r \<subseteq> set ids" "count_ids E ids w = (Inr k, w')"
  shows "int (card (live w r)) \<le> k"
proof -
  have "card (live w r \<inter> set ids) \<le> count_where (\<lambda>i. i \<in> running w) ids"
    by (rule card_inter_set_le_count) (use live_running in blast)
  moreover have "live w r \<inter> set ids = live w r" using assms(1) by blast
  ultimately show ?thesis using count_ids_running[OF assms(2)] by simp
qed

lemma count_ids_upper:
  assumes "distinct ids" "set ids \<inter> running w \<subseteq> L" "finite L" "count_ids E ids w = (Inr k, w')"
  shows "k \<le> int (card L)"
proof -
  have "distinct (filter (\<lambda>i. i \<in> running w) ids)" using assms(1) by simp
  from distinct_card[OF this]
  have "count_where (\<lambda>i. i \<in> running w) ids = card (set (filter (\<lambda>i. i \<in> running w) ids))"
    by (simp add: count_where_def)
  also have "\<dots> \<le> card L" using assms(2,3) by (intro card_mono) auto
  finally show ?thesis using count_ids_running[OF assms(4)] by simp
qed

lemma countRunning_bounds:
  assumes "countRunning E r w = (Inr k, w')"
  shows "int (card (live w' r)) \<le> k \<and> k \<le> int (card (live w r))"
proof -
  from assms obtain ids w1 where l: "list_ids E r w = (Inr ids, w1)"
    and c: "count_ids E ids w1 = (Inr k, w')"
    by (auto simp: countRunning_def split: prod.splits sum.splits)
  note cov = list_ids_covers[OF l]
  from count_ids_lower[OF cov(1) c] live_card_mono[OF count_ids_quiet[OF c], of r]
    count_ids_upper[OF cov(2,3) live_finite c]
  show ?thesis by simp
qed

text \<open>One launch starts at most one container, of its own repo.\<close>

lemma writePATEnvFile_quiet:
  assumes "writePATEnvFile E pat w = (x, w')" shows "live w' \<le> live w"
  using assms
proof (cases rule: writePATEnvFile_cases)
  case (create e)
  then show ?thesis by (auto dest: quiet)
next
  case (chmod p w1 e w2)
  note order_trans[OF quiet(6)[OF chmod(2)] quiet(5)[OF chmod(1)]]
  from order_trans[OF snd_remove_quiet order_trans[OF snd_close_quiet this]] chmod show ?thesis
    by simp
next
  case (writing p w1 w2 e w3)
  note order_trans[OF quiet(7)[OF writing(3)] order_trans[OF quiet(6)[OF writing(2)] quiet(5)[OF writing(1)]]]
  from order_trans[OF snd_remove_quiet order_trans[OF snd_close_quiet this]] writing show ?thesis
    by simp
next
  case (closing p w1 w2 w3 e w4)
  note order_trans[OF quiet(7)[OF closing(3)] order_trans[OF quiet(6)[OF closing(2)] quiet(5)[OF closing(1)]]]
  from order_trans[OF snd_remove_quiet order_trans[OF quiet(8)[OF closing(4)] this]] closing
  show ?thesis by simp
next
  case (written p w1 w2 w3)
  from order_trans[OF quiet(8)[OF written(4)] order_trans[OF quiet(7)[OF written(3)]
      order_trans[OF quiet(6)[OF written(2)] quiet(5)[OF written(1)]]]]
  show ?thesis .
qed

definition one_more :: "string \<Rightarrow> 'w \<Rightarrow> 'w \<Rightarrow> bool" where
  "one_more name w w' \<longleftrightarrow>
     (\<exists>i. \<forall>r. live w' r \<subseteq> (if r = name then insert i (live w r) else live w r))"

lemma one_more_quiet: "live w' \<le> live w \<Longrightarrow> one_more name w w'"
  by (auto simp: one_more_def le_fun_def)

lemma one_more_mono:
  assumes "one_more name w1 w2" "live w1 \<le> live w0" "live w3 \<le> live w2"
  shows "one_more name w0 w3"
proof -
  from assms(1) obtain i where
    i: "\<And>r. live w2 r \<subseteq> (if r = name then insert i (live w1 r) else live w1 r)"
    unfolding one_more_def by blast
  have "live w3 r \<subseteq> (if r = name then insert i (live w0 r) else live w0 r)" for r
    using i[of r] le_funD[OF assms(2), of r] le_funD[OF assms(3), of r] by (auto split: if_splits)
  then show ?thesis unfolding one_more_def by blast
qed

lemma one_more_card:
  assumes "one_more name w w'"
  shows "card (live w' name) \<le> Suc (card (live w name))"
    "r \<noteq> name \<Longrightarrow> live w' r \<subseteq> live w r"
proof -
  from assms obtain i where i: "\<forall>r. live w' r \<subseteq> (if r = name then insert i (live w r) else live w r)"
    unfolding one_more_def by blast
  then have "live w' name \<subseteq> insert i (live w name)" by (metis (full_types))
  then have "card (live w' name) \<le> card (insert i (live w name))"
    by (intro card_mono) auto
  also have "\<dots> \<le> Suc (card (live w name))" by (rule card_insert_le_m1) auto
  finally show "card (live w' name) \<le> Suc (card (live w name))" .
  show "r \<noteq> name \<Longrightarrow> live w' r \<subseteq> live w r" using i by metis
qed

lemma spawn_prepare_quiet:
  assumes "spawn_prepare E repo s w = (x, s', w')" shows "live w' \<le> live w"
proof -
  obtain hex w1 where h: "randHex E 4 w = (hex, w1)" by fastforce
  note l1 = randHex_quiet[OF h]
  obtain f w2 where f: "writePATEnvFile E (sp_pat s) w1 = (f, w2)" by fastforce
  note l2 = order_trans[OF writePATEnvFile_quiet[OF f] l1]
  from assms h f have "w' = w2 \<or> w' = slog E LevelInfo ''dry-run: would spawn'' w1"
    by (auto simp: spawn_prepare_def split: if_splits sum.splits)
  with l2 order_trans[OF slog_quiet l1] show ?thesis by auto
qed

lemma spawn_run_one_more:
  assumes "spawn_run E repo name ef s w = (e, s', w')"
  shows "one_more (rc_Name repo) w w'"
proof -
  obtain out er x w1 where d: "docker_Exec E (docker_run_args name ef repo (sp_runnerImage s)) w
      = ((out, er, x), w1)" by (metis prod.exhaust)
  have o: "one_more (rc_Name repo) w w1" using run_adds_one[OF d] by (simp add: one_more_def)
  have "live w' \<le> live w1"
    using assms d slog_quiet by (cases x) (auto simp: spawn_run_def)
  from one_more_mono[OF o order_refl this] show ?thesis .
qed

lemma spawn_launch_one_more:
  assumes "spawn_launch E repo s w = (e, s', w')"
  shows "one_more (rc_Name repo) w w'"
  using assms
proof (cases rule: spawn_launch_cases)
  case (dry hex w1)
  with order_trans[OF slog_quiet randHex_quiet] show ?thesis by (simp add: one_more_quiet)
next
  case (nofile hex w1 fe)
  from order_trans[OF writePATEnvFile_quiet[OF nofile(3)] randHex_quiet[OF nofile(1)]]
  show ?thesis by (rule one_more_quiet)
next
  case (failed hex w1 ef p w2 out er de w3)
  have "one_more (rc_Name repo) w2 w3" using run_adds_one[OF failed(4)] by (simp add: one_more_def)
  from one_more_mono[OF this order_trans[OF writePATEnvFile_quiet[OF failed(3)] randHex_quiet[OF failed(1)]]
      snd_remove_quiet] failed
  show ?thesis by simp
next
  case (started hex w1 ef p w2 out er w3)
  have "one_more (rc_Name repo) w2 w3" using run_adds_one[OF started(4)] by (simp add: one_more_def)
  from one_more_mono[OF this order_trans[OF writePATEnvFile_quiet[OF started(3)] randHex_quiet[OF started(1)]]
      order_trans[OF snd_remove_quiet slog_quiet]] started
  show ?thesis by simp
qed

text \<open>One \<open>Spawn\<close>, run alone: the cap holds afterwards if it held before.\<close>

lemma Spawn_quiet_or_launch:
  assumes "Spawn E repo s w = (e, s', w')"
  obtains "live w' \<le> live w"
  | w2 where "live w2 \<le> live w" "one_more (rc_Name repo) w2 w'"
      "int (card (live w2 (rc_Name repo))) < rc_MaxConcurrency repo"
  using assms
proof (cases rule: Spawn_cases)
  case paused
  with that(1) show ?thesis by simp
next
  case idle
  with that(1) show ?thesis by (simp add: spawn_idle_quiet)
next
  case (stopped s1 w1 n w2 e')
  from order_trans[OF decide_quiet[OF stopped(4)] order_trans[OF countRunning_quiet[OF stopped(3)]
      spawn_idle_quiet[OF stopped(2)]]]
  show ?thesis by (rule that(1))
next
  case (launched s1 w1 k w2)
  from countRunning_bounds[OF launched(3)] launched(4)
  have "int (card (live w2 (rc_Name repo))) < rc_MaxConcurrency repo" by simp
  with order_trans[OF countRunning_quiet[OF launched(3)] spawn_idle_quiet[OF launched(2)]]
    spawn_launch_one_more[OF launched(5)]
  show ?thesis by (intro that(2))
qed

lemma Spawn_one_more:
  assumes "Spawn E repo s w = (e, s', w')" shows "one_more (rc_Name repo) w w'"
  using assms by (rule Spawn_quiet_or_launch) (auto intro: one_more_quiet one_more_mono)

lemma Spawn_keeps_cap:
  assumes "Spawn E repo s w = (e, s', w')"
    and "int (card (live w (rc_Name repo))) \<le> K" "rc_MaxConcurrency repo \<le> K"
  shows "int (card (live w' (rc_Name repo))) \<le> K"
  using assms(1)
proof (rule Spawn_quiet_or_launch)
  assume "live w' \<le> live w"
  from live_card_mono[OF this, of "rc_Name repo"] assms(2) show ?thesis by linarith
next
  fix w2 assume "one_more (rc_Name repo) w2 w'"
    "int (card (live w2 (rc_Name repo))) < rc_MaxConcurrency repo"
  with one_more_card(1) assms(3) show ?thesis by fastforce
qed

text \<open>The same for all repos of a configuration.\<close>

lemma caps_kept_quiet: "live w' \<le> live w \<Longrightarrow> caps_kept live rs w w'"
  using live_card_mono[of w' w] unfolding caps_kept_def by (simp add: le_max_iff_disj)

lemma Spawn_caps_kept:
  assumes "Spawn E repo s w = (e, s', w')" "repo \<in> set rs"
  shows "caps_kept live rs w w'"
  unfolding caps_kept_def
proof
  fix n
  show "int (card (live w' n)) \<le> max (int (card (live w n))) (cap_of rs n)"
  proof (cases "n = rc_Name repo")
    case True
    from cap_of_ge[OF assms(2)] have "rc_MaxConcurrency repo \<le> cap_of rs n" using True by simp
    with True show ?thesis by (simp only: True) (rule Spawn_keeps_cap[OF assms(1)], auto)
  next
    case False
    from one_more_card(2)[OF Spawn_one_more[OF assms(1)] False]
    have "card (live w' n) \<le> card (live w n)" by (intro card_mono) auto
    then show ?thesis by simp
  qed
qed

end

end
