(* ===== verification/Spawn_Race.thy ===== *)
theory Spawn_Race
  imports Docker_Host
begin

text \<open>
  Many callers of \<open>Spawn\<close> at once: the webhook dispatcher, the reconciler's goroutines,
  any number of threads, interleaved with everything else that may happen (containers
  stopping, the pause switch, the cleaner). A state holds the shared spawner, the world,
  the mutex of each repo name (\<open>repoMu\<close>) and a program counter per thread. One rule per
  step of \<open>Spawn\<close>; docker and GitHub calls are separate steps, so other threads may run
  between the count and the launch.
\<close>

section \<open>The step relation\<close>

datatype pc =
    Idle
  | Entering RepoConfig
  | Locking RepoConfig
  | Checking RepoConfig
  | Listing RepoConfig
  | Counting RepoConfig "string list"
  | Deciding RepoConfig "err + int"
  | Preparing RepoConfig
  | Running RepoConfig string string string
  | Removing RepoConfig string "err option"
  | Unlocking RepoConfig "err option"
  | Returned "err option"

record 'w race =
  rs_sp :: spawner
  rs_world :: 'w
  rs_lock :: "string \<Rightarrow> nat option"
  rs_pc :: "nat \<Rightarrow> pc"

definition goto :: "nat \<Rightarrow> pc \<Rightarrow> 'w race \<Rightarrow> 'w race" where
  "goto t p s = s\<lparr>rs_pc := (rs_pc s)(t := p)\<rparr>"

text \<open>A thread's step with its effect on the shared spawner and the world.\<close>

definition act :: "nat \<Rightarrow> pc \<Rightarrow> spawner \<Rightarrow> 'w \<Rightarrow> 'w race \<Rightarrow> 'w race" where
  "act t p sp w s = s\<lparr>rs_sp := sp, rs_world := w, rs_pc := (rs_pc s)(t := p)\<rparr>"

inductive race_step ::
  "'w env \<Rightarrow> RepoConfig set \<Rightarrow> ('w \<Rightarrow> 'w \<Rightarrow> bool) \<Rightarrow> 'w race \<Rightarrow> 'w race \<Rightarrow> bool"
  for E cfgs ext where
  call: "rs_pc s t = Idle \<Longrightarrow> repo \<in> cfgs \<Longrightarrow>
    race_step E cfgs ext s (goto t (Entering repo) s)"
| paused: "rs_pc s t = Entering repo \<Longrightarrow> sp_paused (rs_sp s) \<Longrightarrow>
    race_step E cfgs ext s (act t (Returned (Some ErrPaused)) (count_paused (rs_sp s)) (rs_world s) s)"
| admitted: "rs_pc s t = Entering repo \<Longrightarrow> \<not> sp_paused (rs_sp s) \<Longrightarrow>
    race_step E cfgs ext s (goto t (Locking repo) s)"
| lock: "rs_pc s t = Locking repo \<Longrightarrow> rs_lock s (rc_Name repo) = None \<Longrightarrow>
    race_step E cfgs ext s
      (goto t (Checking repo) s\<lparr>rs_lock := (rs_lock s)(rc_Name repo := Some t)\<rparr>)"
| idle: "rs_pc s t = Checking repo \<Longrightarrow>
    spawn_idle E repo (rs_sp s) (rs_world s) = (b, sp, w) \<Longrightarrow>
    race_step E cfgs ext s (act t (if b then Unlocking repo None else Listing repo) sp w s)"
| list: "rs_pc s t = Listing repo \<Longrightarrow>
    list_ids E (rc_Name repo) (rs_world s) = (x, w) \<Longrightarrow>
    race_step E cfgs ext s
      (act t (case x of Inl e \<Rightarrow> Deciding repo (Inl e) | Inr ids \<Rightarrow> Counting repo ids) (rs_sp s) w s)"
| count: "rs_pc s t = Counting repo ids \<Longrightarrow> count_ids E ids (rs_world s) = (n, w) \<Longrightarrow>
    race_step E cfgs ext s (act t (Deciding repo n) (rs_sp s) w s)"
| stop: "rs_pc s t = Deciding repo n \<Longrightarrow>
    spawn_decide E repo n (rs_sp s) (rs_world s) = Some (e, sp, w) \<Longrightarrow>
    race_step E cfgs ext s (act t (Unlocking repo (Some e)) sp w s)"
| go: "rs_pc s t = Deciding repo n \<Longrightarrow>
    spawn_decide E repo n (rs_sp s) (rs_world s) = None \<Longrightarrow>
    race_step E cfgs ext s (goto t (Preparing repo) s)"
| prepare: "rs_pc s t = Preparing repo \<Longrightarrow>
    spawn_prepare E repo (rs_sp s) (rs_world s) = (x, sp, w) \<Longrightarrow>
    race_step E cfgs ext s
      (act t (case x of Inl r \<Rightarrow> Unlocking repo r
              | Inr (name, envFile, path) \<Rightarrow> Running repo name envFile path) sp w s)"
| run: "rs_pc s t = Running repo name envFile path \<Longrightarrow>
    spawn_run E repo name envFile (rs_sp s) (rs_world s) = (r, sp, w) \<Longrightarrow>
    race_step E cfgs ext s (act t (Removing repo path r) sp w s)"
| remove: "rs_pc s t = Removing repo path r \<Longrightarrow>
    race_step E cfgs ext s
      (act t (Unlocking repo r) (rs_sp s) (snd (os_Remove E path (rs_world s))) s)"
| unlock: "rs_pc s t = Unlocking repo r \<Longrightarrow>
    race_step E cfgs ext s (goto t (Returned r) s\<lparr>rs_lock := (rs_lock s)(rc_Name repo := None)\<rparr>)"
| again: "rs_pc s t = Returned r \<Longrightarrow> race_step E cfgs ext s (goto t Idle s)"
| set_paused: "race_step E cfgs ext s (s\<lparr>rs_sp := SetPaused p (rs_sp s)\<rparr>)"
| inc_reconcile: "race_step E cfgs ext s (s\<lparr>rs_sp := IncReconcile (rs_sp s)\<rparr>)"
| environment: "ext (rs_world s) w \<Longrightarrow> race_step E cfgs ext s (s\<lparr>rs_world := w\<rparr>)"

inductive race_reach ::
  "'w env \<Rightarrow> RepoConfig set \<Rightarrow> ('w \<Rightarrow> 'w \<Rightarrow> bool) \<Rightarrow> 'w race \<Rightarrow> 'w race \<Rightarrow> bool"
  for E cfgs ext where
  start: "race_reach E cfgs ext s s"
| step: "race_reach E cfgs ext s0 s \<Longrightarrow> race_step E cfgs ext s s' \<Longrightarrow> race_reach E cfgs ext s0 s'"

lemma race_reach_trans:
  "race_reach E cfgs ext b c \<Longrightarrow> race_reach E cfgs ext a b \<Longrightarrow> race_reach E cfgs ext a c"
  by (induction rule: race_reach.induct) (auto intro: race_reach.step)

text \<open>All threads idle, all mutexes free.\<close>

definition race_start :: "spawner \<Rightarrow> 'w \<Rightarrow> 'w race" where
  "race_start sp w = \<lparr>rs_sp = sp, rs_world = w, rs_lock = (\<lambda>_. None), rs_pc = (\<lambda>_. Idle)\<rparr>"

lemma goto_simps [simp]:
  "rs_sp (goto t p s) = rs_sp s" "rs_world (goto t p s) = rs_world s"
  "rs_lock (goto t p s) = rs_lock s" "rs_pc (goto t p s) = (rs_pc s)(t := p)"
  by (simp_all add: goto_def)

lemma act_simps [simp]:
  "rs_sp (act t p sp w s) = sp" "rs_world (act t p sp w s) = w"
  "rs_lock (act t p sp w s) = rs_lock s" "rs_pc (act t p sp w s) = (rs_pc s)(t := p)"
  by (simp_all add: act_def)

section \<open>The lock\<close>

text \<open>The repo name whose mutex a thread holds at a program counter.\<close>

fun held :: "pc \<Rightarrow> string option" where
  "held (Checking repo) = Some (rc_Name repo)"
| "held (Listing repo) = Some (rc_Name repo)"
| "held (Counting repo ids) = Some (rc_Name repo)"
| "held (Deciding repo n) = Some (rc_Name repo)"
| "held (Preparing repo) = Some (rc_Name repo)"
| "held (Running repo name envFile path) = Some (rc_Name repo)"
| "held (Removing repo path r) = Some (rc_Name repo)"
| "held (Unlocking repo r) = Some (rc_Name repo)"
| "held _ = None"

definition lock_inv :: "'w race \<Rightarrow> bool" where
  "lock_inv s \<longleftrightarrow> (\<forall>t n. (held (rs_pc s t) = Some n) = (rs_lock s n = Some t))"

lemma lock_inv_held: "lock_inv s \<Longrightarrow> held (rs_pc s t) = Some n \<Longrightarrow> rs_lock s n = Some t"
  unfolding lock_inv_def by blast

lemma lock_inv_start: "lock_inv (race_start sp w)"
  by (simp add: lock_inv_def race_start_def)

lemma lock_inv_same_held:
  assumes "lock_inv s" "held p = held (rs_pc s t)"
  shows "lock_inv (goto t p s)" "lock_inv (act t p sp w s)"
  using assms by (auto simp: lock_inv_def)

lemma lock_inv_frame [simp]:
  "lock_inv (s\<lparr>rs_sp := sp\<rparr>) = lock_inv s" "lock_inv (s\<lparr>rs_world := w\<rparr>) = lock_inv s"
  by (simp_all add: lock_inv_def)

lemma race_step_lock_inv: "race_step E cfgs ext s s' \<Longrightarrow> lock_inv s \<Longrightarrow> lock_inv s'"
proof (induction rule: race_step.induct)
  case (lock s t repo)
  then have "rs_lock s n \<noteq> Some t" for n
    unfolding lock_inv_def by (metis held.simps(11) option.distinct(1))
  with lock show ?case by (auto simp: lock_inv_def)
next
  case (unlock s t repo r)
  then have l: "rs_lock s (rc_Name repo) = Some t" by (intro lock_inv_held) auto
  have o: "(rs_lock s n = Some u) = (held (rs_pc s u) = Some n)" for u n
    using unlock(2) by (simp add: lock_inv_def)
  have t: "rs_lock s n \<noteq> Some t" if "n \<noteq> rc_Name repo" for n
    using o[of n t] unlock(1) that by simp
  have u: "held (rs_pc s u) \<noteq> Some (rc_Name repo)" if "u \<noteq> t" for u
    using o[of "rc_Name repo" u] l that by simp
  show ?case
    unfolding lock_inv_def using t u o by (simp add: goto_def fun_upd_def)
next
  case (list s t repo x w)
  then show ?case by (auto intro: lock_inv_same_held split: sum.splits)
next
  case (prepare s t repo x sp w)
  then show ?case by (auto intro: lock_inv_same_held split: sum.splits prod.splits)
next
  case (idle s t repo b sp w)
  then show ?case by (auto intro: lock_inv_same_held)
qed (auto intro: lock_inv_same_held)

lemma race_reach_lock_inv: "race_reach E cfgs ext s0 s \<Longrightarrow> lock_inv s0 \<Longrightarrow> lock_inv s"
  by (induction rule: race_reach.induct) (auto intro: race_step_lock_inv)


text \<open>The repo of the call a thread is in.\<close>

fun pc_repo :: "pc \<Rightarrow> RepoConfig option" where
  "pc_repo Idle = None"
| "pc_repo (Entering repo) = Some repo"
| "pc_repo (Locking repo) = Some repo"
| "pc_repo (Checking repo) = Some repo"
| "pc_repo (Listing repo) = Some repo"
| "pc_repo (Counting repo ids) = Some repo"
| "pc_repo (Deciding repo n) = Some repo"
| "pc_repo (Preparing repo) = Some repo"
| "pc_repo (Running repo name envFile path) = Some repo"
| "pc_repo (Removing repo path r) = Some repo"
| "pc_repo (Unlocking repo r) = Some repo"
| "pc_repo (Returned r) = None"

section \<open>Mutual exclusion and progress\<close>

lemma lock_inv_exclusive:
  assumes "lock_inv s" "held (rs_pc s t) = Some n" "held (rs_pc s u) = Some n" shows "t = u"
  using lock_inv_held[OF assms(1,2)] lock_inv_held[OF assms(1,3)] by simp

text \<open>How many steps of its own a call has left, at most.\<close>

fun steps_left :: "pc \<Rightarrow> nat" where
  "steps_left Idle = 0"
| "steps_left (Entering repo) = 10"
| "steps_left (Locking repo) = 9"
| "steps_left (Checking repo) = 8"
| "steps_left (Listing repo) = 7"
| "steps_left (Counting repo ids) = 6"
| "steps_left (Deciding repo n) = 5"
| "steps_left (Preparing repo) = 4"
| "steps_left (Running repo name envFile path) = 3"
| "steps_left (Removing repo path r) = 2"
| "steps_left (Unlocking repo r) = 1"
| "steps_left (Returned r) = 0"

text \<open>
  A call in progress either steps, with fewer steps left and no other thread moved, or it
  waits for the mutex of its repo, whose holder is not waiting.
\<close>

definition can_step :: "'w env \<Rightarrow> RepoConfig set \<Rightarrow> ('w \<Rightarrow> 'w \<Rightarrow> bool) \<Rightarrow> 'w race \<Rightarrow> nat \<Rightarrow> bool" where
  "can_step E cfgs ext s t \<longleftrightarrow> (\<exists>s' p. race_step E cfgs ext s s' \<and> rs_pc s' = (rs_pc s)(t := p)
     \<and> steps_left p < steps_left (rs_pc s t))"

lemma can_stepI:
  "race_step E cfgs ext s s' \<Longrightarrow> rs_pc s' = (rs_pc s)(t := p) \<Longrightarrow>
     steps_left p < steps_left (rs_pc s t) \<Longrightarrow> can_step E cfgs ext s t"
  unfolding can_step_def by blast

lemma held_can_step:
  assumes "held (rs_pc s t) = Some n" shows "can_step E cfgs ext s t"
proof (cases "rs_pc s t")
  case (Checking repo)
  obtain b sp w where "spawn_idle E repo (rs_sp s) (rs_world s) = (b, sp, w)" by (metis prod.exhaust)
  from race_step.idle[OF Checking this] show ?thesis using Checking by (rule_tac can_stepI) auto
next
  case (Listing repo)
  obtain x w where "list_ids E (rc_Name repo) (rs_world s) = (x, w)" by fastforce
  from race_step.list[OF Listing this] show ?thesis
    using Listing by (rule_tac can_stepI) (auto split: sum.splits)
next
  case (Counting repo ids)
  obtain x w where "count_ids E ids (rs_world s) = (x, w)" by fastforce
  from race_step.count[OF Counting this] show ?thesis using Counting by (rule_tac can_stepI) auto
next
  case (Deciding repo k)
  show ?thesis
  proof (cases "spawn_decide E repo k (rs_sp s) (rs_world s)")
    case None
    from race_step.go[OF Deciding this] show ?thesis using Deciding by (rule_tac can_stepI) auto
  next
    case (Some x)
    obtain e sp w where "x = (e, sp, w)" by (metis prod.exhaust)
    with Some have "spawn_decide E repo k (rs_sp s) (rs_world s) = Some (e, sp, w)" by simp
    from race_step.stop[OF Deciding this] show ?thesis using Deciding by (rule_tac can_stepI) auto
  qed
next
  case (Preparing repo)
  obtain x sp w where "spawn_prepare E repo (rs_sp s) (rs_world s) = (x, sp, w)" by (metis prod.exhaust)
  from race_step.prepare[OF Preparing this] show ?thesis
    using Preparing by (rule_tac can_stepI) (auto split: sum.splits prod.splits)
next
  case (Running repo name ef path)
  obtain r sp w where "spawn_run E repo name ef (rs_sp s) (rs_world s) = (r, sp, w)" by (metis prod.exhaust)
  from race_step.run[OF Running this] show ?thesis using Running by (rule_tac can_stepI) auto
next
  case (Removing repo path r)
  from race_step.remove[OF Removing] show ?thesis using Removing by (rule_tac can_stepI) auto
next
  case (Unlocking repo r)
  from race_step.unlock[OF Unlocking] show ?thesis using Unlocking by (rule_tac can_stepI) auto
qed (use assms in auto)

lemma call_progress:
  assumes "lock_inv s" "pc_repo (rs_pc s t) = Some repo"
  shows "can_step E cfgs ext s t \<or>
    (\<exists>u. u \<noteq> t \<and> rs_lock s (rc_Name repo) = Some u \<and> can_step E cfgs ext s u)"
proof (cases "held (rs_pc s t)")
  case (Some n)
  then show ?thesis by (simp add: held_can_step)
next
  case h: None
  with assms(2) consider "rs_pc s t = Entering repo" | "rs_pc s t = Locking repo"
    by (cases "rs_pc s t") auto
  then show ?thesis
  proof cases
    case 1
    show ?thesis
    proof (cases "sp_paused (rs_sp s)")
      case True
      from race_step.paused[OF 1 True] 1 have "can_step E cfgs ext s t" by (rule_tac can_stepI) auto
      then show ?thesis by simp
    next
      case False
      from race_step.admitted[OF 1 False] 1 have "can_step E cfgs ext s t" by (rule_tac can_stepI) auto
      then show ?thesis by simp
    qed
  next
    case 2
    show ?thesis
    proof (cases "rs_lock s (rc_Name repo)")
      case None
      from race_step.lock[OF 2 None] 2 have "can_step E cfgs ext s t" by (rule_tac can_stepI) auto
      then show ?thesis by simp
    next
      case (Some u)
      then have "held (rs_pc s u) = Some (rc_Name repo)" using assms(1) by (simp add: lock_inv_def)
      with h Some show ?thesis by (auto intro: held_can_step)
    qed
  qed
qed

section \<open>One caller alone\<close>

definition place :: "'w race \<Rightarrow> nat \<Rightarrow> pc \<Rightarrow> spawner \<Rightarrow> 'w \<Rightarrow> (string \<Rightarrow> nat option) \<Rightarrow> 'w race" where
  "place s t p sp w l = s\<lparr>rs_sp := sp, rs_world := w, rs_lock := l, rs_pc := (rs_pc s)(t := p)\<rparr>"

lemma place_simps [simp]:
  "rs_sp (place s t p sp w l) = sp" "rs_world (place s t p sp w l) = w"
  "rs_lock (place s t p sp w l) = l" "rs_pc (place s t p sp w l) = (rs_pc s)(t := p)"
  "goto t p' (place s t p sp w l) = place s t p' sp w l"
  "act t p' sp' w' (place s t p sp w l) = place s t p' sp' w' l"
  "(place s t p sp w l)\<lparr>rs_lock := l'\<rparr> = place s t p sp w l'"
  by (simp_all add: place_def goto_def act_def)

text \<open>The steps of one caller, as moves of one place.\<close>

abbreviation moves where
  "moves E cfgs ext s t l p sp w p' sp' w' \<equiv>
     race_reach E cfgs ext (place s t p sp w l) (place s t p' sp' w' l)"

lemma moves_step:
  "race_step E cfgs ext (place s t p sp w l) s' \<Longrightarrow> s' = place s t p' sp' w' l \<Longrightarrow>
     moves E cfgs ext s t l p sp w p' sp' w'"
  by (auto intro: race_reach.intros)

lemma move_idle:
  assumes "spawn_idle E repo sp w = (b, sp', w')"
  shows "moves E cfgs ext s t l (Checking repo) sp w (if b then Unlocking repo None else Listing repo) sp' w'"
  by (rule moves_step[OF race_step.idle[where t = t and repo = repo and b = b and sp = sp' and w = w']]) (simp_all add: assms)

lemma move_list:
  assumes "list_ids E (rc_Name repo) w = (x, w')"
  shows "moves E cfgs ext s t l (Listing repo) sp w
    (case x of Inl e \<Rightarrow> Deciding repo (Inl e) | Inr ids \<Rightarrow> Counting repo ids) sp w'"
  by (rule moves_step[OF race_step.list[where t = t and repo = repo and x = x and w = w']]) (simp_all add: assms)

lemma move_count:
  assumes "count_ids E ids w = (n, w')"
  shows "moves E cfgs ext s t l (Counting repo ids) sp w (Deciding repo n) sp w'"
  by (rule moves_step[OF race_step.count[where t = t and repo = repo and ids = ids and n = n and w = w']]) (simp_all add: assms)

lemma move_countRunning:
  assumes "countRunning E (rc_Name repo) w = (n, w')"
  shows "moves E cfgs ext s t l (Listing repo) sp w (Deciding repo n) sp w'"
proof -
  obtain x w1 where x: "list_ids E (rc_Name repo) w = (x, w1)" by fastforce
  show ?thesis
  proof (cases x)
    case (Inl e)
    with assms x have "n = Inl e" "w' = w1" by (auto simp: countRunning_def)
    with move_list[OF x] Inl show ?thesis by simp
  next
    case (Inr ids)
    with assms x have "count_ids E ids w1 = (n, w')" by (simp add: countRunning_def)
    from race_reach_trans[OF move_count[OF this] move_list[OF x, unfolded Inr sum.case]]
    show ?thesis .
  qed
qed

lemma move_stop:
  assumes "spawn_decide E repo n sp w = Some (e, sp', w')"
  shows "moves E cfgs ext s t l (Deciding repo n) sp w (Unlocking repo (Some e)) sp' w'"
  by (rule moves_step[OF race_step.stop[where t = t and repo = repo and n = n and e = e and sp = sp' and w = w']]) (simp_all add: assms)

lemma move_go:
  assumes "k < rc_MaxConcurrency repo"
  shows "moves E cfgs ext s t l (Deciding repo (Inr k)) sp w (Preparing repo) sp w"
  by (rule moves_step[OF race_step.go[where t = t and repo = repo and n = "Inr k"]]) (simp_all add: assms spawn_decide_None)

lemma move_launch:
  assumes "spawn_launch E repo sp w = (e, sp', w')"
  shows "moves E cfgs ext s t l (Preparing repo) sp w (Unlocking repo e) sp' w'"
proof -
  obtain x s1 w1 where x: "spawn_prepare E repo sp w = (x, s1, w1)" by (metis prod.exhaust)
  have p: "moves E cfgs ext s t l (Preparing repo) sp w (case x of Inl r \<Rightarrow> Unlocking repo r
              | Inr (name, envFile, path) \<Rightarrow> Running repo name envFile path) s1 w1"
    by (rule moves_step[OF race_step.prepare[where t = t and repo = repo and x = x and sp = s1 and w = w1]]) (simp_all add: x)
  show ?thesis
  proof (cases x)
    case (Inl r)
    with assms x p show ?thesis by (simp add: spawn_launch_def)
  next
    case (Inr y)
    obtain name ef path where y: "y = (name, ef, path)" by (metis prod.exhaust)
    obtain r s2 w2 where r: "spawn_run E repo name ef s1 w1 = (r, s2, w2)" by (metis prod.exhaust)
    have a: "moves E cfgs ext s t l (Running repo name ef path) s1 w1 (Removing repo path r) s2 w2"
      by (rule moves_step[OF race_step.run[where t = t and repo = repo and name = name and envFile = ef and path = path and r = r and sp = s2 and w = w2]]) (simp_all add: r)
    have b: "moves E cfgs ext s t l (Removing repo path r) s2 w2 (Unlocking repo r) s2
        (snd (os_Remove E path w2))"
      by (rule moves_step[OF race_step.remove[where t = t and repo = repo and path = path and r = r]]) simp_all
    have "e = r" "sp' = s2" "w' = snd (os_Remove E path w2)"
      using assms x Inr y r by (simp_all add: spawn_launch_def)
    with race_reach_trans[OF b race_reach_trans[OF a p[unfolded Inr y sum.case prod.case]]]
    show ?thesis by simp
  qed
qed

lemma Spawn_locked:
  assumes "Spawn E repo sp w = (e, sp', w')" "\<not> sp_paused sp"
  shows "moves E cfgs ext s t l (Checking repo) sp w (Unlocking repo e) sp' w'"
  using assms(1)
proof (cases rule: Spawn_cases)
  case paused
  with assms(2) show ?thesis by simp
next
  case idle
  with move_idle[OF idle(2)] show ?thesis by simp
next
  case (stopped s1 w1 n w2 e')
  from race_reach_trans[OF move_stop[OF stopped(4)] race_reach_trans[OF
      move_countRunning[OF stopped(3)] move_idle[OF stopped(2), unfolded if_False]]] stopped(5)
  show ?thesis by simp
next
  case (launched s1 w1 k w2)
  from race_reach_trans[OF move_launch[OF launched(5)] race_reach_trans[OF move_go[OF launched(4)]
      race_reach_trans[OF move_countRunning[OF launched(3)] move_idle[OF launched(2), unfolded if_False]]]]
  show ?thesis .
qed

text \<open>
  \<open>Spawn\<close> run alone is a run of the steps: from the entry with the mutex free to the
  return with the same result, spawner and world.
\<close>

lemma Spawn_is_race:
  assumes sp: "Spawn E repo (rs_sp s) (rs_world s) = (e, sp', w')"
    and pc: "rs_pc s t = Entering repo" and lk: "rs_lock s (rc_Name repo) = None"
  shows "race_reach E cfgs ext s (act t (Returned e) sp' w' s)"
proof (cases "sp_paused (rs_sp s)")
  case True
  with sp have e: "e = Some ErrPaused" "sp' = count_paused (rs_sp s)" "w' = rs_world s"
    by (simp_all add: Spawn_def)
  show ?thesis
    using race_reach.step[OF race_reach.start race_step.paused[OF pc True]] e by simp
next
  case False
  let ?l = "(rs_lock s)(rc_Name repo \<mapsto> t)"
  have a: "race_reach E cfgs ext s (place s t (Checking repo) (rs_sp s) (rs_world s) ?l)"
  proof -
    have "race_reach E cfgs ext s (goto t (Locking repo) s)"
      by (rule race_reach.step[OF race_reach.start race_step.admitted[OF pc False]])
    from race_reach.step[OF this race_step.lock[where t = t and repo = repo]] lk
    show ?thesis by (cases s) (simp add: place_def goto_def)
  qed
  note b = race_reach_trans[OF Spawn_locked[OF sp False] a]
  have "(rs_lock s)(rc_Name repo := None) = rs_lock s" using lk by auto
  moreover have "race_step E cfgs ext (place s t (Unlocking repo e) sp' w' ?l)
      (place s t (Returned e) sp' w' (?l(rc_Name repo := None)))"
    using race_step.unlock[of "place s t (Unlocking repo e) sp' w' ?l" t repo e E cfgs ext] by simp
  ultimately have "race_step E cfgs ext (place s t (Unlocking repo e) sp' w' ?l)
      (act t (Returned e) sp' w' s)"
    by (simp add: place_def act_def)
  from race_reach.step[OF b this] show ?thesis .
qed

lemma Spawn_race_return:
  assumes "Spawn E repo sp w = (e, sp', w')" "repo \<in> cfgs"
  shows "race_reach E cfgs ext (race_start sp w)
     \<lparr>rs_sp = sp', rs_world = w', rs_lock = (\<lambda>_. None), rs_pc = (\<lambda>_. Idle)(t := Returned e)\<rparr>"
proof -
  let ?s1 = "goto t (Entering repo) (race_start sp w)"
  have "race_reach E cfgs ext (race_start sp w) ?s1"
    using assms(2) by (intro race_reach.step[OF race_reach.start] race_step.call) (simp_all add: race_start_def)
  moreover have "race_reach E cfgs ext ?s1 (act t (Returned e) sp' w' ?s1)"
  proof (rule Spawn_is_race[where repo = repo])
    show "Spawn E repo (rs_sp ?s1) (rs_world ?s1) = (e, sp', w')"
      using assms(1) by (simp add: race_start_def)
    show "rs_pc ?s1 t = Entering repo" by simp
    show "rs_lock ?s1 (rc_Name repo) = None" by (simp add: race_start_def)
  qed
  ultimately have "race_reach E cfgs ext (race_start sp w) (act t (Returned e) sp' w' ?s1)"
    by (rule race_reach_trans[rotated])
  then show ?thesis by (simp add: act_def goto_def race_start_def)
qed

lemma Spawn_race_again:
  assumes "Spawn E repo sp w = (e, sp', w')" "repo \<in> cfgs"
  shows "race_reach E cfgs ext (race_start sp w) (race_start sp' w')"
proof -
  note r = Spawn_race_return[OF assms, of ext 0]
  have "race_reach E cfgs ext (race_start sp w)
      (goto 0 Idle \<lparr>rs_sp = sp', rs_world = w', rs_lock = (\<lambda>_. None), rs_pc = (\<lambda>_. Idle)(0 := Returned e)\<rparr>)"
    by (rule race_reach.step[OF r race_step.again]) simp
  moreover have "(\<lambda>_. Idle)(0 := Idle) = (\<lambda>_ :: nat. Idle)" by auto
  ultimately show ?thesis by (simp add: goto_def race_start_def)
qed

section \<open>The cap\<close>

text \<open>
  What a thread inside the critical section knows about the containers alive for its
  repo: the ids it listed cover them, the number it counted bounds them, and once it
  has passed the cap check there is room for one more.
\<close>

fun knows :: "('w \<Rightarrow> string \<Rightarrow> string set) \<Rightarrow> 'w \<Rightarrow> pc \<Rightarrow> bool" where
  "knows live w (Counting repo ids) = (live w (rc_Name repo) \<subseteq> set ids)"
| "knows live w (Deciding repo (Inr k)) = (int (card (live w (rc_Name repo))) \<le> k)"
| "knows live w (Preparing repo) = (int (card (live w (rc_Name repo))) < rc_MaxConcurrency repo)"
| "knows live w (Running repo name envFile path) =
     (int (card (live w (rc_Name repo))) < rc_MaxConcurrency repo)"
| "knows live w _ = True"

lemma knows_held: "held p = None \<Longrightarrow> knows live w p"
  by (cases "(live, w, p)" rule: knows.cases) auto

lemma held_repo: "held p = Some n \<Longrightarrow> \<exists>repo. pc_repo p = Some repo \<and> rc_Name repo = n"
  by (cases p) auto

definition cap_inv ::
  "RepoConfig set \<Rightarrow> ('w \<Rightarrow> string \<Rightarrow> string set) \<Rightarrow> (string \<Rightarrow> int) \<Rightarrow> 'w race \<Rightarrow> bool" where
  "cap_inv cfgs live K s \<longleftrightarrow> lock_inv s
     \<and> (\<forall>t repo. pc_repo (rs_pc s t) = Some repo \<longrightarrow> repo \<in> cfgs)
     \<and> (\<forall>t. knows live (rs_world s) (rs_pc s t))
     \<and> (\<forall>r. int (card (live (rs_world s) r)) \<le> K r)"

lemma cap_invD:
  assumes "cap_inv cfgs live K s"
  shows "lock_inv s" "pc_repo (rs_pc s t) = Some repo \<Longrightarrow> repo \<in> cfgs"
    "knows live (rs_world s) (rs_pc s t)" "int (card (live (rs_world s) r)) \<le> K r"
  using assms by (auto simp: cap_inv_def)

context docker_host
begin

lemma knows_quiet: "live w' \<le> live w \<Longrightarrow> knows live w p \<Longrightarrow> knows live w' p"
proof -
  assume q: "live w' \<le> live w" and k: "knows live w p"
  have "live w' r \<subseteq> live w r" "card (live w' r) \<le> card (live w r)" for r
    using q live_card_mono[OF q] by (auto simp: le_fun_def)
  with k show ?thesis
    by (cases "(live, w, p)" rule: knows.cases) (auto intro: int_le_trans int_less_trans)
qed

text \<open>A launch for another repo does not disturb what a thread knows.\<close>

lemma knows_other:
  assumes "one_more n w w'" "held p \<noteq> Some n" "knows live w p" shows "knows live w' p"
proof -
  have r: "live w' r \<subseteq> live w r" "card (live w' r) \<le> card (live w r)" if "r \<noteq> n" for r
    using one_more_card(2)[OF assms(1) that] by (auto intro: card_mono)
  show ?thesis
    using assms(2,3) r
    by (cases "(live, w, p)" rule: knows.cases) (auto intro: int_le_trans int_less_trans)
qed

text \<open>The two shapes of a step: the world shrinks, or the lock holder starts one container.\<close>

lemma cap_inv_quiet_step:
  assumes inv: "cap_inv cfgs live K s" and li: "lock_inv s'"
    and pc: "rs_pc s' = (rs_pc s)(t := p)" and repo: "\<And>repo. pc_repo p = Some repo \<Longrightarrow> repo \<in> cfgs"
    and q: "live (rs_world s') \<le> live (rs_world s)" and k: "knows live (rs_world s') p"
  shows "cap_inv cfgs live K s'"
proof -
  have "knows live (rs_world s') (rs_pc s' u)" for u
    using pc k knows_quiet[OF q cap_invD(3)[OF inv]] by auto
  moreover have "int (card (live (rs_world s') r)) \<le> K r" for r
    using cap_invD(4)[OF inv, of r] live_card_mono[OF q, of r] by linarith
  moreover have "\<forall>u repo. pc_repo (rs_pc s' u) = Some repo \<longrightarrow> repo \<in> cfgs"
    using pc repo cap_invD(2)[OF inv] by auto
  ultimately show ?thesis using li by (simp add: cap_inv_def)
qed

lemma cap_inv_same_pc:
  assumes "cap_inv cfgs live K s" "lock_inv s'" "rs_pc s' = rs_pc s"
    "live (rs_world s') \<le> live (rs_world s)"
  shows "cap_inv cfgs live K s'"
  by (rule cap_inv_quiet_step[OF assms(1,2), of undefined "rs_pc s undefined"])
     (use assms in \<open>auto simp: cap_invD(2)[OF assms(1)] intro: knows_quiet cap_invD(3)[OF assms(1)]\<close>)

lemma cap_inv_run_step:
  assumes inv: "cap_inv cfgs live K s" and li: "lock_inv s'"
    and K: "\<And>repo. repo \<in> cfgs \<Longrightarrow> rc_MaxConcurrency repo \<le> K (rc_Name repo)"
    and at: "rs_pc s t = Running repo name envFile path"
    and pc: "rs_pc s' = (rs_pc s)(t := Removing repo path r)"
    and o: "one_more (rc_Name repo) (rs_world s) (rs_world s')"
  shows "cap_inv cfgs live K s'"
proof -
  have rc: "repo \<in> cfgs" using cap_invD(2)[OF inv, of t] at by simp
  have room: "int (card (live (rs_world s) (rc_Name repo))) < rc_MaxConcurrency repo"
    using cap_invD(3)[OF inv, of t] at by simp
  have lk: "rs_lock s (rc_Name repo) = Some t"
    using cap_invD(1)[OF inv] at by (intro lock_inv_held) auto
  have "held (rs_pc s u) \<noteq> Some (rc_Name repo)" if "u \<noteq> t" for u
    using cap_invD(1)[OF inv] lk that by (auto simp: lock_inv_def)
  then have "knows live (rs_world s') (rs_pc s' u)" for u
    using pc knows_other[OF o _ cap_invD(3)[OF inv]] by auto
  moreover have "int (card (live (rs_world s') r)) \<le> K r" for r
  proof (cases "r = rc_Name repo")
    case True
    have "int (card (live (rs_world s') (rc_Name repo))) \<le> K (rc_Name repo)"
      using one_more_card(1)[OF o] room K[OF rc] by linarith
    with True show ?thesis by simp
  next
    case False
    then have "card (live (rs_world s') r) \<le> card (live (rs_world s) r)"
      using one_more_card(2)[OF o] by (intro card_mono) auto
    with cap_invD(4)[OF inv, of r] show ?thesis by linarith
  qed
  moreover have "\<forall>u q. pc_repo (rs_pc s' u) = Some q \<longrightarrow> q \<in> cfgs"
    using pc rc cap_invD(2)[OF inv] by auto
  ultimately show ?thesis using li by (simp add: cap_inv_def)
qed

lemma race_step_cap_inv:
  assumes st: "race_step E cfgs ext s s'" and inv: "cap_inv cfgs live K s"
    and K: "\<And>repo. repo \<in> cfgs \<Longrightarrow> rc_MaxConcurrency repo \<le> K (rc_Name repo)"
    and ext: "\<And>w w'. ext w w' \<Longrightarrow> live w' \<le> live w"
  shows "cap_inv cfgs live K s'"
proof -
  have li: "lock_inv s'" using race_step_lock_inv[OF st] cap_invD(1)[OF inv] .
  note quiet_step = cap_inv_quiet_step[OF inv li]
  note at = cap_invD(2,3)[OF inv]
  show ?thesis using st
  proof cases
    case (list t repo x w)
    note q = list_ids_quiet[OF list(3)]
    have "knows live w (case x of Inl e \<Rightarrow> Deciding repo (Inl e) | Inr ids \<Rightarrow> Counting repo ids)"
      using list_ids_covers(1)[of "rc_Name repo" "rs_world s"] list(3) by (cases x) simp_all
    with list q at(1)[of t repo] show ?thesis by (intro quiet_step) (auto split: sum.splits)
  next
    case (count t repo ids n w)
    have "live (rs_world s) (rc_Name repo) \<subseteq> set ids" using at(2)[of t] count(2) by simp
    then have "knows live (rs_world s) (Deciding repo n)"
      using count_ids_lower count(3) by (cases n) auto
    from knows_quiet[OF count_ids_quiet[OF count(3)] this] count count_ids_quiet[OF count(3)] at(1)[of t repo]
    show ?thesis by (intro quiet_step) auto
  next
    case (go t repo n)
    then obtain k where k: "n = Inr k" "k < rc_MaxConcurrency repo"
      by (auto simp: spawn_decide_None)
    with at(2)[of t] go(2) have "knows live (rs_world s) (Preparing repo)" by simp
    with go at(1)[of t repo] show ?thesis by (intro quiet_step) auto
  next
    case (prepare t repo x sp w)
    note q = spawn_prepare_quiet[OF prepare(3)]
    have "knows live w (Preparing repo)"
      by (rule knows_quiet[OF q]) (use at(2)[of t] prepare(2) in simp)
    with prepare q at(1)[of t repo] show ?thesis
      by (intro quiet_step) (auto split: sum.splits prod.splits)
  next
    case (run t repo name envFile path r sp w)
    from cap_inv_run_step[OF inv li K run(2), of r] run spawn_run_one_more[OF run(3)]
    show ?thesis by simp
  next
    case (idle t repo b sp w)
    with spawn_idle_quiet[OF idle(3)] at(1)[of t repo] show ?thesis
      by (intro quiet_step) (auto split: if_splits)
  next
    case (stop t repo n e sp w)
    with decide_quiet[OF stop(3)] at(1)[of t repo] show ?thesis by (intro quiet_step) auto
  next
    case (remove t repo path r)
    with snd_remove_quiet at(1)[of t repo] show ?thesis by (intro quiet_step) auto
  next
    case (environment w)
    with ext show ?thesis by (intro cap_inv_same_pc[OF inv li]) auto
  next
    case (set_paused p)
    then show ?thesis by (intro cap_inv_same_pc[OF inv li]) auto
  next
    case inc_reconcile
    then show ?thesis by (intro cap_inv_same_pc[OF inv li]) auto
  next
    case (call t repo)
    then show ?thesis by (intro quiet_step) auto
  next
    case (paused t repo)
    then show ?thesis by (intro quiet_step) auto
  next
    case (admitted t repo)
    with at(1)[of t repo] show ?thesis by (intro quiet_step) auto
  next
    case (lock t repo)
    with at(1)[of t repo] show ?thesis by (intro quiet_step) auto
  next
    case (unlock t repo r)
    then show ?thesis by (intro quiet_step) auto
  next
    case (again t r)
    then show ?thesis by (intro quiet_step) auto
  qed
qed

lemma race_reach_cap_inv:
  assumes "race_reach E cfgs ext s0 s" "cap_inv cfgs live K s0"
    and "\<And>repo. repo \<in> cfgs \<Longrightarrow> rc_MaxConcurrency repo \<le> K (rc_Name repo)"
    and "\<And>w w'. ext w w' \<Longrightarrow> live w' \<le> live w"
  shows "cap_inv cfgs live K s"
  using assms(1,2)
  by (induction rule: race_reach.induct) (auto intro: race_step_cap_inv assms(3,4))

end

end
