(* ===== verification/Env_File.thy ===== *)
theory Env_File
  imports Spawner
begin

text \<open>
  The token's env-file and the file system, as a locale: what the calls on a temporary
  file do to the files, and that the spawner's other calls leave them alone. Its lemmas
  say that the file docker reads holds the token with mode 0600, and that no path
  through \<open>Spawn\<close> leaves the file behind.
\<close>

section \<open>The file system contract\<close>

locale temp_files =
  fixes E :: "'w env"
    and files :: "'w \<Rightarrow> string \<Rightarrow> (nat \<times> string) option"
  assumes create_new: "os_CreateTemp E w = (Inr p, w') \<Longrightarrow>
        files w p = None \<and> (\<exists>m. files w' = (files w)(p \<mapsto> (m, [])))"
    and create_none: "os_CreateTemp E w = (Inl e, w') \<Longrightarrow> files w' = files w"
    and chmod_sets: "files w p = Some (m0, t) \<Longrightarrow> os_Chmod E p m w = (None, w') \<Longrightarrow>
        files w' = (files w)(p \<mapsto> (m, t))"
    and chmod_error: "os_Chmod E p m w = (Some e, w') \<Longrightarrow> files w' = files w"
    and write_appends: "files w p = Some (m, t) \<Longrightarrow> os_WriteString E p x w = (None, w') \<Longrightarrow>
        files w' = (files w)(p \<mapsto> (m, t @ x))"
    and write_error: "files w p = Some (m, t) \<Longrightarrow> os_WriteString E p x w = (Some e, w') \<Longrightarrow>
        \<exists>t'. files w' = (files w)(p \<mapsto> (m, t'))"
    and close_same: "os_Close E p w = (r, w') \<Longrightarrow> files w' = files w"
    and remove_gone: "os_Remove E p w = (None, w') \<Longrightarrow> files w' = (files w)(p := None)"
    and remove_error: "os_Remove E p w = (Some e, w') \<Longrightarrow> files w' = files w"
    and docker_same: "docker_Exec E args w = (res, w') \<Longrightarrow> files w' = files w"
    and http_same: "http_Do E rq w = (y, w') \<Longrightarrow> files w' = files w"
    and rand_same: "rand_Read E n w = (b, w') \<Longrightarrow> files w' = files w"
    and slog_same [simp]: "files (slog E lv msg w) = files w"
begin

lemma randHex_same: "randHex E n w = (h, w') \<Longrightarrow> files w' = files w"
  by (auto simp: randHex_def dest: rand_same split: prod.splits)

lemma hasIdle_same: "hasIdleMatchingRunner E s repo w = (r, w') \<Longrightarrow> files w' = files w"
  by (auto simp: hasIdleMatchingRunner_def dest: http_same
      split: option.splits prod.splits sum.splits if_splits)

lemma spawn_idle_same:
  assumes "spawn_idle E repo s w = (b, s', w')" shows "files w' = files w"
  using assms by (cases rule: spawn_idle_cases) (auto dest: hasIdle_same)

lemma countRunning_same: "countRunning E r w = (x, w') \<Longrightarrow> files w' = files w"
  by (auto simp: countRunning_def list_ids_def count_ids_def dest!: docker_same
      split: prod.splits sum.splits option.splits if_splits)

lemma decide_same: "spawn_decide E repo n s w = Some (e, s', w') \<Longrightarrow> files w' = files w"
  by (auto simp: spawn_decide_def split: sum.splits if_splits)

lemma close_snd [simp]: "files (snd (os_Close E p w)) = files w"
  using close_same[of p w "fst (os_Close E p w)"] by simp

lemma written_file:
  assumes "writePATEnvFile E pat w = (Inr (ef, p), w')"
  shows "ef = path_Clean p" "files w p = None"
    "files w' = (files w)(p \<mapsto> (384, env_file_line pat))"
proof -
  have "ef = path_Clean p \<and> files w p = None \<and> files w' = (files w)(p \<mapsto> (384, env_file_line pat))"
    using assms
  proof (cases rule: writePATEnvFile_cases)
    case (written q w1 w2 w3)
    from create_new[OF written(1)] obtain m where
      m: "files w q = None" "files w1 = (files w)(q \<mapsto> (m, []))" by blast
    have "files w2 = (files w)(q \<mapsto> (384, []))"
      using chmod_sets[OF _ written(2), of m "[]"] m by simp
    then have "files w3 = (files w)(q \<mapsto> (384, env_file_line pat))"
      using write_appends[OF _ written(3), of 384 "[]"] by simp
    with written m close_same[OF written(4)] show ?thesis by auto
  qed auto
  then show "ef = path_Clean p" "files w p = None"
    "files w' = (files w)(p \<mapsto> (384, env_file_line pat))" by simp_all
qed

end

section \<open>No file is left behind\<close>

text \<open>Removing a file that is there succeeds.\<close>

locale tidy_temp_files = temp_files +
  assumes remove_ok: "files w p = Some x \<Longrightarrow> fst (os_Remove E p w) = None"
begin

lemma removed: "files w = f(p \<mapsto> x) \<Longrightarrow> f p = None \<Longrightarrow> files (snd (os_Remove E p w)) = f"
  using remove_ok[of w p x] remove_gone[of p w "snd (os_Remove E p w)"]
  by (metis fun_upd_same fun_upd_triv fun_upd_upd prod.collapse)

lemma write_failed_same:
  assumes "writePATEnvFile E pat w = (Inl e, w')" shows "files w' = files w"
  using assms
proof (cases rule: writePATEnvFile_cases)
  case (create x)
  then show ?thesis by (simp add: create_none)
next
  case (chmod p w1 x w2)
  from create_new[OF chmod(1)] chmod_error[OF chmod(2)] chmod(4) show ?thesis
    by (auto intro!: removed)
next
  case (writing p w1 w2 x w3)
  from create_new[OF writing(1)] obtain m where
    m: "files w p = None" "files w1 = (files w)(p \<mapsto> (m, []))" by blast
  then have "files w2 = (files w)(p \<mapsto> (384, []))"
    using chmod_sets[OF _ writing(2), of m "[]"] by simp
  with write_error[OF _ writing(3), of 384 "[]"] obtain t where
    "files w3 = (files w)(p \<mapsto> (384, t))" by auto
  with m writing(5) show ?thesis by (auto intro!: removed)
next
  case (closing p w1 w2 w3 x w4)
  from create_new[OF closing(1)] obtain m where
    m: "files w p = None" "files w1 = (files w)(p \<mapsto> (m, []))" by blast
  then have "files w2 = (files w)(p \<mapsto> (384, []))"
    using chmod_sets[OF _ closing(2), of m "[]"] by simp
  then have "files w3 = (files w)(p \<mapsto> (384, env_file_line pat))"
    using write_appends[OF _ closing(3), of 384 "[]"] by simp
  with m closing(6) close_same[OF closing(4)] show ?thesis by (auto intro!: removed)
qed auto

lemma spawn_launch_same:
  assumes "spawn_launch E repo s w = (e, s', w')" shows "files w' = files w"
  using assms
proof (cases rule: spawn_launch_cases)
  case (dry hex w1)
  then show ?thesis by (simp add: randHex_same)
next
  case (nofile hex w1 fe)
  from write_failed_same[OF nofile(3)] randHex_same[OF nofile(1)] show ?thesis by simp
next
  case (failed hex w1 ef p w2 out er de w3)
  from written_file[OF failed(3)] docker_same[OF failed(4)] randHex_same[OF failed(1)] failed(7)
  show ?thesis by (auto intro!: removed)
next
  case (started hex w1 ef p w2 out er w3)
  from written_file[OF started(3)] docker_same[OF started(4)] randHex_same[OF started(1)] started(7)
  show ?thesis by (auto intro!: removed)
qed

lemma Spawn_same_files:
  assumes "Spawn E repo s w = (e, s', w')" shows "files w' = files w"
  using assms
proof (cases rule: Spawn_cases)
  case idle
  then show ?thesis by (simp add: spawn_idle_same)
next
  case (stopped s1 w1 n w2 e')
  then show ?thesis using spawn_idle_same countRunning_same decide_same by metis
next
  case (launched s1 w1 k w2)
  then show ?thesis using spawn_idle_same countRunning_same spawn_launch_same by metis
qed simp

end

end
