(* ===== verification/Sim_World.thy ===== *)
theory Sim_World
  imports Docker_Host Env_File "HOL-Library.AList"
begin

text \<open>
  A concrete world: a docker daemon with containers, a temporary directory, a clock, a
  random source, a log, and GitHub as a function of the request. It shows that the
  contracts of the environment can hold together (\<open>docker_host\<close> is interpreted on it)
  and the theorems about the code are evaluated in it. Container ids are numbers in the
  order of creation and never reused; a removed container leaves a gap.
\<close>

section \<open>State\<close>

datatype cstate = CCreated | CRunning | CPaused | CRestarting | CRemoving | CExited | CDead

fun cstate_text :: "cstate \<Rightarrow> string" where
  "cstate_text CCreated = ''created''"
| "cstate_text CRunning = ''running''"
| "cstate_text CPaused = ''paused''"
| "cstate_text CRestarting = ''restarting''"
| "cstate_text CRemoving = ''removing''"
| "cstate_text CExited = ''exited''"
| "cstate_text CDead = ''dead''"

record container =
  sc_name :: string
  sc_labels :: "string list"
  sc_state :: cstate
  sc_created :: string
  sc_env :: "string list"

record sim =
  sm_containers :: "container option list"
  sm_files :: "(string \<times> nat \<times> string) list"
  sm_tmp :: nat
  sm_now :: int
  sm_date :: string
  sm_down :: bool
  sm_rand :: nat
  sm_argv :: "string list list"
  sm_requests :: "http_request list"
  sm_log :: "(level \<times> string) list"
  sm_conns :: "(int \<times> int \<times> string \<times> err option) list"

definition sim_start :: "container list \<Rightarrow> sim" where
  "sim_start cs = \<lparr>sm_containers = map Some cs, sm_files = [], sm_tmp = 0, sm_now = 0,
     sm_date = ''2026-01-01T00:00:00Z'', sm_down = False, sm_rand = 0, sm_argv = [],
     sm_requests = [], sm_log = [], sm_conns = []\<rparr>"

text \<open>
  \<open>sm_conns\<close> are the connections to smee still to come: how long each lasts, its status,
  its bytes and how reading it ends.
\<close>

section \<open>Containers by id\<close>

definition sim_id :: "nat \<Rightarrow> string" where
  "sim_id i = CHR ''c'' # show_nat i"

fun sim_list :: "nat \<Rightarrow> container option list \<Rightarrow> (string \<times> container) list" where
  "sim_list i [] = []"
| "sim_list i (None # cs) = sim_list (Suc i) cs"
| "sim_list i (Some c # cs) = (sim_id i, c) # sim_list (Suc i) cs"

fun sim_remove :: "nat \<Rightarrow> string \<Rightarrow> container option list \<Rightarrow> container option list" where
  "sim_remove i x [] = []"
| "sim_remove i x (c # cs) = (if sim_id i = x then None else c) # sim_remove (Suc i) x cs"

fun sim_stop :: "string \<Rightarrow> container option list \<Rightarrow> container option list" where
  "sim_stop n [] = []"
| "sim_stop n (None # cs) = None # sim_stop n cs"
| "sim_stop n (Some c # cs) = (if sc_name c = n then None else Some c) # sim_stop n cs"

abbreviation entries :: "sim \<Rightarrow> (string \<times> container) list" where
  "entries s \<equiv> sim_list 0 (sm_containers s)"

definition sim_running :: "sim \<Rightarrow> string set" where
  "sim_running s = set (map fst (filter (\<lambda>(i, c). sc_state c = CRunning) (entries s)))"

definition of_repo :: "string \<Rightarrow> container \<Rightarrow> bool" where
  "of_repo r c \<longleftrightarrow> managedLabel \<in> set (sc_labels c) \<and> repoLabelKey @ ''='' @ r \<in> set (sc_labels c)"

definition sim_live :: "sim \<Rightarrow> string \<Rightarrow> string set" where
  "sim_live s r =
     set (map fst (filter (\<lambda>(i, c). sc_state c = CRunning \<and> of_repo r c) (entries s)))"

section \<open>The docker commands\<close>

fun label_value :: "string \<Rightarrow> string list \<Rightarrow> string" where
  "label_value k [] = []"
| "label_value k (l # ls) =
     (if HasPrefix l (k @ ''='') then TrimPrefix l (k @ ''='') else label_value k ls)"

definition template :: "string \<Rightarrow> container \<Rightarrow> (string \<times> string) list" where
  "template i c =
     [(''{{.ID}}'', i), (''{{.Names}}'', sc_name c),
      (''{{.State.Status}}'', cstate_text (sc_state c)), (''{{.Created}}'', sc_created c),
      (''{{.Label \"gha-autoscaler-repo\"}}'', label_value repoLabelKey (sc_labels c))]"

text \<open>The first argument only bounds the recursion: the format itself is enough.\<close>

fun render :: "string \<Rightarrow> (string \<times> string) list \<Rightarrow> string \<Rightarrow> string" where
  "render [] tm fmt = []"
| "render (_ # n) tm [] = []"
| "render (_ # n) tm (x # fmt) =
     (case find (\<lambda>(t, v). HasPrefix (x # fmt) t) tm of
        Some (t, v) \<Rightarrow> v @ render n tm (drop (length t) (x # fmt))
      | None \<Rightarrow> x # render n tm fmt)"

definition render_container :: "string \<Rightarrow> string \<times> container \<Rightarrow> string" where
  "render_container fmt e = render fmt (template (fst e) (snd e)) fmt"

definition sim_lines :: "string list \<Rightarrow> string" where
  "sim_lines xs = concat (map (\<lambda>x. x @ [CHR 0x0A]) xs)"

fun ps_opts :: "bool \<Rightarrow> string list \<Rightarrow> string \<Rightarrow> string list
    \<Rightarrow> (bool \<times> string list \<times> string) option" where
  "ps_opts a fs fmt [] = Some (a, fs, fmt)"
| "ps_opts a fs fmt [x] = (if x = ''-a'' then Some (True, fs, fmt) else None)"
| "ps_opts a fs fmt (x # y # xs) =
     (if x = ''-a'' then ps_opts True fs fmt (y # xs)
      else if x = ''--filter'' then ps_opts a (y # fs) fmt xs
      else if x = ''--format'' then ps_opts a fs y xs
      else None)"

definition passes :: "string list \<Rightarrow> container \<Rightarrow> bool" where
  "passes fs c \<longleftrightarrow> list_all (\<lambda>f. TrimPrefix f ''label='' \<in> set (sc_labels c)) fs"

definition err_docker :: err where
  "err_docker = ErrMsg ''exit status 1''"

abbreviation docker_fails :: "string \<Rightarrow> exec_result" where
  "docker_fails m \<equiv> ([], m, Some err_docker)"

definition sim_ps :: "string list \<Rightarrow> sim \<Rightarrow> exec_result" where
  "sim_ps args s = (case ps_opts False [] [] args of
     None \<Rightarrow> docker_fails ''unknown flag''
   | Some (a, fs, fmt) \<Rightarrow>
       (sim_lines (map (render_container fmt)
          (filter (\<lambda>(i, c). (a \<or> sc_state c = CRunning) \<and> passes fs c) (entries s))), [], None))"

definition sim_inspect :: "string \<Rightarrow> string list \<Rightarrow> sim \<Rightarrow> exec_result" where
  "sim_inspect fmt ids s =
     (if list_all (\<lambda>i. map_of (entries s) i \<noteq> None) ids
      then (sim_lines (map (\<lambda>i. render_container fmt (i, the (map_of (entries s) i))) ids), [], None)
      else docker_fails ''No such object'')"

record run_opts =
  ro_name :: string
  ro_labels :: "string list"
  ro_files :: "string list"
  ro_env :: "string list"

text \<open>The flags of \<open>docker run\<close>, then the image and nothing more.\<close>

fun run_flags :: "run_opts \<Rightarrow> string list \<Rightarrow> run_opts option" where
  "run_flags ro [] = None"
| "run_flags ro [x] = Some ro"
| "run_flags ro (x # y # xs) =
     (if x = ''--rm'' \<or> x = ''-d'' then run_flags ro (y # xs)
      else if x = ''--name'' then run_flags (ro\<lparr>ro_name := y\<rparr>) xs
      else if x = ''--label'' then run_flags (ro\<lparr>ro_labels := ro_labels ro @ [y]\<rparr>) xs
      else if x = ''--env-file'' then run_flags (ro\<lparr>ro_files := ro_files ro @ [y]\<rparr>) xs
      else if x = ''-e'' then run_flags (ro\<lparr>ro_env := ro_env ro @ [y]\<rparr>) xs
      else if x = ''--restart'' \<or> x = ''-v'' then run_flags ro xs
      else None)"

definition no_opts :: run_opts where
  "no_opts = \<lparr>ro_name = [], ro_labels = [], ro_files = [], ro_env = []\<rparr>"

definition sim_run :: "string list \<Rightarrow> sim \<Rightarrow> exec_result \<times> sim" where
  "sim_run args s = (case run_flags no_opts args of
     None \<Rightarrow> (docker_fails ''unknown flag'', s)
   | Some ro \<Rightarrow>
       if list_ex (\<lambda>f. map_of (sm_files s) f = None) (ro_files ro)
       then (docker_fails ''open env file'', s)
       else if list_ex (\<lambda>(i, c). sc_name c = ro_name ro) (entries s)
       then (docker_fails ''Conflict'', s)
       else let vars = concat (map (\<lambda>f. filter (\<lambda>l. l \<noteq> []) (Split CHR 0x0A (snd (the (map_of (sm_files s) f))))) (ro_files ro))
         in ((sim_id (length (sm_containers s)) @ [CHR 0x0A], [], None),
             s\<lparr>sm_containers := sm_containers s @
               [Some \<lparr>sc_name = ro_name ro, sc_labels = ro_labels ro, sc_state = CRunning,
                      sc_created = sm_date s, sc_env = vars @ ro_env ro\<rparr>]\<rparr>))"

definition sim_exec :: "string list \<Rightarrow> sim \<Rightarrow> exec_result \<times> sim" where
  "sim_exec args s0 =
     (let s = s0\<lparr>sm_argv := sm_argv s0 @ [args]\<rparr> in
      if sm_down s then (docker_fails ''Cannot connect to the Docker daemon'', s)
      else case args of
        [] \<Rightarrow> (docker_fails ''usage'', s)
      | cmd # xs \<Rightarrow>
          if cmd = ''ps'' then (sim_ps xs s, s)
          else if cmd = ''inspect'' \<and> 2 \<le> length xs \<and> hd xs = ''--format''
            then (sim_inspect (xs ! 1) (drop 2 xs) s, s)
          else if cmd = ''run'' then sim_run xs s
          else if cmd = ''rm'' \<and> length xs = 2 \<and> hd xs = ''-f'' then
            (if map_of (entries s) (xs ! 1) = None then (docker_fails ''No such container'', s)
             else ((xs ! 1 @ [CHR 0x0A], [], None),
               s\<lparr>sm_containers := sim_remove 0 (xs ! 1) (sm_containers s)\<rparr>))
          else if cmd = ''stop'' \<and> length xs = 1 then
            (if list_ex (\<lambda>(i, c). sc_name c = hd xs) (entries s)
             then ((hd xs @ [CHR 0x0A], [], None),
               s\<lparr>sm_containers := sim_stop (hd xs) (sm_containers s)\<rparr>)
             else (docker_fails ''No such container'', s))
          else (docker_fails ''unknown command'', s))"

section \<open>Files, clock, log\<close>

definition sim_path :: "nat \<Rightarrow> string" where
  "sim_path n = ''/tmp/autoscaler-env-'' @ show_nat n @ ''.env''"

definition sim_create :: "sim \<Rightarrow> (err + string) \<times> sim" where
  "sim_create s = (let p = sim_path (sm_tmp s) in
     if map_of (sm_files s) p \<noteq> None then (Inl (ErrMsg ''file exists''), s)
     else (Inr p, s\<lparr>sm_files := (p, 384, []) # sm_files s, sm_tmp := Suc (sm_tmp s)\<rparr>))"

definition sim_chmod :: "string \<Rightarrow> nat \<Rightarrow> sim \<Rightarrow> err option \<times> sim" where
  "sim_chmod p m s = (case map_of (sm_files s) p of
     None \<Rightarrow> (Some (ErrMsg ''file not found''), s)
   | Some (_, t) \<Rightarrow> (None, s\<lparr>sm_files := AList.update p (m, t) (sm_files s)\<rparr>))"

definition sim_write :: "string \<Rightarrow> string \<Rightarrow> sim \<Rightarrow> err option \<times> sim" where
  "sim_write p x s = (case map_of (sm_files s) p of
     None \<Rightarrow> (Some (ErrMsg ''file not found''), s)
   | Some (m, t) \<Rightarrow> (None, s\<lparr>sm_files := AList.update p (m, t @ x) (sm_files s)\<rparr>))"

definition sim_unlink :: "string \<Rightarrow> sim \<Rightarrow> err option \<times> sim" where
  "sim_unlink p s = (if map_of (sm_files s) p = None then (Some (ErrMsg ''file not found''), s)
     else (None, s\<lparr>sm_files := AList.delete p (sm_files s)\<rparr>))"

text \<open>\<open>n\<close> bytes, the last one counting the calls.\<close>

definition sim_rand :: "nat \<Rightarrow> sim \<Rightarrow> string \<times> sim" where
  "sim_rand n s = (replicate (n - 1) (CHR 0x00) @ [char_of (sm_rand s mod 256)],
     s\<lparr>sm_rand := Suc (sm_rand s)\<rparr>)"

definition sim_env :: "(http_request \<Rightarrow> sim \<Rightarrow> err + http_response) \<Rightarrow> sim env" where
  "sim_env g = \<lparr>
     docker_Exec = sim_exec,
     http_Do = (\<lambda>rq s. (g rq s, s\<lparr>sm_requests := sm_requests s @ [rq]\<rparr>)),
     os_CreateTemp = sim_create, os_Chmod = sim_chmod, os_WriteString = sim_write,
     os_Close = (\<lambda>p s. (None, s)), os_Remove = sim_unlink,
     rand_Read = sim_rand,
     time_Now = (\<lambda>s. (sm_now s, s)),
     slog = (\<lambda>lv m s. s\<lparr>sm_log := sm_log s @ [(lv, m)]\<rparr>),
     unicode_lower = (\<lambda>s. s)\<rparr>"

lemma sim_env_simps [simp]:
  "docker_Exec (sim_env g) = sim_exec" "os_CreateTemp (sim_env g) = sim_create"
  "os_Chmod (sim_env g) = sim_chmod" "os_WriteString (sim_env g) = sim_write"
  "os_Close (sim_env g) = (\<lambda>p s. (None, s))" "os_Remove (sim_env g) = sim_unlink"
  "rand_Read (sim_env g) = sim_rand" "time_Now (sim_env g) = (\<lambda>s. (sm_now s, s))"
  "slog (sim_env g) = (\<lambda>lv m s. s\<lparr>sm_log := sm_log s @ [(lv, m)]\<rparr>)"
  "http_Do (sim_env g) = (\<lambda>rq s. (g rq s, s\<lparr>sm_requests := sm_requests s @ [rq]\<rparr>))"
  "unicode_lower (sim_env g) = (\<lambda>s. s)"
  by (simp_all add: sim_env_def)

section \<open>The contract holds\<close>

lemma digit_graphic: "is_digit c \<Longrightarrow> graphic c"
  by (auto simp: is_digit_def graphic_def)

lemma sim_id_token [simp]: "word_token (sim_id i)"
  by (auto simp: sim_id_def word_token_def list_all_iff graphic_def[of "CHR ''c''"]
      dest: show_nat_digits intro: digit_graphic)

lemma sim_id_inj [simp]: "sim_id i = sim_id j \<longleftrightarrow> i = j"
  by (simp add: sim_id_def)

lemma state_token [simp]: "word_token (cstate_text st)"
  by (cases st) (auto simp: word_token_def graphic_def)

lemma cstate_text_running [simp]: "cstate_text st = ''running'' \<longleftrightarrow> st = CRunning"
  by (cases st) auto

lemma sim_list_ids: "(x, c) \<in> set (sim_list i cs) \<Longrightarrow> \<exists>j. i \<le> j \<and> j < i + length cs \<and> x = sim_id j"
proof (induction i cs rule: sim_list.induct)
  case (2 i cs)
  then show ?case by fastforce
next
  case (3 i c cs)
  show ?case
  proof (cases "x = sim_id i")
    case True
    then show ?thesis by (intro exI[where x = i]) simp
  next
    case False
    with 3 show ?thesis by fastforce
  qed
qed simp

lemma sim_list_distinct: "distinct (map fst (sim_list i cs))"
proof (induction i cs rule: sim_list.induct)
  case (3 i c cs)
  have "sim_id i \<notin> fst ` set (sim_list (Suc i) cs)"
    by (auto dest!: sim_list_ids)
  with 3 show ?case by simp
qed simp_all

lemma sim_list_append: "sim_list i (cs @ [Some c]) = sim_list i cs @ [(sim_id (i + length cs), c)]"
  by (induction i cs rule: sim_list.induct) simp_all

lemma render_id [simp]: "render_container ''{{.ID}}'' = fst"
  by (rule ext) (simp add: render_container_def template_def)

lemma render_state [simp]: "render_container ''{{.State.Status}}'' (i, c) = cstate_text (sc_state c)"
  by (simp add: render_container_def template_def)

lemma sim_lines_join: "xs \<noteq> [] \<Longrightarrow> sim_lines xs = join [CHR 0x0A] xs @ [CHR 0x0A]"
  by (induction "[CHR 0x0A]" xs rule: join.induct) (auto simp: sim_lines_def)

lemma join_tokens_ends:
  "xs \<noteq> [] \<Longrightarrow> list_all word_token xs \<Longrightarrow>
     join [CHR 0x0A] xs \<noteq> [] \<and> hd (join [CHR 0x0A] xs) = hd (hd xs) \<and>
     last (join [CHR 0x0A] xs) = last (last xs)"
proof (induction "[CHR 0x0A]" xs rule: join.induct)
  case (2 x)
  then show ?case by (simp add: word_token_def)
next
  case (3 x y ys)
  then show ?case by (simp add: word_token_def)
qed simp

lemma TrimSpace_sim_lines:
  assumes "list_all word_token xs" shows "TrimSpace (sim_lines xs) = join [CHR 0x0A] xs"
proof (cases "xs = []")
  case True
  then show ?thesis by (simp add: sim_lines_def)
next
  case False
  note e = join_tokens_ends[OF False assms]
  have "word_token (hd xs)" "word_token (last xs)" using False assms by (auto simp: list_all_iff)
  then have "graphic (hd (hd xs))" "graphic (last (last xs))" by (auto dest: word_token_ends)
  with e sim_lines_join[OF False] show ?thesis by (simp add: TrimSpace_line)
qed

lemma Fields_sim_lines: "list_all word_token xs \<Longrightarrow> Fields (TrimSpace (sim_lines xs)) = xs"
  by (simp add: TrimSpace_sim_lines Fields_lines)

lemma newline_not_graphic: "list_all graphic x \<Longrightarrow> CHR 0x0A \<notin> set x"
  by (auto simp: list_all_iff graphic_def)

lemma running_lines_sim:
  assumes "list_all word_token xs" "xs \<noteq> []"
  shows "running_lines (sim_lines xs) = count_where (\<lambda>x. x = ''running'') xs"
proof -
  have "Split CHR 0x0A (join [CHR 0x0A] xs) = xs"
    using assms by (intro Split_join) (auto simp: list_all_iff word_token_def newline_not_graphic)
  moreover have "count_where (\<lambda>x. TrimSpace x = ''running'') xs = count_where (\<lambda>x. x = ''running'') xs"
    using assms(1) by (induction xs) auto
  ultimately show ?thesis using assms(1) by (simp add: running_lines_def TrimSpace_sim_lines)
qed

lemma running_ids: "x \<in> sim_running s \<longleftrightarrow> (\<exists>c. map_of (entries s) x = Some c \<and> sc_state c = CRunning)"
  using sim_list_distinct[of 0 "sm_containers s"]
  by (force simp: sim_running_def image_iff dest: map_of_SomeD intro: map_of_is_SomeI)

lemma sim_ps_ids:
  assumes "sim_exec (ps_args r) s = ((out, er, None), s')"
  shows "Fields (TrimSpace out) = map fst (filter (\<lambda>(i, c). of_repo r c) (entries s))"
proof -
  have t: "list_all word_token (map fst (filter (\<lambda>(i, c). of_repo r c) (entries s)))"
    by (auto simp: list_all_iff dest: sim_list_ids)
  have "out = sim_lines (map fst (filter (\<lambda>(i, c). of_repo r c) (entries s)))"
    using assms
    by (auto simp: sim_exec_def Let_def ps_args_def sim_ps_def passes_def of_repo_def
        TrimPrefix_append[of "''label=''", simplified] conj_commute case_prod_unfold
        split: if_splits)
  with Fields_sim_lines[OF t] show ?thesis by simp
qed

lemma sim_inspect_counts:
  assumes "ids \<noteq> []" "sim_exec (inspect_args ids) s = ((out, er, None), s')"
  shows "running_lines out = count_where (\<lambda>i. i \<in> sim_running s) ids"
proof -
  let ?st = "\<lambda>i. cstate_text (sc_state (the (map_of (entries s) i)))"
  have ok: "list_all (\<lambda>i. map_of (entries s) i \<noteq> None) ids" and out: "out = sim_lines (map ?st ids)"
    using assms
    by (auto simp: sim_exec_def Let_def inspect_args_def sim_inspect_def split: if_splits)
  have "running_lines out = count_where (\<lambda>x. x = ''running'') (map ?st ids)"
    unfolding out using assms(1) by (intro running_lines_sim) (auto simp: list_all_iff)
  also have "\<dots> = count_where (\<lambda>i. i \<in> sim_running s) ids"
    using ok by (induction ids) (auto simp: running_ids)
  finally show ?thesis .
qed

lemma docker_run_flags:
  "run_flags no_opts (tl (docker_run_args nm ef repo img)) =
     Some \<lparr>ro_name = nm, ro_labels = [managedLabel, repoLabelKey @ ''='' @ rc_Name repo],
       ro_files = [ef], ro_env = [''EPHEMERAL=true'', ''RUN_AS_ROOT=true'', ''DISABLE_AUTO_UPDATE=true'',
         ''RUNNER_SCOPE=repo'', ''REPO_URL='' @ rc_RepoURL repo, ''RUNNER_NAME='' @ nm,
         ''LABELS='' @ rc_RunnerLabels repo]\<rparr>"
  by (simp add: docker_run_args_def no_opts_def)

lemma sim_exec_run:
  "sim_exec (''run'' # xs) s =
     (if sm_down s then (docker_fails ''Cannot connect to the Docker daemon'',
        s\<lparr>sm_argv := sm_argv s @ [''run'' # xs]\<rparr>)
      else sim_run xs (s\<lparr>sm_argv := sm_argv s @ [''run'' # xs]\<rparr>))"
  by (simp add: sim_exec_def Let_def)

lemma sim_run_opts:
  assumes "run_flags no_opts xs = Some ro" "sim_run xs s = (res, s')"
  shows "(\<exists>m. res = docker_fails m \<and> s' = s) \<or>
    (\<exists>c. s' = s\<lparr>sm_containers := sm_containers s @ [Some c]\<rparr> \<and> sc_name c = ro_name ro
       \<and> sc_labels c = ro_labels ro \<and> sc_state c = CRunning)"
proof -
  consider "list_ex (\<lambda>f. map_of (sm_files s) f = None) (ro_files ro)"
    | "\<not> list_ex (\<lambda>f. map_of (sm_files s) f = None) (ro_files ro)"
      "list_ex (\<lambda>(i, c). sc_name c = ro_name ro) (entries s)"
    | "\<not> list_ex (\<lambda>f. map_of (sm_files s) f = None) (ro_files ro)"
      "\<not> list_ex (\<lambda>(i, c). sc_name c = ro_name ro) (entries s)" by blast
  then show ?thesis
  proof cases
    case 3
    from assms(2)[symmetric] show ?thesis
      unfolding sim_run_def assms(1) option.case if_not_P[OF 3(1)] if_not_P[OF 3(2)] Let_def prod.inject
      by (intro disjI2) (elim conjE, intro exI conjI, assumption, simp_all)
  qed (use assms in \<open>auto simp: sim_run_def\<close>)
qed

text \<open>\<open>docker run\<close> with the spawner's arguments: an error, or one more running container.\<close>

lemma sim_run_cases:
  assumes "sim_exec (docker_run_args nm ef repo img) s = (res, s')"
  obtains
    m where "res = docker_fails m" "s' = s\<lparr>sm_argv := sm_argv s @ [docker_run_args nm ef repo img]\<rparr>"
  | c where "sc_name c = nm" "sc_state c = CRunning"
      "sc_labels c = [managedLabel, repoLabelKey @ ''='' @ rc_Name repo]"
      "s' = s\<lparr>sm_argv := sm_argv s @ [docker_run_args nm ef repo img],
             sm_containers := sm_containers s @ [Some c]\<rparr>"
proof -
  have hd: "docker_run_args nm ef repo img = ''run'' # tl (docker_run_args nm ef repo img)"
    by (simp add: docker_run_args_def)
  let ?s = "s\<lparr>sm_argv := sm_argv s @ [docker_run_args nm ef repo img]\<rparr>"
  have "sim_exec (docker_run_args nm ef repo img) s =
      (if sm_down s then (docker_fails ''Cannot connect to the Docker daemon'', ?s)
       else sim_run (tl (docker_run_args nm ef repo img)) ?s)"
    using sim_exec_run[of "tl (docker_run_args nm ef repo img)" s] by (simp only: hd[symmetric])
  with assms have "(if sm_down s then (docker_fails ''Cannot connect to the Docker daemon'', ?s)
      else sim_run (tl (docker_run_args nm ef repo img)) ?s) = (res, s')"
    by simp
  with sim_run_opts[OF docker_run_flags[of nm ef repo img], of ?s res s'] that show ?thesis
    by (auto split: if_splits)
qed

lemma sim_live_iff:
  "x \<in> sim_live s r \<longleftrightarrow> (\<exists>c. (x, c) \<in> set (entries s) \<and> sc_state c = CRunning \<and> of_repo r c)"
  by (force simp: sim_live_def)

lemma of_repo_spawned:
  "sc_labels c = [managedLabel, repoLabelKey @ ''='' @ r'] \<Longrightarrow> of_repo r c \<longleftrightarrow> r = r'"
  by (auto simp: of_repo_def managedLabel_def repoLabelKey_def)

lemma sim_same_containers:
  "sm_containers s' = sm_containers s \<Longrightarrow> sim_live s' = sim_live s \<and> sim_running s' = sim_running s"
  by (auto simp: fun_eq_iff sim_live_def sim_running_def)

lemma sim_quiet:
  "sm_containers s' = sm_containers s \<Longrightarrow> sim_live s' \<le> sim_live s"
  "sm_containers s' = sm_containers s \<Longrightarrow> sim_running s' \<subseteq> sim_running s"
  using sim_same_containers[of s' s] by simp_all

lemma sim_ps_containers: "sim_exec (ps_args r) s = (x, s') \<Longrightarrow> sm_containers s' = sm_containers s"
  by (auto simp: sim_exec_def Let_def ps_args_def split: if_splits)

lemma sim_inspect_containers:
  "sim_exec (inspect_args ids) s = (x, s') \<Longrightarrow> sm_containers s' = sm_containers s"
  by (auto simp: sim_exec_def Let_def inspect_args_def split: if_splits)

lemma sim_file_containers:
  "sim_create s = (r, s') \<Longrightarrow> sm_containers s' = sm_containers s"
  "sim_chmod p m s = (e, s') \<Longrightarrow> sm_containers s' = sm_containers s"
  "sim_write p x s = (e, s') \<Longrightarrow> sm_containers s' = sm_containers s"
  "sim_unlink p s = (e, s') \<Longrightarrow> sm_containers s' = sm_containers s"
  "sim_rand n s = (b, s') \<Longrightarrow> sm_containers s' = sm_containers s"
  by (auto simp: sim_create_def sim_chmod_def sim_write_def sim_unlink_def sim_rand_def Let_def
      split: option.splits if_splits)

interpretation sim: docker_host "sim_env g" sim_running sim_live
proof (unfold_locales, goal_cases)
  case (1 s r)
  show ?case by (simp add: sim_live_def)
next
  case (2 s r)
  show ?case by (force simp: sim_live_def sim_running_def)
next
  case (3 r s out er s')
  then have f: "Fields (TrimSpace out) = map fst (filter (\<lambda>(i, c). of_repo r c) (entries s))"
    by (intro sim_ps_ids) simp
  have "distinct (map fst (filter (\<lambda>(i, c). of_repo r c) (entries s)))"
    using sim_list_distinct by (rule distinct_map_filter)
  moreover have "x \<in> sim_live s r" if x: "x \<in> sim_running s" and "(x, b) \<in> set (entries s)"
      "of_repo r b" for x b
  proof -
    from x obtain c where c: "map_of (entries s) x = Some c" "sc_state c = CRunning"
      unfolding running_ids by blast
    moreover from that(2) have "map_of (entries s) x = Some b"
      by (rule map_of_is_SomeI[OF sim_list_distinct])
    ultimately show ?thesis using that(2,3) unfolding sim_live_iff by auto
  qed
  moreover have "sim_live s r \<subseteq> set (map fst (filter (\<lambda>(i, c). of_repo r c) (entries s)))"
    by (force simp: sim_live_iff)
  ultimately show ?case unfolding f by auto
next
  case (4 r)
  show ?case by (auto intro!: shrinksI sim_quiet dest: sim_ps_containers)
next
  case (5 r)
  show ?case by (auto intro!: shrinksI dest: sim_quiet(2)[OF sim_ps_containers])
next
  case (6 ids s out er s')
  then show ?case by (intro sim_inspect_counts) simp_all
next
  case (7 ids)
  show ?case by (auto intro!: shrinksI sim_quiet dest: sim_inspect_containers)
next
  case (8 nm ef repo img s res s')
  then have "sim_exec (docker_run_args nm ef repo img) s = (res, s')" by simp
  then show ?case
  proof (cases rule: sim_run_cases)
    case (1 m)
    then have "sm_containers s' = sm_containers s" by simp
    from sim_same_containers[OF this] show ?thesis by auto
  next
    case (2 c)
    show ?thesis
      by (rule exI[where x = "sim_id (length (sm_containers s))"])
         (auto simp: sim_live_iff 2(4) sim_list_append of_repo_spawned[OF 2(3)])
  qed
next
  case (9 rq)
  show ?case by (auto intro!: shrinksI sim_quiet(1))
next
  case (10 n)
  show ?case by (auto intro!: shrinksI dest: sim_quiet(1)[OF sim_file_containers(5)])
next
  case 11
  show ?case by (auto intro!: shrinksI dest: sim_quiet(1)[OF sim_file_containers(1)])
next
  case (12 p m)
  show ?case by (auto intro!: shrinksI dest: sim_quiet(1)[OF sim_file_containers(2)])
next
  case (13 p t)
  show ?case by (auto intro!: shrinksI dest: sim_quiet(1)[OF sim_file_containers(3)])
next
  case (14 p)
  show ?case by (auto intro!: shrinksI)
next
  case (15 p)
  show ?case by (auto intro!: shrinksI dest: sim_quiet(1)[OF sim_file_containers(4)])
next
  case (16 lv m s)
  show ?case by (simp add: sim_quiet(1))
qed

abbreviation files_of :: "sim \<Rightarrow> string \<Rightarrow> (nat \<times> string) option" where
  "files_of s \<equiv> map_of (sm_files s)"

lemma sim_exec_files: "sim_exec args s = (x, s') \<Longrightarrow> sm_files s' = sm_files s"
  by (auto simp: sim_exec_def sim_run_def Let_def split: if_splits list.splits option.splits)

interpretation sim_files: tidy_temp_files "sim_env g" files_of
proof (unfold_locales, goal_cases)
  case (10 args s x s')
  then show ?case by (simp add: sim_exec_files)
next
  case (1 w p w')
  then show ?case
    by (cases "files_of w (sim_path (sm_tmp w))") (auto simp: sim_create_def Let_def)
qed (auto simp: sim_create_def sim_chmod_def sim_write_def sim_unlink_def sim_rand_def Let_def
    update_conv' delete_conv' split: option.splits if_splits)

section \<open>GitHub\<close>

text \<open>GitHub as a table from URLs to JSON answers; any other URL is not found.\<close>

definition sim_github :: "(string \<times> json) list \<Rightarrow> http_request \<Rightarrow> sim \<Rightarrow> err + http_response" where
  "sim_github tbl rq s = (case map_of tbl (rq_URL rq) of
     Some v \<Rightarrow> Inr \<lparr>rs_StatusCode = 200, rs_Body = json_text v\<rparr>
   | None \<Rightarrow> Inr \<lparr>rs_StatusCode = 404, rs_Body = ''Not Found''\<rparr>)"

definition web_repo :: RepoConfig where
  "web_repo = \<lparr>rc_Name = ''acme/web'', rc_RepoURL = ''https://github.com/acme/web'',
     rc_MatchLabels = [''pool-a''], rc_Label = ''pool-a'', rc_RunnerLabels = ''pool-a'',
     rc_MaxConcurrency = 2\<rparr>"

definition web_spawner :: spawner where
  "web_spawner = New ''ghp_x'' ''runner:1'' False"

definition web_container :: container where
  "web_container = \<lparr>sc_name = ''auto-pool-a-1'',
     sc_labels = [managedLabel, repoLabelKey @ ''='' @ rc_Name web_repo],
     sc_state = CRunning, sc_created = ''2026-01-01T00:00:00Z'', sc_env = []\<rparr>"

definition no_runners :: "(string \<times> json) list" where
  "no_runners = [(''https://api.github.com/repos/acme/web/actions/runners?per_page=100'',
     JObj [(''runners'', JArr [])])]"

end
