(* ===== verification/Sim_Runs.thy ===== *)
theory Sim_Runs
  imports Sim_World
begin

text \<open>
  Runs in the concrete world of \<open>Sim_World\<close>, for the examples that accompany the
  theorems: the idle check against GitHub, the container count, a launch, and a whole
  \<open>Spawn\<close> of one runner.
\<close>

lemma web_url: "url_Parse ''https://api.github.com/repos/acme/web/actions/runners?per_page=100'' =
  Some \<lparr>url_Scheme = ''https'', url_Host = ''api.github.com''\<rparr>"
  by (simp add: url_Parse_def parse_no_frag_def has_ctl_def HasPrefix_def is_alpha_def is_digit_def
      lower_byte_def parse_authority_def parse_host_def split_last_def port_ok_def host_char_def
      is_ascii_def Let_def)

definition web_request :: http_request where
  "web_request = \<lparr>rq_Method = ''GET'', rq_URL = runners_url defaultAPIBase ''acme/web'',
    rq_Header = github_headers ''ghp_x''\<rparr>"

lemma web_idle:
  "hasIdleMatchingRunner (sim_env (sim_github no_runners)) web_spawner web_repo s =
     (Inr False, s\<lparr>sm_requests := sm_requests s @ [web_request]\<rparr>)"
  using web_url
  by (simp add: hasIdleMatchingRunner_def http_NewRequest_def runners_url_def defaultAPIBase_def
      web_spawner_def New_def NewWithDeps_def web_repo_def sim_github_def no_runners_def
      signRequest_def json_Decode_text dec_idle_page_def plain_char_def json_max_depth_def
      lookup_field_def web_request_def del: json_text.simps)

lemma sim_countRunning:
  fixes s :: sim and r :: string
  assumes "\<not> sm_down s"
  defines "ids \<equiv> map fst (filter (\<lambda>(i, c). of_repo r c) (entries s))"
  shows "countRunning (sim_env g) r s =
    (Inr (int (count_where (\<lambda>(i, c). of_repo r c \<and> sc_state c = CRunning) (entries s))),
     s\<lparr>sm_argv := sm_argv s @ ps_args r # (if ids = [] then [] else [inspect_args ids])\<rparr>)"
proof -
  let ?s1 = "s\<lparr>sm_argv := sm_argv s @ [ps_args r]\<rparr>"
  obtain out er where p: "sim_exec (ps_args r) s = ((out, er, None), ?s1)"
    using assms(1) by (simp add: sim_exec_def Let_def ps_args_def sim_ps_def)
  have l: "list_ids (sim_env g) r s = (Inr ids, ?s1)"
    using p sim_ps_ids[OF p] by (simp add: list_ids_def ids_def)
  show ?thesis
  proof (cases "ids = []")
    case True
    then have "count_where (\<lambda>(i, c). of_repo r c \<and> sc_state c = CRunning) (entries s) = 0"
      unfolding ids_def count_where_zero_iff by (auto simp: filter_empty_conv)
    with l True show ?thesis by (simp add: countRunning_def count_ids_def)
  next
    case False
    have "map_of (entries s) i \<noteq> None" if "i \<in> set ids" for i
    proof -
      from that obtain c where "(i, c) \<in> set (entries s)" by (auto simp: ids_def)
      from map_of_is_SomeI[OF sim_list_distinct this] show ?thesis by simp
    qed
    then obtain out2 er2 where i: "sim_exec (inspect_args ids) ?s1 =
        ((out2, er2, None), ?s1\<lparr>sm_argv := sm_argv ?s1 @ [inspect_args ids]\<rparr>)"
      using assms(1) by (simp add: sim_exec_def Let_def inspect_args_def sim_inspect_def list_all_iff)
    have "running_lines out2 = count_where (\<lambda>i. i \<in> sim_running ?s1) ids"
      by (rule sim_inspect_counts[OF False i])
    also have "\<dots> = count_where (\<lambda>(i, c). of_repo r c \<and> sc_state c = CRunning) (entries s)"
    proof -
      have "fst e \<in> sim_running ?s1 \<longleftrightarrow> sc_state (snd e) = CRunning" if "e \<in> set (entries s)" for e
        using that map_of_is_SomeI[OF sim_list_distinct, of "fst e" "snd e" 0 "sm_containers s"]
        by (auto simp: running_ids)
      then have "count_where (\<lambda>i. i \<in> sim_running ?s1) (map fst (filter (\<lambda>(i, c). of_repo r c) es))
          = count_where (\<lambda>(i, c). of_repo r c \<and> sc_state c = CRunning) es"
        if "set es \<subseteq> set (entries s)" for es
        using that by (induction es) (auto split: prod.splits)
      then show ?thesis unfolding ids_def by simp
    qed
    finally show ?thesis using l i False by (simp add: countRunning_def count_ids_def)
  qed
qed


lemma sim_run_ok:
  assumes "\<not> sm_down s" "files_of s ef = Some (m, t)" "\<forall>(i, c) \<in> set (entries s). sc_name c \<noteq> nm"
  shows "sim_exec (docker_run_args nm ef repo img) s =
    ((sim_id (length (sm_containers s)) @ [CHR 0x0A], [], None),
     s\<lparr>sm_argv := sm_argv s @ [docker_run_args nm ef repo img],
       sm_containers := sm_containers s @ [Some \<lparr>sc_name = nm,
         sc_labels = [managedLabel, repoLabelKey @ ''='' @ rc_Name repo], sc_state = CRunning,
         sc_created = sm_date s,
         sc_env = filter (\<lambda>l. l \<noteq> []) (Split CHR 0x0A t) @
           [''EPHEMERAL=true'', ''RUN_AS_ROOT=true'', ''DISABLE_AUTO_UPDATE=true'',
            ''RUNNER_SCOPE=repo'', ''REPO_URL='' @ rc_RepoURL repo, ''RUNNER_NAME='' @ nm,
            ''LABELS='' @ rc_RunnerLabels repo]\<rparr>]\<rparr>)"
proof -
  have hd: "docker_run_args nm ef repo img = ''run'' # tl (docker_run_args nm ef repo img)"
    by (simp add: docker_run_args_def)
  have n: "\<not> list_ex (\<lambda>(i, c). sc_name c = nm) (entries s)"
    using assms(3) by (auto simp: list_ex_iff)
  have "sim_exec (docker_run_args nm ef repo img) s =
      sim_run (tl (docker_run_args nm ef repo img)) (s\<lparr>sm_argv := sm_argv s @ [docker_run_args nm ef repo img]\<rparr>)"
    using sim_exec_run[of "tl (docker_run_args nm ef repo img)" s] assms(1)
    by (simp only: hd[symmetric]) simp
  then show ?thesis
    using assms(2) n by (simp add: sim_run_def docker_run_flags Let_def)
qed

lemma web_simps [simp]:
  "sp_pat web_spawner = ''ghp_x''" "sp_paused web_spawner = False" "sp_dryRun web_spawner = False"
  "sp_runnerImage web_spawner = ''runner:1''" "sp_apiBase web_spawner = defaultAPIBase"
  "totalSpawned web_spawner = 0" "totalIdleSkip web_spawner = 0"
  "rc_Name web_repo = ''acme/web''" "rc_MaxConcurrency web_repo = 2"
  "rc_MatchLabels web_repo = [''pool-a'']"
  by (simp_all add: web_spawner_def New_def NewWithDeps_def web_repo_def)

lemma sim_start_simps [simp]:
  "sm_containers (sim_start cs) = map Some cs" "sm_files (sim_start cs) = []"
  "sm_tmp (sim_start cs) = 0" "sm_down (sim_start cs) = False" "sm_rand (sim_start cs) = 0"
  "sm_requests (sim_start cs) = []" "sm_argv (sim_start cs) = []" "sm_log (sim_start cs) = []"
  "sm_now (sim_start cs) = 0" "sm_date (sim_start cs) = ''2026-01-01T00:00:00Z''"
  by (simp_all add: sim_start_def)

lemma char_of_nul: "char_of (0 :: nat) = CHR 0x00"
  by (simp add: char_of_def)

lemma web_name: "runner_name web_repo (hex_EncodeToString [CHR 0x00, CHR 0x00, CHR 0x00, CHR 0x00]) = ''auto-pool-a-00000000''"
  by (simp add: runner_name_def runner_tag_def web_repo_def hex_EncodeToString_def hex_byte_def
    hex_digit_def name_char_def is_alpha_def is_digit_def char_of_def bit_iff_odd)

lemma web_spawn_ex:
  "\<exists>w. Spawn (sim_env (sim_github no_runners)) web_repo web_spawner (sim_start []) =
     (None, count_spawned web_spawner, w) \<and> sm_files w = [] \<and>
     map (map_option sc_name) (sm_containers w) = [Some ''auto-pool-a-00000000'']"
  by (simp add: Spawn_def spawn_idle_def web_idle sim_countRunning spawn_decide_def spawn_launch_def
    spawn_prepare_def randHex_def sim_rand_def writePATEnvFile_def sim_create_def sim_chmod_def sim_write_def
    sim_unlink_def Let_def spawn_run_def sim_path_def show_nat_digit path_Clean_def HasPrefix_def sim_run_ok web_name numeral_3_eq_3 char_of_nul)

lemma web_spawn:
  obtains w where "Spawn (sim_env (sim_github no_runners)) web_repo web_spawner (sim_start []) =
      (None, count_spawned web_spawner, w)" "sm_files w = []"
    "map (map_option sc_name) (sm_containers w) = [Some ''auto-pool-a-00000000'']"
  using web_spawn_ex by (elim exE conjE)

end
