(* ===== verification/Spawner_Props.thy ===== *)
theory Spawner_Props
  imports Spawn_Race Sim_Runs
begin

text \<open>
  The properties of the spawner: the concurrency cap and the mutual exclusion under any
  interleaving, the life of the token's env-file, what each call counts, the idle check,
  the runner counts and the container names. Each comes with a concrete instance in the
  simulated world.
\<close>

section \<open>The race\<close>

lemma cap_inv_start:
  assumes "\<And>r. int (card (live w r)) \<le> K r" shows "cap_inv cfgs live K (race_start sp w)"
  using assms lock_inv_start[of sp w] by (simp add: cap_inv_def race_start_def)

text \<open>
  Claim C1. However many callers run \<open>Spawn\<close> at once, and however their steps interleave
  with each other, with the pause switch and with containers stopping, the number of
  running containers of a repo never exceeds its cap (or what was running at the start).
\<close>

theorem race_cap:
  assumes host: "docker_host E running live"
    and reach: "race_reach E (set (cfg_Repos c)) ext (race_start sp w) s"
    and ext: "\<forall>w w'. ext w w' \<longrightarrow> live w' \<le> live w"
    and caps: "\<forall>repo \<in> set (cfg_Repos c). rc_Name repo = n \<longrightarrow> rc_MaxConcurrency repo \<le> K"
    and start: "int (card (live w n)) \<le> K"
  shows "int (card (live (rs_world s) n)) \<le> K"
proof -
  let ?B = "Max (insert 0 (rc_MaxConcurrency ` set (cfg_Repos c)))"
  define K' where "K' m = (if m = n then K else max ?B (int (card (live w m))))" for m
  have "cap_inv (set (cfg_Repos c)) live K' (race_start sp w)"
    using start by (intro cap_inv_start) (simp add: K'_def)
  moreover have "rc_MaxConcurrency repo \<le> K' (rc_Name repo)" if "repo \<in> set (cfg_Repos c)" for repo
    using caps that by (auto simp: K'_def le_max_iff_disj intro: Max_ge)
  ultimately have "cap_inv (set (cfg_Repos c)) live K' s"
    using docker_host.race_reach_cap_inv[OF host reach] ext by blast
  from cap_invD(4)[OF this, of n] show ?thesis by (simp add: K'_def)
qed

definition web_config :: Config where
  "web_config = zero_Config\<lparr>cfg_GitHubPAT := ''ghp_x'', cfg_Repos := [web_repo]\<rparr>"

lemma web_race:
  "\<exists>s. race_reach (sim_env (sim_github no_runners)) (set (cfg_Repos web_config)) ext
        (race_start web_spawner (sim_start [])) s
     \<and> rs_pc s 0 = Returned None \<and> length (sm_containers (rs_world s)) = 1"
proof -
  let ?E = "sim_env (sim_github no_runners)" and ?s0 = "race_start web_spawner (sim_start [])"
  let ?s1 = "goto 0 (Entering web_repo) ?s0"
  obtain w where w: "Spawn ?E web_repo web_spawner (sim_start []) = (None, count_spawned web_spawner, w)"
    "map (map_option sc_name) (sm_containers w) = [Some ''auto-pool-a-00000000'']"
    by (rule web_spawn)
  have "race_reach ?E (set (cfg_Repos web_config)) ext ?s0 ?s1"
    by (intro race_reach.step[OF race_reach.start] race_step.call) (simp_all add: web_config_def race_start_def)
  moreover have "race_reach ?E (set (cfg_Repos web_config)) ext ?s1
      (act 0 (Returned None) (count_spawned web_spawner) w ?s1)"
    by (rule Spawn_is_race[where repo = web_repo]) (simp_all add: race_start_def w)
  ultimately have "race_reach ?E (set (cfg_Repos web_config)) ext ?s0
      (act 0 (Returned None) (count_spawned web_spawner) w ?s1)"
    by (rule race_reach_trans[rotated])
  moreover have "length (sm_containers w) = 1" using arg_cong[OF w(2), of length] by simp
  ultimately show ?thesis
    by (intro exI[where x = "act 0 (Returned None) (count_spawned web_spawner) w ?s1"]) simp
qed

theorem race_cap_witness:
  "\<exists>s :: sim race. rs_pc s 0 = Returned None \<and> length (sm_containers (rs_world s)) = 1
     \<and> int (card (sim_live (rs_world s) ''acme/web'')) \<le> 2"
proof -
  obtain s where s: "race_reach (sim_env (sim_github no_runners)) (set (cfg_Repos web_config))
        (\<lambda>w w'. sim_live w' \<le> sim_live w) (race_start web_spawner (sim_start [])) s"
     "rs_pc s 0 = Returned None" "length (sm_containers (rs_world s)) = 1"
    using web_race by blast
  have "int (card (sim_live (rs_world s) ''acme/web'')) \<le> 2"
    by (rule race_cap[OF sim.docker_host_axioms s(1)]) (simp_all add: web_config_def sim_live_def)
  with s show ?thesis by blast
qed

text \<open>
  Claim C17. No two callers are between the lock and the unlock of \<open>Spawn\<close> for the same
  repo name at once, in any reachable state.
\<close>

theorem race_mutual_exclusion:
  assumes "race_reach E cfgs ext (race_start sp w) s" "t \<noteq> u" "held (rs_pc s t) = Some n"
  shows "held (rs_pc s u) \<noteq> Some n \<and> rs_lock s n = Some t"
proof -
  have "lock_inv s" by (rule race_reach_lock_inv[OF assms(1) lock_inv_start])
  with lock_inv_exclusive[of s t n u] lock_inv_held[of s t n] assms(2,3) show ?thesis by auto
qed

text \<open>Thread 0 inside, thread 1 waiting for the same repo.\<close>

definition web_contended :: "sim race" where
  "web_contended = \<lparr>rs_sp = web_spawner, rs_world = sim_start [],
     rs_lock = [''acme/web'' \<mapsto> 0],
     rs_pc = (\<lambda>_. Idle)(0 := Checking web_repo, 1 := Locking web_repo)\<rparr>"

lemma web_contended_reach:
  "race_reach E {web_repo} ext (race_start web_spawner (sim_start [])) web_contended"
proof -
  let ?s0 = "race_start web_spawner (sim_start [])"
  let ?s1 = "goto 0 (Entering web_repo) ?s0"
  let ?s2 = "goto 0 (Locking web_repo) ?s1"
  let ?s3 = "(goto 0 (Checking web_repo) ?s2)\<lparr>rs_lock := (rs_lock ?s2)(rc_Name web_repo := Some 0)\<rparr>"
  let ?s4 = "goto 1 (Entering web_repo) ?s3"
  let ?s5 = "goto 1 (Locking web_repo) ?s4"
  have "race_reach E {web_repo} ext ?s0 ?s1"
    by (intro race_reach.step[OF race_reach.start] race_step.call) (simp_all add: race_start_def)
  then have "race_reach E {web_repo} ext ?s0 ?s2"
    by (rule race_reach.step[OF _ race_step.admitted[of ?s1 0 web_repo]]) (simp_all add: race_start_def)
  then have "race_reach E {web_repo} ext ?s0 ?s3"
    by (rule race_reach.step[OF _ race_step.lock[of ?s2 0 web_repo]]) (simp_all add: race_start_def)
  then have "race_reach E {web_repo} ext ?s0 ?s4"
    by (rule race_reach.step[OF _ race_step.call[of ?s3 1 web_repo]]) (simp_all add: race_start_def)
  then have "race_reach E {web_repo} ext ?s0 ?s5"
    by (rule race_reach.step[OF _ race_step.admitted[of ?s4 1 web_repo]]) (simp_all add: race_start_def)
  moreover have "?s5 = web_contended"
    by (simp add: web_contended_def race_start_def goto_def)
  ultimately show ?thesis by simp
qed

theorem race_mutual_exclusion_witness:
  "held (rs_pc web_contended 1) \<noteq> Some ''acme/web'' \<and> rs_lock web_contended ''acme/web'' = Some 0"
  by (rule race_mutual_exclusion[OF web_contended_reach]) (simp_all add: web_contended_def)

text \<open>
  Claim C18. \<open>Spawn\<close> never deadlocks: in any reachable state a call that has not returned
  can take its next step, or it waits for the mutex of its repo and the call that holds it
  can take its next step; every such step leaves that call fewer steps to its return.
\<close>

theorem race_progress:
  assumes "race_reach E cfgs ext (race_start sp w) s" "pc_repo (rs_pc s t) = Some repo"
  shows "can_step E cfgs ext s t
    \<or> (\<exists>u. u \<noteq> t \<and> rs_lock s (rc_Name repo) = Some u \<and> can_step E cfgs ext s u)"
  using race_reach_lock_inv[OF assms(1) lock_inv_start] assms(2) by (rule call_progress)

theorem race_progress_witness:
  "can_step (sim_env (sim_github [])) {web_repo} (=) web_contended 1 \<or>
    (\<exists>u. u \<noteq> 1 \<and> rs_lock web_contended (rc_Name web_repo) = Some u
       \<and> can_step (sim_env (sim_github [])) {web_repo} (=) web_contended u)"
  by (rule race_progress[OF web_contended_reach]) (simp add: web_contended_def)

text \<open>
  Claim C16. The sequential \<open>Spawn\<close> and the step relation agree: what \<open>Spawn\<close> returns, does
  to the counters and does to the world is what a thread reaches that runs the steps alone,
  and it gives the mutex back on every path.
\<close>

theorem Spawn_alone_is_race:
  assumes "Spawn E repo sp w = (e, sp', w')" "repo \<in> cfgs"
  shows "race_reach E cfgs ext (race_start sp w)
     \<lparr>rs_sp = sp', rs_world = w', rs_lock = (\<lambda>_. None), rs_pc = (\<lambda>_. Idle)(t := Returned e)\<rparr>"
  using assms by (rule Spawn_race_return)

theorem Spawn_alone_is_race_witness:
  "\<exists>w. race_reach (sim_env (sim_github no_runners)) {web_repo} (=)
     (race_start web_spawner (sim_start []))
     \<lparr>rs_sp = count_spawned web_spawner, rs_world = w, rs_lock = (\<lambda>_. None),
       rs_pc = (\<lambda>_. Idle)(7 := Returned None)\<rparr> \<and> length (sm_containers w) = 1"
proof -
  obtain w where w: "Spawn (sim_env (sim_github no_runners)) web_repo web_spawner (sim_start []) =
      (None, count_spawned web_spawner, w)"
    "map (map_option sc_name) (sm_containers w) = [Some ''auto-pool-a-00000000'']"
    by (rule web_spawn)
  from Spawn_alone_is_race[OF w(1), of "{web_repo}" "(=)" 7] arg_cong[OF w(2), of length] show ?thesis
    by (intro exI[where x = w]) simp
qed

section \<open>Cap, file, counters\<close>

text \<open>
  Claim C20. The count that the cap check uses is never below the number of containers of
  the repo running when it is taken, and never above the number running when it started:
  containers listed that are not running do not count, and none running is missed.
\<close>

theorem countRunning_accurate:
  assumes "docker_host E running live" "countRunning E r w = (Inr k, w')"
  shows "int (card (live w' r)) \<le> k \<and> k \<le> int (card (live w r))"
  using assms by (rule docker_host.countRunning_bounds)

text \<open>A running container of the repo and an exited one: one is counted.\<close>

definition web_half :: sim where
  "web_half = sim_start [web_container\<lparr>sc_name := ''auto-old'', sc_state := CExited\<rparr>, web_container]"

lemma web_of_repo: "sc_labels c = sc_labels web_container \<Longrightarrow> of_repo ''acme/web'' c"
  by (simp add: web_container_def of_repo_def)

theorem countRunning_accurate_witness:
  "\<exists>w'. countRunning (sim_env (sim_github [])) ''acme/web'' web_half = (Inr 1, w')
     \<and> int (card (sim_live w' ''acme/web'')) \<le> 1 \<and> 1 \<le> int (card (sim_live web_half ''acme/web''))"
proof -
  have "count_where (\<lambda>(i, c). of_repo ''acme/web'' c \<and> sc_state c = CRunning) (entries web_half) = 1"
    by (simp add: web_half_def web_of_repo) (simp add: web_container_def)
  then obtain w' where "countRunning (sim_env (sim_github [])) ''acme/web'' web_half = (Inr 1, w')"
    using sim_countRunning[of web_half "sim_github []" "''acme/web''"] by (simp add: web_half_def)
  with countRunning_accurate[OF sim.docker_host_axioms this] show ?thesis by blast
qed

text \<open>
  Claim C21. When \<open>docker run\<close> is about to read it, the env-file is a new file of mode 0600
  whose only content is the line \<open>ACCESS_TOKEN=\<close> and the token, and no other file has
  changed since \<open>Spawn\<close> prepared the launch.
\<close>

theorem env_file_private:
  assumes "temp_files E files" "spawn_prepare E repo s w = (Inr (name, envFile, path), s', w')"
  shows "files w path = None \<and> envFile = path_Clean path
     \<and> files w' = (files w)(path \<mapsto> (6 * 8 ^ 2, ''ACCESS_TOKEN='' @ sp_pat s @ [CHR 0x0A]))"
proof -
  obtain hex w1 where h: "randHex E 4 w = (hex, w1)" by fastforce
  with assms(2) have f: "writePATEnvFile E (sp_pat s) w1 = (Inr (envFile, path), w')"
    by (auto simp: spawn_prepare_def split: if_splits prod.splits sum.splits)
  from temp_files.written_file[OF assms(1) f] temp_files.randHex_same[OF assms(1) h] show ?thesis
    by (simp add: env_file_line_def)
qed

theorem env_file_private_witness:
  "\<exists>name w'. spawn_prepare (sim_env (sim_github [])) web_repo web_spawner (sim_start []) =
       (Inr (name, ''/tmp/autoscaler-env-0.env'', ''/tmp/autoscaler-env-0.env''), web_spawner, w')
     \<and> files_of w' ''/tmp/autoscaler-env-0.env'' = Some (384, ''ACCESS_TOKEN=ghp_x'' @ [CHR 0x0A])"
proof -
  obtain name w' where p: "spawn_prepare (sim_env (sim_github [])) web_repo web_spawner (sim_start []) =
       (Inr (name, ''/tmp/autoscaler-env-0.env'', ''/tmp/autoscaler-env-0.env''), web_spawner, w')"
    by (simp add: spawn_prepare_def randHex_def sim_rand_def writePATEnvFile_def sim_create_def
        sim_chmod_def sim_write_def Let_def sim_path_def show_nat_digit path_Clean_def HasPrefix_def)
  with env_file_private[OF sim_files.temp_files_axioms p] show ?thesis by auto
qed

text \<open>
  Claim C4. Every path through \<open>Spawn\<close>, each error included, leaves the files as they
  were: the token's file never outlives the call.
\<close>

theorem Spawn_leaves_no_file:
  assumes "tidy_temp_files E files" "Spawn E repo s w = (e, s', w')"
  shows "files w' = files w"
  using assms by (rule tidy_temp_files.Spawn_same_files)

theorem Spawn_leaves_no_file_witness:
  "\<exists>w'. Spawn (sim_env (sim_github no_runners)) web_repo web_spawner (sim_start []) =
      (None, count_spawned web_spawner, w') \<and> files_of w' = files_of (sim_start [])"
proof -
  obtain w' where w: "Spawn (sim_env (sim_github no_runners)) web_repo web_spawner (sim_start []) =
      (None, count_spawned web_spawner, w')" by (rule web_spawn)
  with Spawn_leaves_no_file[OF sim_files.tidy_temp_files_axioms w] show ?thesis by blast
qed

text \<open>
  Claim C19. Each call counts exactly once, in the counter of its result (modulo 2 to the
  64): paused, cap hit, any other error, or a success. A success is an idle skip exactly when
  the idle check found a runner; every other success counts as spawned, and is a dry run or
  a \<open>docker run\<close> that answered without an error. Nothing else of the spawner changes, and
  the pause and the cap sentinels are returned bare.
\<close>

theorem Spawn_counts_once:
  assumes "Spawn E repo s w = (e, s', w')"
  shows "(case e of
      None \<Rightarrow>
        if fst (hasIdleMatchingRunner E s repo w) = Inr True
        then s' = s\<lparr>totalIdleSkip := totalIdleSkip s + 1\<rparr>
        else s' = s\<lparr>totalSpawned := totalSpawned s + 1\<rparr>
          \<and> (sp_dryRun s \<or> (\<exists>name file w1 out er w2.
               docker_Exec E (docker_run_args name file repo (sp_runnerImage s)) w1 = ((out, er, None), w2)))
    | Some x \<Rightarrow>
        if x = ErrPaused then s' = s\<lparr>totalPaused := totalPaused s + 1\<rparr>
        else if x = ErrCapHit then s' = s\<lparr>totalCapHit := totalCapHit s + 1\<rparr>
        else s' = s\<lparr>totalErrors := totalErrors s + 1\<rparr>)
    \<and> (e = Some ErrPaused) = sp_paused s \<and> (sp_paused s \<longrightarrow> w' = w)"
  using assms
proof (cases rule: Spawn_cases)
  case paused
  then show ?thesis by (simp add: counter_defs)
next
  case idle
  from idle(2) have "s' = count_idle_skip s \<and> fst (hasIdleMatchingRunner E s repo w) = Inr True"
    by (cases rule: spawn_idle_cases) auto
  with idle show ?thesis by (simp add: counter_defs)
next
  case (stopped s1 w1 n w2 e')
  from stopped(2) have s1: "s1 = s" by (cases rule: spawn_idle_cases) auto
  from stopped(4) have "e' = ErrCapHit \<and> s' = count_cap_hit s1 \<or>
      (\<exists>ne. e' = ErrWrap ''count running: '' ne []) \<and> s' = count_error s1"
    by (cases rule: spawn_decide_cases) auto
  with stopped(1,5) s1 show ?thesis by (auto simp: counter_defs)
next
  case (launched s1 w1 k w2)
  from launched(2) have s1: "s1 = s" "fst (hasIdleMatchingRunner E s repo w) \<noteq> Inr True"
    by (cases rule: spawn_idle_cases; simp)+
  from launched(5) have "e = None \<and> s' = count_spawned s1 \<and> (sp_dryRun s1 \<or> (\<exists>name file w1 out er w2.
        docker_Exec E (docker_run_args name file repo (sp_runnerImage s1)) w1 = ((out, er, None), w2))) \<or>
      (\<exists>p x q. e = Some (ErrWrap p x q)) \<and> s' = count_error s1"
    by (cases rule: spawn_launch_cases; simp; blast)
  with launched(1) s1 show ?thesis by (auto simp: counter_defs)
qed

theorem Spawn_counts_once_witness:
  "\<exists>w' s'. Spawn (sim_env (sim_github no_runners)) web_repo web_spawner (sim_start []) = (None, s', w')
     \<and> totalSpawned s' = 1 \<and> totalIdleSkip s' = 0"
proof -
  obtain s' w' where w: "Spawn (sim_env (sim_github no_runners)) web_repo web_spawner (sim_start []) =
      (None, s', w')" using web_spawn by metis
  have "totalSpawned s' = 1 \<and> totalIdleSkip s' = 0"
    using Spawn_counts_once[OF w] by (simp add: web_idle)
  with w show ?thesis by blast
qed

section \<open>GitHub's answers\<close>

lemma idle_match_iff:
  "idle_match E want rs \<longleftrightarrow> (\<exists>r \<in> set rs. \<not> ir_Busy r \<and> ir_Status r = ''online''
     \<and> (\<exists>l \<in> set (ir_Labels r). lower E l \<in> set want))"
  by (induction rs) (auto simp: list_ex_iff)

text \<open>
  Claim C22. When GitHub lists the runners, \<open>Spawn\<close> (unless paused) skips exactly if some
  runner is online, not busy, and has a label equal, up to case, to one the repo matches: then
  the call succeeds as an idle skip and nothing follows the listing. If there is none, the
  containers of the repo are counted: a failed count or a count at the cap is the error of the
  call, and below the cap the runner is launched.
\<close>

theorem idle_runner_skips:
  assumes rq: "url_Parse (runners_url (sp_apiBase s) (rc_Name repo)) \<noteq> None"
    and http: "http_Do E \<lparr>rq_Method = ''GET'', rq_URL = runners_url (sp_apiBase s) (rc_Name repo),
        rq_Header = github_headers (sp_pat s)\<rparr> w = (Inr rs, w1)"
    and ok: "rs_StatusCode rs = 200" "json_Decode dec_idle_page (rs_Body rs) [] = (page, None)"
  shows "hasIdleMatchingRunner E s repo w =
      (Inr (\<exists>r \<in> set page. ir_Status r = ''online'' \<and> \<not> ir_Busy r
         \<and> (\<exists>l \<in> set (ir_Labels r). \<exists>m \<in> set (rc_MatchLabels repo). lower E l = lower E m)), w1)
    \<and> (\<not> sp_paused s \<longrightarrow> Spawn E repo s w =
        (if \<exists>r \<in> set page. ir_Status r = ''online'' \<and> \<not> ir_Busy r
            \<and> (\<exists>l \<in> set (ir_Labels r). \<exists>m \<in> set (rc_MatchLabels repo). lower E l = lower E m)
         then (None, count_idle_skip s, slog E LevelInfo ''skip spawn: idle matching runner exists'' w1)
         else case countRunning E (rc_Name repo) w1 of
             (Inl e, w2) \<Rightarrow> (Some (ErrWrap ''count running: '' e []), count_error s, w2)
           | (Inr n, w2) \<Rightarrow>
               if rc_MaxConcurrency repo \<le> n
               then (Some ErrCapHit, count_cap_hit s, slog E LevelInfo ''concurrency cap hit'' w2)
               else spawn_launch E repo s w2))"
proof -
  let ?m = "idle_match E (map (lower E) (rc_MatchLabels repo)) page"
  have h: "hasIdleMatchingRunner E s repo w = (Inr ?m, w1)"
    using assms by (auto simp: hasIdleMatchingRunner_def http_NewRequest_def signRequest_def)
  have m: "(\<exists>r \<in> set page. ir_Status r = ''online'' \<and> \<not> ir_Busy r
         \<and> (\<exists>l \<in> set (ir_Labels r). \<exists>m \<in> set (rc_MatchLabels repo). lower E l = lower E m)) = ?m"
    by (auto simp: idle_match_iff image_iff)
  show ?thesis unfolding m
    by (cases ?m) (simp_all add: h Spawn_def spawn_idle_def spawn_decide_def split: prod.split sum.split)
qed

text \<open>A busy runner with the label and an idle one with it in other case.\<close>

definition web_runner :: "string \<Rightarrow> string \<Rightarrow> bool \<Rightarrow> string \<Rightarrow> json" where
  "web_runner nm st b l = JObj [(''id'', JNum ''7''), (''name'', JStr nm), (''status'', JStr st),
     (''busy'', JBool b), (''labels'', JArr [JObj [(''name'', JStr l)]])]"

definition two_runners :: json where
  "two_runners = JObj [(''runners'', JArr
     [web_runner ''auto-a'' ''online'' True ''pool-a'', web_runner ''auto-b'' ''online'' False ''Pool-A''])]"

definition runners_table :: "json \<Rightarrow> (string \<times> json) list" where
  "runners_table v = [(''https://api.github.com/repos/acme/web/actions/runners?per_page=100'', v)]"

lemma two_runners_plain: "plain_json two_runners" "json_depth two_runners \<le> json_max_depth"
  by (simp_all add: two_runners_def web_runner_def plain_char_def plain_num_def is_digit_def json_max_depth_def)

lemma web_runners_url: "runners_url defaultAPIBase ''acme/web'' =
    ''https://api.github.com/repos/acme/web/actions/runners?per_page=100''"
  by (simp add: runners_url_def defaultAPIBase_def)

lemma web_request_get: "web_request = \<lparr>rq_Method = ''GET'',
     rq_URL = runners_url (sp_apiBase web_spawner) (rc_Name web_repo),
     rq_Header = github_headers (sp_pat web_spawner)\<rparr>"
  by (simp add: web_request_def)

lemma web_runners_http:
  "http_Do (sim_env (sim_github (runners_table v))) web_request s =
     (Inr \<lparr>rs_StatusCode = 200, rs_Body = json_text v\<rparr>, s\<lparr>sm_requests := sm_requests s @ [web_request]\<rparr>)"
  by (simp add: sim_github_def runners_table_def web_request_get web_runners_url)

lemma two_runners_page:
  "json_Decode dec_idle_page (json_text two_runners) [] =
     ([\<lparr>ir_Status = ''online'', ir_Busy = True, ir_Labels = [''pool-a'']\<rparr>,
       \<lparr>ir_Status = ''online'', ir_Busy = False, ir_Labels = [''Pool-A'']\<rparr>], None)"
  by (simp add: json_Decode_text[OF two_runners_plain])
     (simp add: two_runners_def web_runner_def dec_idle_page_def lookup_field_def upper_byte_def dec_field_def
        zero_idle_runner_def)

definition busy_runner :: json where
  "busy_runner = JObj [(''runners'', JArr [web_runner ''auto-a'' ''online'' True ''pool-a''])]"

lemma busy_runner_plain: "plain_json busy_runner" "json_depth busy_runner \<le> json_max_depth"
  by (simp_all add: busy_runner_def web_runner_def plain_char_def plain_num_def is_digit_def json_max_depth_def)

lemma busy_runner_page:
  "json_Decode dec_idle_page (json_text busy_runner) [] =
     ([\<lparr>ir_Status = ''online'', ir_Busy = True, ir_Labels = [''pool-a'']\<rparr>], None)"
  by (simp add: json_Decode_text[OF busy_runner_plain])
     (simp add: busy_runner_def web_runner_def dec_idle_page_def lookup_field_def upper_byte_def dec_field_def
        zero_idle_runner_def)

text \<open>The idle runner is skipped for; beside a busy one a container is started.\<close>

theorem idle_runner_skips_witness:
  "fst (Spawn (sim_env (sim_github (runners_table two_runners))) web_repo web_spawner (sim_start [])) = None
   \<and> totalIdleSkip (fst (snd (Spawn (sim_env (sim_github (runners_table two_runners))) web_repo
        web_spawner (sim_start [])))) = 1
   \<and> fst (Spawn (sim_env (sim_github (runners_table busy_runner))) web_repo web_spawner (sim_start [])) = None
   \<and> totalSpawned (fst (snd (Spawn (sim_env (sim_github (runners_table busy_runner))) web_repo
        web_spawner (sim_start [])))) = 1"
proof -
  have u: "url_Parse (runners_url (sp_apiBase web_spawner) (rc_Name web_repo)) \<noteq> None"
    by (simp add: web_runners_url web_url)
  note i = idle_runner_skips[OF u web_runners_http[of two_runners "sim_start []", unfolded web_request_get]]
    and b = idle_runner_skips[OF u web_runners_http[of busy_runner "sim_start []", unfolded web_request_get]]
  have "lower (sim_env g) ''Pool-A'' = lower (sim_env g) ''pool-a''" for g
    by (simp add: ToLower_def is_ascii_def lower_byte_def char_of_def bit_iff_odd)
  with i[unfolded http_response.simps, OF refl two_runners_page]
    b[unfolded http_response.simps, OF refl busy_runner_page] show ?thesis
    by (simp add: counter_defs sim_countRunning)
       (simp add: spawn_launch_def spawn_prepare_def randHex_def sim_rand_def writePATEnvFile_def sim_create_def
         sim_chmod_def sim_write_def sim_unlink_def Let_def spawn_run_def sim_path_def show_nat_digit path_Clean_def
         HasPrefix_def sim_run_ok web_name numeral_3_eq_3 char_of_nul counter_defs)
qed

lemma runner_counts_eq:
  "runner_counts rs (a, b, c) =
    (a + int (count_where (\<lambda>r. HasPrefix (cr_Name r) ''auto-'' \<and> cr_Status r = ''online'') rs),
     b + int (count_where (\<lambda>r. HasPrefix (cr_Name r) ''auto-'' \<and> cr_Status r = ''online'' \<and> cr_Busy r) rs),
     c + int (count_where (\<lambda>r. HasPrefix (cr_Name r) ''auto-'' \<and> cr_Status r \<noteq> ''online'') rs))"
  by (induction rs arbitrary: a b c) auto

text \<open>
  Claim C37. \<open>RepoRunnerCounts\<close> reports, of the runners named \<open>auto-\<close> on the page, how many
  are online, how many of these are busy, and how many are not online; so busy is never
  above online, and each runner of ours counts either as online or as a ghost.
\<close>

theorem RepoRunnerCounts_spec:
  assumes rq: "url_Parse (runners_url (sp_apiBase s) (rc_Name repo)) \<noteq> None"
    and http: "http_Do E \<lparr>rq_Method = ''GET'', rq_URL = runners_url (sp_apiBase s) (rc_Name repo),
        rq_Header = github_headers (sp_pat s)\<rparr> w = (Inr rs, w1)"
    and ok: "rs_StatusCode rs = 200" "json_Decode dec_counted_page (rs_Body rs) [] = (page, None)"
    and res: "RepoRunnerCounts E s repo w = ((online, busy, ghost), w')"
  defines "ours \<equiv> filter (\<lambda>r. HasPrefix (cr_Name r) ''auto-'') page"
  shows "online = int (length (filter (\<lambda>r. cr_Status r = ''online'') ours))
    \<and> busy = int (length (filter (\<lambda>r. cr_Status r = ''online'' \<and> cr_Busy r) ours))
    \<and> online + ghost = int (length ours) \<and> 0 \<le> busy \<and> busy \<le> online"
proof -
  have "(online, busy, ghost) = runner_counts page (0, 0, 0)"
    using assms by (auto simp: RepoRunnerCounts_def http_NewRequest_def signRequest_def)
  then have "online = int (length (filter (\<lambda>r. cr_Status r = ''online'') ours))"
    and "busy = int (length (filter (\<lambda>r. cr_Status r = ''online'' \<and> cr_Busy r) ours))"
    and "ghost = int (length (filter (\<lambda>r. cr_Status r \<noteq> ''online'') ours))"
    by (simp_all add: runner_counts_eq count_where_def ours_def conj_commute)
  moreover have "length (filter (\<lambda>r. cr_Status r = ''online'' \<and> cr_Busy r) ours)
      \<le> length (filter (\<lambda>r. cr_Status r = ''online'') ours)"
    using count_where_mono[of ours "\<lambda>r. cr_Status r = ''online'' \<and> cr_Busy r" "\<lambda>r. cr_Status r = ''online''"]
    by (simp add: count_where_def)
  ultimately show ?thesis
    using sum_length_filter_compl[of "\<lambda>r. cr_Status r = ''online''" ours] by simp
qed

lemma two_runners_counted:
  "json_Decode dec_counted_page (json_text two_runners) [] =
     ([\<lparr>cr_Name = ''auto-a'', cr_Status = ''online'', cr_Busy = True\<rparr>,
       \<lparr>cr_Name = ''auto-b'', cr_Status = ''online'', cr_Busy = False\<rparr>], None)"
  by (simp add: json_Decode_text[OF two_runners_plain])
     (simp add: two_runners_def web_runner_def dec_counted_page_def lookup_field_def upper_byte_def dec_field_def
        zero_counted_runner_def)

theorem RepoRunnerCounts_spec_witness:
  "fst (RepoRunnerCounts (sim_env (sim_github (runners_table two_runners))) web_spawner web_repo
     (sim_start [])) = (2, 1, 0)"
proof -
  let ?E = "sim_env (sim_github (runners_table two_runners))"
  obtain online busy ghost w' where
    c: "RepoRunnerCounts ?E web_spawner web_repo (sim_start []) = ((online, busy, ghost), w')"
    by (metis prod.exhaust)
  have u: "url_Parse (runners_url (sp_apiBase web_spawner) (rc_Name web_repo)) \<noteq> None"
    by (simp add: web_runners_url web_url)
  from RepoRunnerCounts_spec[OF u web_runners_http[of two_runners "sim_start []",
      unfolded web_request_get], unfolded http_response.simps, OF refl two_runners_counted c]
  show ?thesis using c by (simp add: HasPrefix_def)
qed

text \<open>
  A 401 or 403 from GitHub on the idle check is logged at error level, is not
  counted, and does not stop the spawn: the idle check answers "no idle runner".
\<close>

theorem auth_error_logged:
  assumes "url_Parse (runners_url (sp_apiBase s) (rc_Name repo)) \<noteq> None"
    and "http_Do E \<lparr>rq_Method = ''GET'', rq_URL = runners_url (sp_apiBase s) (rc_Name repo),
        rq_Header = github_headers (sp_pat s)\<rparr> w = (Inr rs, w1)"
    and "rs_StatusCode rs = 401 \<or> rs_StatusCode rs = 403"
  shows "spawn_idle E repo s w =
     (False, s, slog E LevelError ''github auth/permission error on idle-check'' w1)"
proof -
  let ?e = "ErrMsg (''list runners: status '' @ show_int (rs_StatusCode rs) @ '': '' @ TrimSpace (rs_Body rs))"
  have code: "show_int 401 = ''401''" "show_int 403 = ''403''"
    by (simp_all add: show_int_def show_nat.simps char_of_def bit_iff_odd)
  have "hasIdleMatchingRunner E s repo w = (Inl ?e, w1)"
    using assms by (auto simp: hasIdleMatchingRunner_def http_NewRequest_def signRequest_def)
  moreover have "isAuthOrPermissionError (Some ?e)"
    using assms(3) code Contains_middle[of "''list runners: ''" "''status 401''" "'': '' @ TrimSpace (rs_Body rs)"]
      Contains_middle[of "''list runners: ''" "''status 403''" "'': '' @ TrimSpace (rs_Body rs)"]
    by (auto simp: isAuthOrPermissionError_def)
  ultimately show ?thesis by (simp add: spawn_idle_def)
qed

theorem auth_error_logged_witness:
  "snd (snd (spawn_idle (sim_env (\<lambda>rq s. Inr \<lparr>rs_StatusCode = 403, rs_Body = ''Forbidden''\<rparr>)) web_repo
      web_spawner (sim_start []))) =
   (sim_start [])\<lparr>sm_requests := [web_request],
      sm_log := [(LevelError, ''github auth/permission error on idle-check'')]\<rparr>"
proof -
  let ?E = "sim_env (\<lambda>rq s. Inr \<lparr>rs_StatusCode = 403, rs_Body = ''Forbidden''\<rparr>)"
  have u: "url_Parse (runners_url (sp_apiBase web_spawner) (rc_Name web_repo)) \<noteq> None"
    by (simp add: web_runners_url web_url)
  have h: "http_Do ?E web_request (sim_start []) =
      (Inr \<lparr>rs_StatusCode = 403, rs_Body = ''Forbidden''\<rparr>, (sim_start [])\<lparr>sm_requests := [web_request]\<rparr>)"
    by simp
  from auth_error_logged[OF u h[unfolded web_request_get]] show ?thesis
    by (simp add: web_request_get)
qed

lemma sanitize_filter: "sanitize s = filter name_char s"
  by (induction s) auto

lemma hex_name_char: "list_all name_char (hex_EncodeToString bs)"
proof -
  have "name_char (hex_digit n)" if "n < 16" for n
    using that by (auto simp: hex_digit_def name_char_def is_digit_def is_alpha_def)
  moreover have "of_char c div 16 < (16 :: nat)" for c
    using of_char_lt_256[of c] by (simp add: less_mult_imp_div_less)
  ultimately show ?thesis
    by (auto simp: hex_EncodeToString_def hex_byte_def list_all_iff)
qed

text \<open>
  Claim C38. Every container name \<open>Spawn\<close> makes starts with \<open>auto-\<close>, the prefix by which the
  counts, the cleaner and the portal recognise our runners, and is a docker name whatever
  the labels of the repo are: only letters, digits, \<open>-\<close> and \<open>_\<close>.
\<close>

theorem runner_name_safe:
  assumes "spawn_prepare E repo s w = (Inr (name, envFile, path), s', w')"
  shows "HasPrefix name ''auto-'' \<and> list_all (\<lambda>c. is_alpha c \<or> is_digit c \<or> c \<in> set ''-_'') name
    \<and> (\<exists>bytes w1. rand_Read E 4 w = (bytes, w1) \<and>
         name = ''auto-'' @ filter name_char
           (if rc_Label repo = [] then (case rc_MatchLabels repo of [] \<Rightarrow> [] | l # _ \<Rightarrow> l) else rc_Label repo)
           @ ''-'' @ hex_EncodeToString bytes)"
proof -
  obtain bytes w1 where r: "rand_Read E 4 w = (bytes, w1)" by fastforce
  have n: "name = runner_name repo (hex_EncodeToString bytes)"
    using assms r
    by (auto simp: spawn_prepare_def randHex_def split: if_splits prod.splits sum.splits)
  have nc: "name_char = (\<lambda>c. is_alpha c \<or> is_digit c \<or> c \<in> set ''-_'')"
    by (auto simp: name_char_def)
  have "list_all name_char (hex_EncodeToString bytes)" by (rule hex_name_char)
  moreover have "list_all name_char (filter name_char t)" for t by (simp add: list_all_iff)
  moreover have "list_all name_char ''auto-''" "name_char CHR ''-''"
    by (simp_all add: name_char_def is_alpha_def)
  ultimately have "list_all name_char name"
    by (simp add: n runner_name_def sanitize_filter)
  then show ?thesis
    using r n by (auto simp: nc runner_name_def runner_tag_def sanitize_filter HasPrefix_def split: list.splits)
qed

theorem runner_name_safe_witness:
  "\<exists>name p w'. spawn_prepare (sim_env (sim_github [])) (web_repo\<lparr>rc_Label := ''pool a;$x''\<rparr>) web_spawner (sim_start []) =
       (Inr (name, p, p), web_spawner, w') \<and> HasPrefix name ''auto-poolax-''
       \<and> list_all (\<lambda>c. is_alpha c \<or> is_digit c \<or> c \<in> set ''-_'') name"
proof -
  obtain name w' where p: "spawn_prepare (sim_env (sim_github [])) (web_repo\<lparr>rc_Label := ''pool a;$x''\<rparr>) web_spawner
      (sim_start []) = (Inr (name, ''/tmp/autoscaler-env-0.env'', ''/tmp/autoscaler-env-0.env''), web_spawner, w')"
    by (simp add: spawn_prepare_def randHex_def sim_rand_def writePATEnvFile_def sim_create_def
        sim_chmod_def sim_write_def Let_def sim_path_def show_nat_digit path_Clean_def HasPrefix_def)
  from runner_name_safe[OF p] obtain bs where
    n: "name = ''auto-'' @ filter name_char ''pool a;$x'' @ ''-'' @ hex_EncodeToString bs"
       "list_all (\<lambda>c. is_alpha c \<or> is_digit c \<or> c \<in> set ''-_'') name" by auto
  have "filter name_char ''pool a;$x'' = ''poolax''"
    by (simp add: name_char_def is_alpha_def is_digit_def)
  with n have "HasPrefix name ''auto-poolax-''" by (simp add: HasPrefix_def)
  with p n show ?thesis by blast
qed

end
