(* ===== verification/Webhook_Props.thy ===== *)
theory Webhook_Props
  imports Webhook Spawner_Props
begin

text \<open>
  The properties of the webhook handler, with the delivery of a queued job as the
  concrete instance.
\<close>

lemma hex_decode_length: "hex_DecodeString s = Some bs \<Longrightarrow> length s = 2 * length bs"
  by (induction s arbitrary: bs rule: hex_DecodeString.induct) (auto split: option.splits)

text \<open>
  Claim C15. \<open>VerifySignature\<close> accepts exactly \<open>sha256=\<close> followed by 64 hexadecimal digits
  that decode to the HMAC-SHA256 of the body under the secret; the header GitHub sends for
  the body is accepted.
\<close>

theorem VerifySignature_exact:
  "VerifySignature body header secret =
     (\<exists>sig. header = ''sha256='' @ sig \<and> length sig = 64
        \<and> hex_DecodeString sig = Some (hmac_sha256 secret body))
   \<and> VerifySignature body (''sha256='' @ hex_EncodeToString (hmac_sha256 secret body)) secret"
proof -
  have "length sig = 64" if "hex_DecodeString sig = Some (hmac_sha256 secret body)" for sig
    using hex_decode_length[OF that] by (simp add: hmac_length)
  then show ?thesis by (auto simp: VerifySignature_iff)
qed

text \<open>
  Claim C3. A delivery reaches \<open>Spawn\<close> exactly if it is signed (when verification is on), is
  a decodable \<open>workflow_job\<close> event of action \<open>queued\<close> for a configured repo, and its job
  wants one of the repo's labels up to case; then the result is that of \<open>Spawn\<close>. Every other
  delivery returns an error, leaves the spawner alone and does nothing but log;
  the error is \<open>ErrBadSignature\<close> exactly for unsigned ones.
\<close>

theorem Dispatch_gate:
  "(\<exists>repo. admitted E cfg headers body repo \<and> Dispatch E cfg headers body sp w
       = Spawn E repo sp (slog E LevelInfo ''dispatching spawn'' w))
   \<or> ((\<forall>repo. \<not> admitted E cfg headers body repo)
      \<and> (\<exists>e w'. Dispatch E cfg headers body sp w = (Some e, sp, w')
           \<and> (e = ErrBadSignature) = (\<not> authentic cfg headers body)
           \<and> (w' = w \<or> (\<exists>m. w' = slog E LevelDebug m w))))"
proof (cases "\<exists>repo. admitted E cfg headers body repo")
  case True
  then obtain repo where r: "admitted E cfg headers body repo" ..
  from r Dispatch_admitted[OF r, of sp w] show ?thesis by (intro disjI1 exI conjI)
next
  case no: False
  show ?thesis
  proof (cases "authentic cfg headers body")
    case False
    with no show ?thesis by (simp add: Dispatch_unsigned)
  next
    case True
    obtain e w' where d: "Dispatch E cfg headers body sp w = (Some e, sp, w')"
      "e = ErrIgnored \<or> (\<exists>x. e = ErrWrap ''parse event: '' x [])" "w' = w \<or> (\<exists>m. w' = slog E LevelDebug m w)"
      using Dispatch_refused[OF True] no by metis
    then have "e \<noteq> ErrBadSignature" by auto
    with d no True show ?thesis by auto
  qed
qed

definition queued_job :: json where
  "queued_job = JObj [(''action'', JStr ''queued''),
     (''workflow_job'', JObj [(''labels'', JArr [JStr ''self-hosted'', JStr ''POOL-A''])]),
     (''repository'', JObj [(''full_name'', JStr ''acme/web'')])]"

definition signed_config :: Config where
  "signed_config = web_config\<lparr>cfg_VerifyHMAC := True, cfg_WebhookSecret := ''s3cret''\<rparr>"

definition queued_headers :: header where
  "queued_headers = header_Set ''x-github-event'' ''workflow_job'' (header_Set ''x-hub-signature-256''
     (''sha256='' @ hex_EncodeToString (hmac_sha256 ''s3cret'' (json_text queued_job))) Map.empty)"

lemma queued_job_plain: "plain_json queued_job" "json_depth queued_job \<le> json_max_depth"
  by (simp_all add: queued_job_def plain_char_def json_max_depth_def)

lemma queued_job_event:
  "json_Unmarshal dec_event (json_text queued_job) zero_event =
     (zero_event\<lparr>ev_Action := ''queued'',
        ev_WorkflowJob := (ev_WorkflowJob zero_event)\<lparr>wj_Labels := [''self-hosted'', ''POOL-A'']\<rparr>,
        ev_Repository := \<lparr>rp_FullName = ''acme/web''\<rparr>\<rparr>, None)"
  by (simp add: json_Unmarshal_text[OF queued_job_plain])
     (simp add: queued_job_def dec_event_def dec_WorkflowJob_def lookup_field_def dec_field_def zero_event_def)

lemma queued_admitted: "admitted (sim_env g) signed_config queued_headers (json_text queued_job) web_repo"
proof -
  have "lower (sim_env g) ''POOL-A'' = lower (sim_env g) ''pool-a''"
    by (simp add: ToLower_def is_ascii_def lower_byte_def char_of_def bit_iff_odd)
  moreover have "authentic signed_config queued_headers (json_text queued_job)"
    by (simp add: authentic_def signed_config_def queued_headers_def header_Get_def header_Set_def)
  ultimately show ?thesis
    unfolding admitted_def queued_job_event asks_for_def
    by (auto simp: queued_headers_def header_Get_def header_Set_def signed_config_def web_config_def
        RepoByName_def)
qed

theorem Dispatch_gate_witness:
  "Dispatch (sim_env (sim_github [])) signed_config queued_headers (json_text queued_job) web_spawner (sim_start [])
     = Spawn (sim_env (sim_github [])) web_repo web_spawner
         (slog (sim_env (sim_github [])) LevelInfo ''dispatching spawn'' (sim_start []))"
proof -
  let ?E = "sim_env (sim_github [])"
  have u: "repo = web_repo" if "admitted ?E signed_config queued_headers (json_text queued_job) repo" for repo
    using that queued_admitted[of "sim_github []"] by (auto simp: admitted_def asks_for_def)
  from Dispatch_gate[of ?E signed_config queued_headers "json_text queued_job" web_spawner "sim_start []"]
  show ?thesis
  proof (elim disjE)
    assume "\<exists>repo. admitted ?E signed_config queued_headers (json_text queued_job) repo \<and>
      Dispatch ?E signed_config queued_headers (json_text queued_job) web_spawner (sim_start [])
       = Spawn ?E repo web_spawner (slog ?E LevelInfo ''dispatching spawn'' (sim_start []))"
    then show ?thesis using u by blast
  qed (use queued_admitted[of "sim_github []"] in blast)
qed

end
