(* ===== verification/Reconciler_Props.thy ===== *)
theory Reconciler_Props
  imports Reconciler Spawner_Props
begin

text \<open>
  The properties of the reconciler: how many jobs it counts, how often it spawns and what
  it counts, and that no tick, whatever the order of the repos and the answers, exceeds a
  cap. The contract \<open>spawn_service\<close> is interpreted twice on \<open>Spawn\<close>: for the settings of the
  spawner, and for the caps in the docker world.
\<close>

section \<open>Queries only read\<close>

context docker_host
begin

lemma rn_apiGET_quiet: "rn_apiGET E sp u w = (x, w') \<Longrightarrow> live w' \<le> live w"
  by (auto simp: rn_apiGET_def api_get_with_def dest: quiet
      split: option.splits prod.splits sum.splits if_splits)

lemma listRunIDsByStatus_quiet: "listRunIDsByStatus E r sp repo st w = (x, w') \<Longrightarrow> live w' \<le> live w"
  by (auto simp: listRunIDsByStatus_def dest: rn_apiGET_quiet split: prod.splits sum.splits option.splits)

lemma listQueuedRunIDs_quiet:
  assumes "listQueuedRunIDs E r sp repo w = (x, w')" shows "live w' \<le> live w"
proof -
  obtain y w1 where l: "listRunIDsByStatus E r sp repo ''queued'' w = (y, w1)" by fastforce
  obtain z w2 where k: "listRunIDsByStatus E r sp repo ''in_progress'' w1 = (z, w2)" by fastforce
  from listRunIDsByStatus_quiet[OF l] listRunIDsByStatus_quiet[OF k] assms l k show ?thesis
    by (auto simp: listQueuedRunIDs_def split: sum.splits)
qed

lemma listRunJobs_quiet: "listRunJobs E r sp repo rid w = (x, w') \<Longrightarrow> live w' \<le> live w"
  by (auto simp: listRunJobs_def dest: rn_apiGET_quiet split: prod.splits sum.splits option.splits)

lemma count_runs_quiet: "count_runs E r sp repo want cap runs m w = (n, w') \<Longrightarrow> live w' \<le> live w"
proof (induction runs arbitrary: m w)
  case (Cons id runs)
  obtain a w1 where l: "listRunJobs E r sp repo id w = (a, w1)" by fastforce
  note q = listRunJobs_quiet[OF l]
  show ?case
  proof (cases a)
    case (Inl e)
    with Cons.prems l have "live w' \<le> live (slog E LevelWarn ''list jobs failed'' w1)"
      by (intro Cons.IH) simp
    from order_trans[OF this order_trans[OF slog_quiet q]] show ?thesis .
  next
    case (Inr jobs)
    obtain k b where c: "count_jobs E want cap jobs m = (k, b)" by fastforce
    show ?thesis
    proof (cases b)
      case True
      with Cons.prems l Inr c q show ?thesis by simp
    next
      case False
      with Cons.prems l Inr c have "live w' \<le> live w1" by (intro Cons.IH) simp
      from order_trans[OF this q] show ?thesis .
    qed
  qed
qed simp

lemma countQueued_quiet:
  assumes "countQueuedMatchingJobs E r sp repo cap w = (x, w')" shows "live w' \<le> live w"
proof -
  obtain y w1 where l: "listQueuedRunIDs E r sp repo w = (y, w1)" by fastforce
  note q = listQueuedRunIDs_quiet[OF l]
  show ?thesis
  proof (cases y)
    case (Inl e)
    with assms l q show ?thesis by (simp add: countQueuedMatchingJobs_def)
  next
    case (Inr runs)
    show ?thesis
    proof (cases "runs = []")
      case True
      with assms l q Inr show ?thesis by (simp add: countQueuedMatchingJobs_def)
    next
      case False
      obtain n w2 where c: "count_runs E r sp repo (lower E ` set (rc_MatchLabels repo)) cap runs 0 w1 = (n, w2)"
        by fastforce
      from order_trans[OF count_runs_quiet[OF c] q] assms l Inr False c show ?thesis
        by (simp add: countQueuedMatchingJobs_def)
    qed
  qed
qed

lemma CountRunning_quiet: "CountRunning E r w = (n, w') \<Longrightarrow> live w' \<le> live w"
  by (auto simp: CountRunning_def dest: countRunning_quiet split: prod.splits sum.splits)

end

section \<open>The outcomes of one reconciliation\<close>

abbreviation spawn_of :: "'w env \<Rightarrow> RepoConfig \<Rightarrow> spawner \<times> 'w \<Rightarrow> err option \<times> spawner \<times> 'w" where
  "spawn_of E repo \<equiv> \<lambda>(sp, w). Spawn E repo sp w"

abbreviation inc_of :: "spawner \<times> 'w \<Rightarrow> spawner \<times> 'w" where
  "inc_of \<equiv> \<lambda>(sp, w). (IncReconcile sp, w)"

abbreviation log_of :: "'w env \<Rightarrow> spawner \<times> 'w \<Rightarrow> spawner \<times> 'w" where
  "log_of E \<equiv> \<lambda>(sp, w). (sp, slog E LevelDebug ''reconcile spawn returned'' w)"

lemma reconcileRepo_cases [consumes 1, case_names full failed idle spawned]:
  assumes "reconcileRepo E r repo sp w = (e, sp', w')"
  obtains
    running where "CountRunning E (rc_Name repo) w = (running, w')" "rc_MaxConcurrency repo \<le> running"
      "e = None" "sp' = sp"
  | running w1 er where "CountRunning E (rc_Name repo) w = (running, w1)" "running < rc_MaxConcurrency repo"
      "countQueuedMatchingJobs E r sp repo (rc_MaxConcurrency repo - running) w1 = (Inl er, w')"
      "e = Some er" "sp' = sp"
  | running w1 where "CountRunning E (rc_Name repo) w = (running, w1)" "running < rc_MaxConcurrency repo"
      "countQueuedMatchingJobs E r sp repo (rc_MaxConcurrency repo - running) w1 = (Inr 0, w')"
      "e = None" "sp' = sp"
  | running w1 matched w2 k where "CountRunning E (rc_Name repo) w = (running, w1)"
      "running < rc_MaxConcurrency repo"
      "countQueuedMatchingJobs E r sp repo (rc_MaxConcurrency repo - running) w1 = (Inr matched, w2)"
      "matched \<noteq> 0" "e = None"
      "spawn_loop (spawn_of E repo) inc_of (log_of E) (nat (min matched (rc_MaxConcurrency repo - running)))
         (sp, slog E LevelInfo ''reconcile spawning'' w2) = (k, (sp', w'))"
proof -
  obtain running w1 where r: "CountRunning E (rc_Name repo) w = (running, w1)" by fastforce
  obtain c w2 where c: "countQueuedMatchingJobs E r sp repo (rc_MaxConcurrency repo - running) w1 = (c, w2)"
    by fastforce
  show ?thesis
  proof (cases "rc_MaxConcurrency repo \<le> running")
    case True
    with assms r that(1) show ?thesis by (simp add: reconcileRepo_def)
  next
    case lt: False
    show ?thesis
    proof (cases c)
      case (Inl er)
      with assms r lt c have "e = Some er" "sp' = sp" "w' = w2" by (simp_all add: reconcileRepo_def)
      with r lt c Inl show ?thesis by (intro that(2)) simp_all
    next
      case (Inr m)
      show ?thesis
      proof (cases "m = 0")
        case True
        from assms r lt c Inr True have "e = None" "sp' = sp" "w' = w2" by (simp_all add: reconcileRepo_def)
        with r lt c Inr True show ?thesis by (intro that(3)) simp_all
      next
        case m: False
        let ?n = "nat (if rc_MaxConcurrency repo - running < m then rc_MaxConcurrency repo - running else m)"
        obtain k sp2 w3 where k: "spawn_loop (spawn_of E repo) inc_of (log_of E) ?n
            (sp, slog E LevelInfo ''reconcile spawning'' w2) = (k, (sp2, w3))" by (metis prod.exhaust)
        have n: "?n = nat (min m (rc_MaxConcurrency repo - running))" by simp
        from assms r lt c Inr m k have "e = None" "sp2 = sp'" "w3 = w'"
          by (simp_all add: reconcileRepo_def Let_def)
        with r lt c Inr m k show ?thesis unfolding n by (intro that(4)) simp_all
      qed
    qed
  qed
qed

section \<open>The contract on Spawn\<close>

text \<open>The settings of the spawner, which no \<open>Spawn\<close> changes.\<close>

definition settings :: "spawner \<Rightarrow> string \<times> string \<times> bool \<times> string \<times> bool" where
  "settings s = (sp_pat s, sp_runnerImage s, sp_dryRun s, sp_apiBase s, sp_paused s)"

definition same_settings :: "spawner \<times> 'w \<Rightarrow> spawner \<times> 'w \<Rightarrow> bool" where
  "same_settings x y \<longleftrightarrow> settings (fst x) = settings (fst y)"

definition counted :: "nat \<Rightarrow> spawner \<Rightarrow> spawner \<Rightarrow> bool" where
  "counted k s s' \<longleftrightarrow> totalSpawned s' + totalIdleSkip s' = totalSpawned s + totalIdleSkip s + of_nat k"

definition refused :: "spawner \<Rightarrow> u64" where
  "refused s = totalCapHit s + totalErrors s + totalPaused s"

lemma Spawn_counts:
  assumes "Spawn E repo s w = (e, s', w')"
  shows "settings s' = settings s" "totalReconcile s' = totalReconcile s"
    "counted (if e = None then 1 else 0) s s'"
    "refused s' = refused s + (if e = None then 0 else 1)"
  using Spawn_state[OF assms]
  by (auto simp: settings_def counted_def refused_def counter_defs split: if_splits)

lemma Spawn_settings: "Spawn E repo s w = (e, s', w') \<Longrightarrow> settings s' = settings s"
  by (rule Spawn_counts(1))

lemma settings_totalReconcile [simp]: "settings (s\<lparr>totalReconcile := x\<rparr>) = settings s"
  by (simp add: settings_def)

lemma IncReconcile_settings [simp]: "settings (IncReconcile s) = settings s"
  by (simp add: settings_def IncReconcile_def)

interpretation keeps: spawn_service "spawn_of E repo" inc_of "log_of E" same_settings
  by unfold_locales (auto simp: same_settings_def dest: Spawn_settings)

text \<open>
  A relation between states that every change of the world has which starts no container,
  every count of a reconcile spawn, and every \<open>Spawn\<close> of a repo of \<open>R\<close>: each tick over repos
  of \<open>R\<close> has it.
\<close>

locale quiet_service = docker_host E running live
  for E :: "'w env" and running :: "'w \<Rightarrow> string set" and live :: "'w \<Rightarrow> string \<Rightarrow> string set" +
  fixes inv :: "spawner \<times> 'w \<Rightarrow> spawner \<times> 'w \<Rightarrow> bool" and R :: "RepoConfig set"
  assumes same_inv: "live w' \<le> live w \<Longrightarrow> inv (sp, w) (sp, w')"
    and inc_inv: "inv (sp, w) (IncReconcile sp, w)"
    and inv_trans: "inv s s' \<Longrightarrow> inv s' s'' \<Longrightarrow> inv s s''"
    and Spawn_inv: "repo \<in> R \<Longrightarrow> Spawn E repo sp w = (e, sp', w') \<Longrightarrow> inv (sp, w) (sp', w')"
begin

lemma log_inv: "inv (sp, w) (sp, slog E lv msg w)"
  by (rule same_inv[OF slog_quiet])

lemma service: "repo \<in> R \<Longrightarrow> spawn_service (spawn_of E repo) inc_of (log_of E) inv"
  by unfold_locales
     (auto intro: same_inv inc_inv slog_quiet Spawn_inv elim: inv_trans split: prod.splits)

lemma reconcileRepo_inv:
  assumes "reconcileRepo E r repo sp w = (e, sp', w')" "repo \<in> R" shows "inv (sp, w) (sp', w')"
  using assms(1)
proof (cases rule: reconcileRepo_cases)
  case (full running)
  then show ?thesis by (auto intro: same_inv CountRunning_quiet)
next
  case (failed running w1 er)
  from order_trans[OF countQueued_quiet[OF failed(3)] CountRunning_quiet[OF failed(1)]]
  show ?thesis using failed(5) by (auto intro: same_inv)
next
  case (idle running w1)
  from order_trans[OF countQueued_quiet[OF idle(3)] CountRunning_quiet[OF idle(1)]]
  show ?thesis using idle(5) by (auto intro: same_inv)
next
  case (spawned running w1 matched w2 k)
  from order_trans[OF slog_quiet order_trans[OF countQueued_quiet[OF spawned(3)] CountRunning_quiet[OF spawned(1)]]]
  have "inv (sp, w) (sp, slog E LevelInfo ''reconcile spawning'' w2)" by (rule same_inv)
  from inv_trans[OF this spawn_service.loop_inv[OF service[OF assms(2)] spawned(6)]] show ?thesis .
qed

lemma reconcile_all_inv:
  "reconcile_all E r repos sp w = (sp', w') \<Longrightarrow> set repos \<subseteq> R \<Longrightarrow> inv (sp, w) (sp', w')"
proof (induction repos arbitrary: sp w)
  case (Cons repo repos)
  obtain e sp1 w1 where r: "reconcileRepo E r repo sp w = (e, sp1, w1)" by (metis prod.exhaust)
  from Cons.prems have i: "inv (sp, w) (sp1, w1)" using reconcileRepo_inv[OF r] by simp
  show ?case
  proof (cases e)
    case None
    with Cons r have "inv (sp1, w1) (sp', w')" by simp
    from inv_trans[OF i this] show ?thesis .
  next
    case (Some x)
    with Cons r have "inv (sp1, slog E LevelWarn ''reconcile failed'' w1) (sp', w')" by simp
    from inv_trans[OF inv_trans[OF i log_inv] this] show ?thesis .
  qed
qed (simp add: same_inv)

lemma tickFiltered_inv:
  assumes "tickFiltered E r order flt sp w = (sp', w')"
    and "\<And>xs. set (order xs) \<subseteq> set xs"
    and "\<And>rp. rp \<in> set (cfg_Repos (rn_cfg r)) \<Longrightarrow> flt = [] \<or> rc_Name rp = flt \<Longrightarrow> rp \<in> R"
  shows "inv (sp, w) (sp', w')"
proof -
  have "set (order (filter (\<lambda>rp. \<not> (flt \<noteq> [] \<and> rc_Name rp \<noteq> flt)) (cfg_Repos (rn_cfg r)))) \<subseteq> R"
    using assms(2,3) by fastforce
  with assms(1) show ?thesis unfolding tickFiltered_def by (intro reconcile_all_inv)
qed

lemma TriggerOnce_inv:
  assumes "TriggerOnce E r order flt sp w = (sp', w')"
    and "\<And>xs. set (order xs) \<subseteq> set xs"
    and "\<And>rp. rp \<in> set (cfg_Repos (rn_cfg r)) \<Longrightarrow> flt = [] \<or> rc_Name rp = flt \<Longrightarrow> rp \<in> R"
  shows "inv (sp, w) (sp', w')"
  using inv_trans[OF log_inv tickFiltered_inv[OF assms[unfolded TriggerOnce_def]]] .

lemma Run_inv:
  assumes "rn_Run E r order es (sp, w) = (sp', w')"
    and "\<And>xs. set (order xs) \<subseteq> set xs" "set (cfg_Repos (rn_cfg r)) \<subseteq> R"
  shows "inv (sp, w) (sp', w')"
proof -
  let ?tick = "\<lambda>(sp, w). rn_tick E r order sp w"
  have t: "inv s (?tick s)" for s
    using tickFiltered_inv[of r order "[]" "fst s" "snd s" "fst (?tick s)" "snd (?tick s)"] assms(2,3)
    by (cases s) (auto simp: rn_tick_def)
  have n: "inv s ((?tick ^^ Suc n) s)" for s n
    by (induction n) (use t inv_trans in \<open>auto intro: inv_trans[OF _ t]\<close>)
  let ?s0 = "(sp, slog E LevelInfo ''reconciler started'' w)"
  have "(sp', w') = (?tick ^^ Suc (length (takeWhile (\<lambda>e. e = Tick) es))) ?s0"
    using assms(1) by (simp add: rn_Run_def ticker_loop_funpow funpow_swap1)
  with inv_trans[OF log_inv n] show ?thesis by metis
qed

end

context docker_host
begin

lemma caps_service: "quiet_service E running live (state_caps_kept live rs) (set rs)"
  by unfold_locales
     (auto simp: state_caps_kept_def intro: caps_kept_quiet caps_kept_trans Spawn_caps_kept)

definition others_shrink :: "string \<Rightarrow> spawner \<times> 'w \<Rightarrow> spawner \<times> 'w \<Rightarrow> bool" where
  "others_shrink n x y \<longleftrightarrow> live (snd y) n \<subseteq> live (snd x) n"

lemma others_service: "quiet_service E running live (others_shrink n) {repo. rc_Name repo \<noteq> n}"
proof (unfold_locales, goal_cases)
  case (4 repo sp w e sp' w')
  then have "n \<noteq> rc_Name repo" by simp
  from one_more_card(2)[OF Spawn_one_more[OF 4(2)] this] show ?case by (simp add: others_shrink_def)
qed (auto simp: others_shrink_def le_fun_def)

end

interpretation sim_caps: quiet_service "sim_env g" sim_running sim_live "state_caps_kept sim_live rs" "set rs"
  by (rule sim.caps_service)

section \<open>The demand\<close>

text \<open>
  Claim C9. When GitHub's job lists do not change while the runs are walked, the count is
  the number of queued jobs that want one of the repo's labels up to case, over all queued
  and in-progress runs whose jobs can be listed, but at most the free capacity; a run whose
  jobs cannot be listed adds nothing and does not stop the count.
\<close>

theorem countQueued_demand:
  assumes "0 < cap" "listQueuedRunIDs E r sp repo w = (Inr runs, w1)"
    and "\<And>i w. fst (listRunJobs E r sp repo i w) = ans i"
  shows "fst (countQueuedMatchingJobs E r sp repo cap w) = Inr (min cap (\<Sum>i \<leftarrow> runs.
    case ans i of Inl e \<Rightarrow> 0 | Inr js \<Rightarrow> int (length (filter (\<lambda>j. aj_Status j = ''queued'' \<and>
      (\<exists>l \<in> set (aj_Labels j). \<exists>m \<in> set (rc_MatchLabels repo). lower E l = lower E m)) js))))"
proof -
  have d: "int (length (filter (\<lambda>j. aj_Status j = ''queued'' \<and>
      (\<exists>l \<in> set (aj_Labels j). \<exists>m \<in> set (rc_MatchLabels repo). lower E l = lower E m)) js))
      = demand_of E repo js" for js
    by (simp add: demand_of_def count_where_def queued_for_def[abs_def])
  have "fst (countQueuedMatchingJobs E r sp repo cap w) = Inr (min cap (\<Sum>i \<leftarrow> runs.
      case ans i of Inl e \<Rightarrow> 0 | Inr js \<Rightarrow> demand_of E repo js))"
  proof (cases "runs = []")
    case True
    with assms(1,2) show ?thesis by (simp add: countQueuedMatchingJobs_def)
  next
    case False
    with count_runs_eq[OF assms(3,1), where runs = runs and w = w1] assms(2) show ?thesis
      by (auto simp: countQueuedMatchingJobs_def split: prod.splits)
  qed
  then show ?thesis unfolding d .
qed

text \<open>Run 7 is queued, run 8 in progress, run 9 has no job list; three jobs are wanted.\<close>

definition web_job :: "string \<Rightarrow> string \<Rightarrow> json" where
  "web_job st l = JObj [(''status'', JStr st), (''labels'', JArr [JStr ''self-hosted'', JStr l])]"

definition web_runs :: "string list \<Rightarrow> json" where
  "web_runs ids = JObj [(''workflow_runs'', JArr (map (\<lambda>i. JObj [(''id'', JNum i)]) ids))]"

definition web_queue :: "(string \<times> json) list" where
  "web_queue = [(''https://api.github.com/repos/acme/web/actions/runs?status=queued&per_page=100'', web_runs [''7'']),
     (''https://api.github.com/repos/acme/web/actions/runs?status=in_progress&per_page=100'', web_runs [''8'', ''9'']),
     (''https://api.github.com/repos/acme/web/actions/runs/7/jobs?per_page=100'',
        JObj [(''jobs'', JArr [web_job ''queued'' ''pool-a'', web_job ''queued'' ''Pool-A''])]),
     (''https://api.github.com/repos/acme/web/actions/runs/8/jobs?per_page=100'',
        JObj [(''jobs'', JArr [web_job ''completed'' ''pool-a'', web_job ''queued'' ''pool-a''])])]"

definition web_reconciler :: reconciler where
  "web_reconciler = rn_New web_config 0"

lemma web_reconciler_simps [simp]:
  "rn_apiBase web_reconciler = ''https://api.github.com''" "rn_cfg web_reconciler = web_config"
  by (simp_all add: web_reconciler_def rn_New_def)

lemma sim_apiGET:
  assumes "url_tail t" "map_of tbl (''https://api.github.com/'' @ t) = Some v"
  shows "fst (rn_apiGET (sim_env (sim_github tbl)) sp (''https://api.github.com/'' @ t) s) = Inr (json_text v)"
  using api_url[OF assms(1)] assms(2)
  by (simp add: rn_apiGET_def api_get_with_def http_NewRequest_def sim_github_def)

lemma sim_listRunJobs_same:
  "fst (listRunJobs (sim_env (sim_github tbl)) r sp repo i w) =
     fst (listRunJobs (sim_env (sim_github tbl)) r sp repo i w')"
  by (auto simp: listRunJobs_def rn_apiGET_def api_get_with_def sim_github_def
      split: prod.splits sum.splits option.splits)

lemma web_job_plain: "list_all plain_char st \<Longrightarrow> list_all plain_char l \<Longrightarrow> plain_json (web_job st l)"
  by (simp add: web_job_def plain_char_def)

lemma sim_jobs:
  assumes "url_tail (''repos/acme/web/actions/runs/'' @ show_int i @ ''/jobs?per_page=100'')"
    and "map_of tbl (''https://api.github.com/repos/acme/web/actions/runs/'' @ show_int i @ ''/jobs?per_page=100'')
      = Some v" "plain_json v" "json_depth v \<le> json_max_depth" "dec_jobs v [] = (js, False)"
  shows "fst (listRunJobs (sim_env (sim_github tbl)) web_reconciler web_spawner web_repo i w) = Inr js"
  using sim_apiGET[OF assms(1), of tbl v web_spawner w] assms(2-)
  by (auto simp: listRunJobs_def jobs_url_def json_Decode_text split: prod.splits)

lemma sim_runs:
  assumes "url_tail (''repos/acme/web/actions/runs?status='' @ st @ ''&per_page=100'')"
    and "map_of tbl (''https://api.github.com/repos/acme/web/actions/runs?status='' @ st @ ''&per_page=100'')
      = Some (web_runs ids)" "plain_json (web_runs ids)" "json_depth (web_runs ids) \<le> json_max_depth"
    and "dec_runs (web_runs ids) [] = (js, False)"
  shows "fst (listRunIDsByStatus (sim_env (sim_github tbl)) web_reconciler web_spawner web_repo st w) = Inr js"
  using sim_apiGET[OF assms(1), of tbl "web_runs ids" web_spawner w] assms(2-)
  by (auto simp: listRunIDsByStatus_def runs_url_def json_Decode_text split: prod.splits)

lemma parse_run_ids: "parse_int64 ''7'' = Some 7" "parse_int64 ''8'' = Some 8" "parse_int64 ''9'' = Some 9"
  by (simp_all add: parse_int64_def TrimPrefix_def HasPrefix_def read_nat_def digit_val_def is_digit_def)

lemma web_queue_runs:
  "fst (listRunIDsByStatus (sim_env (sim_github web_queue)) web_reconciler web_spawner web_repo ''queued'' w) = Inr [7]"
  "fst (listRunIDsByStatus (sim_env (sim_github web_queue)) web_reconciler web_spawner web_repo ''in_progress'' w) = Inr [8, 9]"
  by (rule sim_runs[where ids = "[''7'']"] sim_runs[where ids = "[''8'', ''9'']"],
      simp_all add: web_queue_def web_runs_def url_tail_def plain_char_def plain_num_def is_digit_def
       json_max_depth_def dec_runs_def lookup_field_def parse_run_ids)+

lemma web_queue_ids:
  "\<exists>w1. listQueuedRunIDs (sim_env (sim_github web_queue)) web_reconciler web_spawner web_repo w = (Inr [7, 8, 9], w1)"
proof -
  let ?l = "listRunIDsByStatus (sim_env (sim_github web_queue)) web_reconciler web_spawner web_repo"
  obtain w1 where q: "?l ''queued'' w = (Inr [7], w1)" using web_queue_runs(1)[of w] by (metis prod.collapse)
  obtain w2 where p: "?l ''in_progress'' w1 = (Inr [8, 9], w2)"
    using web_queue_runs(2)[of w1] by (metis prod.collapse)
  from q p show ?thesis by (simp add: listQueuedRunIDs_def)
qed

definition web_answer :: "int \<Rightarrow> err + apiJob list" where
  "web_answer i = fst (listRunJobs (sim_env (sim_github web_queue)) web_reconciler web_spawner web_repo i (sim_start []))"

lemma web_answer_eq:
  "fst (listRunJobs (sim_env (sim_github web_queue)) web_reconciler web_spawner web_repo i w) = web_answer i"
  unfolding web_answer_def by (rule sim_listRunJobs_same)

lemma show_run_ids: "show_int 7 = ''7''" "show_int 8 = ''8''" "show_int 9 = ''9''" "show_int 404 = ''404''"
  by (simp_all add: show_int_def show_nat_digit show_nat.simps char_of_def bit_iff_odd)

lemma web_answers:
  "web_answer 7 = Inr [\<lparr>aj_Status = ''queued'', aj_Labels = [''self-hosted'', ''pool-a'']\<rparr>,
     \<lparr>aj_Status = ''queued'', aj_Labels = [''self-hosted'', ''Pool-A'']\<rparr>]"
  "web_answer 8 = Inr [\<lparr>aj_Status = ''completed'', aj_Labels = [''self-hosted'', ''pool-a'']\<rparr>,
     \<lparr>aj_Status = ''queued'', aj_Labels = [''self-hosted'', ''pool-a'']\<rparr>]"
  unfolding web_answer_def
  by (rule sim_jobs[where v = "JObj [(''jobs'', JArr [web_job ''queued'' ''pool-a'', web_job ''queued'' ''Pool-A''])]"]
        sim_jobs[where v = "JObj [(''jobs'', JArr [web_job ''completed'' ''pool-a'', web_job ''queued'' ''pool-a''])]"],
      simp_all add: show_run_ids web_queue_def web_job_def url_tail_def plain_char_def
      json_max_depth_def dec_jobs_def lookup_field_def dec_field_def upper_byte_def)+

lemma web_answer_9: "\<exists>e. web_answer 9 = Inl e"
  using api_url[of "''repos/acme/web/actions/runs/9/jobs?per_page=100''"]
  by (simp add: web_answer_def listRunJobs_def jobs_url_def show_run_ids rn_apiGET_def api_get_with_def
      http_NewRequest_def sim_github_def web_queue_def url_tail_def)

theorem countQueued_demand_witness:
  "fst (countQueuedMatchingJobs (sim_env (sim_github web_queue)) web_reconciler web_spawner web_repo 5 (sim_start []))
     = Inr 3
   \<and> fst (countQueuedMatchingJobs (sim_env (sim_github web_queue)) web_reconciler web_spawner web_repo 2 (sim_start []))
     = Inr 2"
proof -
  obtain w1 where w1: "listQueuedRunIDs (sim_env (sim_github web_queue)) web_reconciler web_spawner web_repo
      (sim_start []) = (Inr [7, 8, 9], w1)" using web_queue_ids by blast
  obtain e where e: "web_answer 9 = Inl e" using web_answer_9 ..
  have l: "ToLower (\<lambda>s. s) ''Pool-A'' = ToLower (\<lambda>s. s) ''pool-a''"
    "ToLower (\<lambda>s. s) ''self-hosted'' \<noteq> ToLower (\<lambda>s. s) ''pool-a''"
    by (simp_all add: ToLower_def is_ascii_def lower_byte_def char_of_def bit_iff_odd)
  from countQueued_demand[OF _ w1 web_answer_eq, of 5] countQueued_demand[OF _ w1 web_answer_eq, of 2]
  show ?thesis by (simp add: web_answers e l)
qed

section \<open>What a reconciliation counts\<close>

definition only_reconciled :: "nat \<Rightarrow> spawner \<Rightarrow> spawner \<Rightarrow> bool" where
  "only_reconciled k s s' \<longleftrightarrow> settings s' = settings s
     \<and> totalReconcile s' = totalReconcile s + of_nat k \<and> counted k s s'"

lemma spawn_loop_counts:
  assumes "spawn_loop (spawn_of E repo) inc_of (log_of E) n (sp, w) = (k, (sp', w'))"
  shows "only_reconciled k sp sp' \<and> refused sp' = refused sp + (if k = n then 0 else 1)"
  using assms
proof (induction n arbitrary: sp w k)
  case 0
  then show ?case by (simp add: only_reconciled_def counted_def)
next
  case (Suc n)
  obtain e sp1 w1 where s: "Spawn E repo sp w = (e, sp1, w1)" by (metis prod.exhaust)
  note c = Spawn_counts[OF s]
  show ?case
  proof (cases e)
    case (Some x)
    with Suc.prems s c show ?thesis by (auto simp: only_reconciled_def)
  next
    case None
    with Suc.prems s obtain j where j: "k = Suc j"
      "spawn_loop (spawn_of E repo) inc_of (log_of E) n (IncReconcile sp1, w1) = (j, (sp', w'))"
      by (auto split: prod.splits)
    from Suc.IH[OF j(2)] c None j(1) show ?thesis
      by (auto simp: only_reconciled_def counted_def refused_def IncReconcile_def algebra_simps)
  qed
qed

text \<open>
  Claim C13. One reconciliation of a repo leaves the spawner's settings alone and makes some
  number \<open>k\<close> of successful \<open>Spawn\<close> calls, each counted once as reconciled and once as a spawn
  or an idle skip. With \<open>running\<close> containers of \<open>max_concurrency\<close> and \<open>matched\<close> jobs, it makes as
  many as there is free room and demand, unless one fails, which ends the loop and is the
  one refusal counted. An error is returned only for a failed query, without any spawn.
\<close>

theorem reconcile_counts:
  assumes "reconcileRepo E r repo sp w = (e, sp', w')"
  shows "\<exists>k running w1 matched w2. CountRunning E (rc_Name repo) w = (running, w1)
    \<and> (running < rc_MaxConcurrency repo \<longrightarrow>
        countQueuedMatchingJobs E r sp repo (rc_MaxConcurrency repo - running) w1 = (matched, w2))
    \<and> (let free = rc_MaxConcurrency repo - running;
           wanted = (case matched of Inl _ \<Rightarrow> 0 | Inr m \<Rightarrow> nat (min m free)) in
       only_reconciled k sp sp'
       \<and> (if free \<le> 0 \<or> wanted = 0 then k = 0 \<and> refused sp' = refused sp
          else k \<le> wanted \<and> refused sp' = refused sp + (if k = wanted then 0 else 1))
       \<and> (case e of None \<Rightarrow> free \<le> 0 \<or> (\<exists>m. matched = Inr m)
          | Some x \<Rightarrow> 0 < free \<and> matched = Inl x \<and> sp' = sp))"
  using assms
proof (cases rule: reconcileRepo_cases)
  case (full running)
  then show ?thesis
    by (intro exI[where x = 0] exI[where x = running] exI[where x = w'] exI[where x = "Inr 0"])
       (simp add: only_reconciled_def counted_def)
next
  case (failed running w1 er)
  then show ?thesis
    by (intro exI[where x = 0] exI[where x = running] exI[where x = w1] exI[where x = "Inl er"] exI[where x = w'])
       (simp add: only_reconciled_def counted_def)
next
  case (idle running w1)
  then show ?thesis
    by (intro exI[where x = 0] exI[where x = running] exI[where x = w1] exI[where x = "Inr 0"] exI[where x = w'])
       (simp add: only_reconciled_def counted_def)
next
  case (spawned running w1 matched w2 k)
  from spawn_loop_counts[OF spawned(6)] spawn_loop_le[OF spawned(6)] spawned show ?thesis
    by (intro exI[where x = k] exI[where x = running] exI[where x = w1] exI[where x = "Inr matched"] exI[where x = w2])
       (auto simp: Let_def)
qed

theorem reconcile_counts_witness:
  "\<exists>e sp' w' k. reconcileRepo (sim_env (sim_github web_queue)) web_reconciler web_repo web_spawner (sim_start [])
      = (e, sp', w') \<and> k \<le> 2 \<and> only_reconciled k web_spawner sp'"
proof -
  let ?E = "sim_env (sim_github web_queue)"
  obtain e sp' w' where r: "reconcileRepo ?E web_reconciler web_repo web_spawner (sim_start []) = (e, sp', w')"
    by (metis prod.exhaust)
  have n: "fst (CountRunning ?E ''acme/web'' (sim_start [])) = 0"
    by (simp add: CountRunning_def sim_countRunning)
  obtain k running w1 and matched :: "err + int" where k: "CountRunning ?E ''acme/web'' (sim_start []) = (running, w1)"
    "only_reconciled k web_spawner sp'"
    "if 2 - running \<le> 0 \<or> (case matched of Inl _ \<Rightarrow> 0 | Inr m \<Rightarrow> nat (min m (2 - running))) = 0
       then k = 0 \<and> refused sp' = refused web_spawner
       else k \<le> (case matched of Inl _ \<Rightarrow> 0 | Inr m \<Rightarrow> nat (min m (2 - running)))
         \<and> refused sp' = refused web_spawner +
             (if k = (case matched of Inl _ \<Rightarrow> 0 | Inr m \<Rightarrow> nat (min m (2 - running))) then 0 else 1)"
    using reconcile_counts[OF r, unfolded web_simps Let_def] by (elim exE conjE) (rule that)
  have "k \<le> 2" using k n by (auto split: sum.splits if_splits)
  with k(2) have "k \<le> 2" "only_reconciled k web_spawner sp'" by blast+
  with r show ?thesis by blast
qed

section \<open>What the reconciler keeps\<close>

text \<open>
  However long the reconciler runs, whatever GitHub answers and in whatever order
  a tick takes the repos, no repo ends with more running containers than the larger of its
  cap and what it had before.
\<close>

theorem reconciler_keeps_caps:
  assumes "docker_host E running live" "\<And>xs. set (order xs) \<subseteq> set xs"
    and "rn_Run E r order events (sp, w) = (sp', w')"
  shows "int (card (live w' n)) \<le> max (int (card (live w n))) (cap_of (cfg_Repos (rn_cfg r)) n)"
proof -
  have "quiet_service E running live (state_caps_kept live (cfg_Repos (rn_cfg r))) (set (cfg_Repos (rn_cfg r)))"
    by (rule docker_host.caps_service[OF assms(1)])
  from quiet_service.Run_inv[OF this assms(3,2) subset_refl] show ?thesis
    by (simp add: state_caps_kept_def caps_kept_def)
qed

theorem reconciler_keeps_caps_witness:
  "\<exists>sp' w'. rn_Run (sim_env (sim_github web_queue)) web_reconciler rev [Tick, Tick, CtxDone] (web_spawner, sim_start [])
      = (sp', w') \<and> int (card (sim_live w' ''acme/web'')) \<le> 2"
proof -
  obtain sp' w' where r: "rn_Run (sim_env (sim_github web_queue)) web_reconciler rev [Tick, Tick, CtxDone]
      (web_spawner, sim_start []) = (sp', w')" by (metis prod.exhaust)
  have "int (card (sim_live w' ''acme/web'')) \<le>
      max (int (card (sim_live (sim_start []) ''acme/web''))) (cap_of (cfg_Repos (rn_cfg web_reconciler)) ''acme/web'')"
    by (rule reconciler_keeps_caps[OF sim.docker_host_axioms _ r]) simp
  also have "\<dots> = 2" by (simp add: sim_live_def web_config_def cap_of_def)
  finally show ?thesis using r by blast
qed

text \<open>
  Claim C36. A manual reconcile of one repo starts no container for any other repo, and one
  for a name that is not configured starts none at all.
\<close>

theorem trigger_only_named:
  assumes "docker_host E running live" "\<And>xs. set (order xs) \<subseteq> set xs" "repoFilter \<noteq> []"
    and "TriggerOnce E r order repoFilter sp w = (sp', w')"
    and "n \<noteq> repoFilter \<or> (\<forall>rp \<in> set (cfg_Repos (rn_cfg r)). rc_Name rp \<noteq> repoFilter)"
  shows "live w' n \<subseteq> live w n"
proof -
  have "quiet_service E running live (docker_host.others_shrink live n) {repo. rc_Name repo \<noteq> n}"
    by (rule docker_host.others_service[OF assms(1)])
  from quiet_service.TriggerOnce_inv[OF this assms(4,2)] assms(3,5)
  have "docker_host.others_shrink live n (sp, w) (sp', w')" by auto
  then show ?thesis by (simp add: docker_host.others_shrink_def[OF assms(1)])
qed

theorem trigger_only_named_witness:
  "sim_live (snd (TriggerOnce (sim_env (sim_github web_queue)) web_reconciler rev ''acme/web''
      web_spawner (sim_start []))) ''acme/api'' = {}"
proof -
  obtain sp' w' where t: "TriggerOnce (sim_env (sim_github web_queue)) web_reconciler rev ''acme/web''
      web_spawner (sim_start []) = (sp', w')" by fastforce
  have "sim_live w' ''acme/api'' \<subseteq> sim_live (sim_start []) ''acme/api''"
    by (rule trigger_only_named[OF sim.docker_host_axioms _ _ t]) simp_all
  with t show ?thesis by (simp add: sim_live_def)
qed

end
