(* ===== verification/Frame_Env.thy ===== *)
theory Frame_Env
  imports Webhook
begin

text \<open>
  A part of the world that the environment's calls leave alone, as a locale: then the
  spawner and the webhook handler, which only act through these calls, leave it alone too.
\<close>

locale frame_env =
  fixes E :: "'w env" and q :: "'w \<Rightarrow> 'q"
  assumes docker_frame: "docker_Exec E args w = (res, w') \<Longrightarrow> q w' = q w"
    and http_frame: "http_Do E rq w = (rs, w') \<Longrightarrow> q w' = q w"
    and create_frame: "os_CreateTemp E w = (p, w') \<Longrightarrow> q w' = q w"
    and chmod_frame: "os_Chmod E path m w = (r, w') \<Longrightarrow> q w' = q w"
    and write_frame: "os_WriteString E path x w = (r, w') \<Longrightarrow> q w' = q w"
    and close_frame: "os_Close E path w = (r, w') \<Longrightarrow> q w' = q w"
    and remove_frame: "os_Remove E path w = (r, w') \<Longrightarrow> q w' = q w"
    and rand_frame: "rand_Read E n w = (b, w') \<Longrightarrow> q w' = q w"
    and now_frame: "time_Now E w = (t, w') \<Longrightarrow> q w' = q w"
    and slog_frame [simp]: "q (slog E lv msg w) = q w"
begin

lemmas frames = docker_frame http_frame create_frame chmod_frame write_frame close_frame
  remove_frame rand_frame now_frame

lemma snd_frames [simp]:
  "q (snd (os_Close E path w)) = q w" "q (snd (os_Remove E path w)) = q w"
  using close_frame[of path w "fst (os_Close E path w)"] remove_frame[of path w "fst (os_Remove E path w)"]
  by simp_all

lemma spawn_idle_frame: "spawn_idle E repo s w = (b, s', w') \<Longrightarrow> q w' = q w"
  by (auto simp: spawn_idle_def hasIdleMatchingRunner_def dest: frames
      split: option.splits prod.splits sum.splits if_splits bool.splits)

lemma countRunning_frame: "countRunning E r w = (x, w') \<Longrightarrow> q w' = q w"
  by (auto simp: countRunning_def list_ids_def count_ids_def dest!: docker_frame
      split: prod.splits sum.splits option.splits if_splits)

lemma decide_frame: "spawn_decide E repo n s w = Some (e, s', w') \<Longrightarrow> q w' = q w"
  by (auto simp: spawn_decide_def split: sum.splits if_splits)

lemma writePATEnvFile_frame:
  assumes "writePATEnvFile E pat w = (x, w')" shows "q w' = q w"
  using assms by (cases rule: writePATEnvFile_cases) (auto dest!: frames)

lemma randHex_frame: "randHex E n w = (h, w') \<Longrightarrow> q w' = q w"
  by (auto simp: randHex_def dest: rand_frame split: prod.splits)

lemma spawn_launch_frame:
  assumes "spawn_launch E repo s w = (e, s', w')" shows "q w' = q w"
  using assms
  by (cases rule: spawn_launch_cases) (auto dest!: randHex_frame writePATEnvFile_frame docker_frame)

lemma Spawn_frame:
  assumes "Spawn E repo s w = (e, s', w')" shows "q w' = q w"
  using assms
  by (cases rule: Spawn_cases)
     (auto dest!: spawn_idle_frame countRunning_frame decide_frame spawn_launch_frame)

lemma Dispatch_frame: "Dispatch E cfg h b sp w = (e, sp', w') \<Longrightarrow> q w' = q w"
  by (auto simp: Dispatch_def dest!: Spawn_frame split: if_splits prod.splits option.splits)

end

end
