(* ===== verification/Smee_Props.thy ===== *)
theory Smee_Props
  imports Smee_Stream Webhook_Props Reconciler_Props Frame_Env "HOL-Library.Multiset"
begin

text \<open>
  The client as \<open>main\<close> builds it over the shared spawner and the world, the event handler
  contract on the webhook's \<open>Dispatch\<close>, and the properties of the smee client.
\<close>

section \<open>The client of the program\<close>

text \<open>The connection, the context, the log level and the map order of one run.\<close>

record 'w net =
  nt_Debug :: bool
  nt_Range :: "(string \<times> string) list \<Rightarrow> (string \<times> string) list"
  nt_Open :: "http_request \<Rightarrow> 'w \<Rightarrow> (err + stream) \<times> 'w"
  nt_Done :: "'w \<Rightarrow> bool \<times> 'w"
  nt_Wait :: "int \<Rightarrow> 'w \<Rightarrow> bool \<times> 'w"

definition smee_client :: "'w env \<Rightarrow> 'w net \<Rightarrow> Config \<Rightarrow> (spawner \<times> 'w) client" where
  "smee_client E N cfg = \<lparr>cl_URL = cfg_SmeeURL cfg,
     cl_Dispatch = (\<lambda>h b (sp, w). Dispatch E cfg h b sp w),
     cl_Log = (\<lambda>lv m (sp, w). (sp, slog E lv m w)),
     cl_Debug = nt_Debug N, cl_IgnoredErr = Some ErrIgnored, cl_BadSigErr = Some ErrBadSignature,
     cl_Range = nt_Range N,
     cl_Open = (\<lambda>rq (sp, w). case nt_Open N rq w of (r, w') \<Rightarrow> (r, (sp, w'))),
     cl_Done = (\<lambda>(sp, w). case nt_Done N w of (b, w') \<Rightarrow> (b, (sp, w'))),
     cl_Now = (\<lambda>(sp, w). case time_Now E w of (t, w') \<Rightarrow> (t, (sp, w'))),
     cl_Wait = (\<lambda>d (sp, w). case nt_Wait N d w of (b, w') \<Rightarrow> (b, (sp, w')))\<rparr>"

lemma smee_client_simps [simp]:
  "cl_Dispatch (smee_client E N cfg) h b (sp, w) = Dispatch E cfg h b sp w"
  "cl_Log (smee_client E N cfg) lv m (sp, w) = (sp, slog E lv m w)"
  "cl_IgnoredErr (smee_client E N cfg) = Some ErrIgnored"
  "cl_Range (smee_client E N cfg) = nt_Range N" "cl_Debug (smee_client E N cfg) = nt_Debug N"
  by (simp_all add: smee_client_def)

section \<open>The handler contract on Dispatch\<close>

context quiet_service
begin

lemma Dispatch_inv:
  assumes "Dispatch E cfg h b sp w = (e, sp', w')" "set (cfg_Repos cfg) \<subseteq> R"
  shows "inv (sp, w) (sp', w')"
proof (cases "\<exists>repo. admitted E cfg h b repo")
  case True
  then obtain repo where r: "admitted E cfg h b repo" ..
  then have "repo \<in> set (cfg_Repos cfg)"
    by (auto simp: admitted_def asks_for_def RepoByName_def dest: repo_by_name_Some)
  with assms(2) have m: "repo \<in> R" by blast
  from Dispatch_admitted[OF r, of sp w] assms(1)
  have "Spawn E repo sp (slog E LevelInfo ''dispatching spawn'' w) = (e, sp', w')" by simp
  from inv_trans[OF log_inv Spawn_inv[OF m this]] show ?thesis .
next
  case False
  show ?thesis
  proof (cases "authentic cfg h b")
    case True
    obtain x w1 where "Dispatch E cfg h b sp w = (Some x, sp, w1)" "w1 = w \<or> (\<exists>m. w1 = slog E LevelDebug m w)"
      using Dispatch_refused[OF True] False by metis
    with assms(1) show ?thesis by (auto intro: same_inv log_inv)
  next
    case no: False
    with assms(1) show ?thesis by (auto simp: Dispatch_unsigned intro: same_inv)
  qed
qed

lemma Dispatch_handler:
  assumes "set (cfg_Repos cfg) \<subseteq> R" shows "event_handler (smee_client E N cfg) inv"
proof unfold_locales
  fix h b s e s'
  assume "cl_Dispatch (smee_client E N cfg) h b s = (e, s')"
  then show "inv s s'" by (cases s; cases s') (simp add: Dispatch_inv[OF _ assms])
next
  fix s lv m
  show "inv s (cl_Log (smee_client E N cfg) lv m s)" by (cases s) (simp add: log_inv)
next
  show "inv s s" for s by (cases s) (simp add: same_inv)
qed (rule inv_trans)

end

text \<open>The handler contract holds on the model of the handler in the simulated world.\<close>

interpretation hook: event_handler "smee_client (sim_env g) N cfg" "state_caps_kept sim_live (cfg_Repos cfg)"
  by (rule sim_caps.Dispatch_handler) simp

text \<open>
  The simulated connections: one at a time, the clock advances by how long each lasts and
  by the wait after it, and the context is done when none is left.
\<close>

definition sim_net :: "sim net" where
  "sim_net = \<lparr>nt_Debug = False, nt_Range = (\<lambda>es. es),
     nt_Open = (\<lambda>rq w. case sm_conns w of
        [] \<Rightarrow> (Inl (ErrMsg ''connection refused''), w)
      | (d, st, b, e) # _ \<Rightarrow>
          (Inr \<lparr>st_Status = st, st_Bytes = b, st_Err = e\<rparr>, w\<lparr>sm_now := sm_now w + d\<rparr>)),
     nt_Done = (\<lambda>w. (sm_conns w = [], w)),
     nt_Wait = (\<lambda>d w. (sm_conns w = [],
        w\<lparr>sm_now := sm_now w + d, sm_conns := tl (sm_conns w)\<rparr>))\<rparr>"

interpretation sim_conns: frame_env "sim_env g" sm_conns
  by unfold_locales
     (auto simp: sim_exec_def sim_run_def sim_create_def sim_chmod_def sim_write_def sim_unlink_def
       sim_rand_def Let_def split: if_splits list.splits option.splits)

interpretation sim_smee: canceled_in_time "smee_client (sim_env g) sim_net cfg" "\<lambda>(sp, w). length (sm_conns w)"
proof (unfold_locales, goal_cases)
  case (3 h b s e s')
  then show ?case
    by (cases s; cases s') (auto dest: sim_conns.Dispatch_frame)
qed (auto simp: smee_client_def sim_net_def split: prod.splits list.splits)

section \<open>The stream\<close>

text \<open>
  Claim C10. Reading a stream of blocks of lines, each ended by a blank line, is handling in
  order and once each exactly the blocks that have data and are named \<open>message\<close> by their last
  \<open>event:\<close> line or have none, with the text of their data lines joined by newlines. Blocks
  of comments, blocks with no data or empty data and blocks of another name are not handled;
  comment, \<open>id:\<close> and other lines change nothing, wherever they stand in a block; nothing of a
  block is left over for the next one; a line may end in a carriage return; and a block cut
  off by the end of the stream is dropped. The result is the error of the line that is too
  long, else the reader's error, else end of file.
\<close>

theorem sse_delivers:
  assumes "list_all sse_ok bs" "[] \<notin> set (scan_lines rest)"
  shows "parseStream C (sse_text bs @ rest) fin s =
     (case scan_error rest of Some e \<Rightarrow> e | None \<Rightarrow> (case fin of None \<Rightarrow> ErrEOF | Some e \<Rightarrow> e),
      fold (\<lambda>b. handleMessage C (block_data b)) (filter is_message bs) s)"
proof -
  let ?s = "fold (\<lambda>b. handleMessage C (block_data b)) (filter is_message bs) s"
  have ok: "list_all line_ok (concat (map block_lines bs))"
    using assms(1) by (auto simp: list_all_iff sse_ok_def)
  obtain ev d where u: "fold (sse_line C) (scan_lines rest) (''message'', [], ?s) = (ev, d, ?s)"
    using fold_sse_unfinished[OF assms(2), of C "''message''" "[]" ?s] by (elim exE)
  have "fold (sse_line C) (scan_lines (sse_text bs @ rest)) (''message'', [], s) = (ev, d, ?s)"
    unfolding sse_text_def scan_lines_text(1)[OF ok] fold_append comp_def fold_sse_blocks[OF assms(1)]
    by (rule u)
  moreover have "scan_error (sse_text bs @ rest) = scan_error rest"
    unfolding sse_text_def by (rule scan_lines_text(2)[OF ok])
  ultimately show ?thesis by (simp add: parseStream_def split: option.splits)
qed

text \<open>A client that writes down the bodies it is handed.\<close>

definition recorder :: "string list client" where
  "recorder = \<lparr>cl_URL = ''https://smee.io/abc'', cl_Dispatch = (\<lambda>h b s. (None, s @ [b])),
     cl_Log = (\<lambda>lv m s. s), cl_Debug = False, cl_IgnoredErr = Some ErrIgnored,
     cl_BadSigErr = Some ErrBadSignature, cl_Range = rev,
     cl_Open = (\<lambda>rq s. (Inl ErrEOF, s)), cl_Done = (\<lambda>s. (True, s)), cl_Now = (\<lambda>s. (0, s)),
     cl_Wait = (\<lambda>d s. (True, s))\<rparr>"

text \<open>
  A comment, an event of another name, an event with empty data, and a message whose data is
  on two lines ending in carriage returns.
\<close>

definition ping_then_job :: "sse_block list" where
  "ping_then_job = [([(Noise '': ping'', False)], False),
     ([(Data '' {}'', False), (Event '' ready'', False)], False),
     ([(Noise ''id: 1'', False), (Data '' '', False)], False),
     ([(Noise ''id: 2'', True), (Data '' '', True), (Data '' {'', True), (Noise '':'', True), (Data ''}'', True)], True)]"

lemma ping_then_job_ok: "list_all sse_ok ping_then_job"
  by (simp add: ping_then_job_def sse_ok_def block_lines_def line_ok_def line_end_def noise_line_def
      fits_def max_line_def HasPrefix_def)

theorem sse_delivers_witness:
  "parseStream recorder (sse_text ping_then_job @ ''data: cut'') None [] =
     (ErrEOF, handleMessage recorder (''{'' @ [CHR 0x0A] @ ''}'') [])"
proof -
  have "raw_lines ''data: cut'' = [''data: cut'']" by (simp add: raw_lines_def)
  then have "scan_lines ''data: cut'' = [''data: cut'']" "scan_error ''data: cut'' = None"
    by (simp_all add: scan_lines_def scan_error_def fits_def max_line_def drop_cr_def)
  moreover have "word_token ''ready''" by (simp add: word_token_def graphic_def)
  ultimately show ?thesis
    using sse_delivers[OF ping_then_job_ok, of "''data: cut''" recorder None "[]"]
    by (simp add: ping_then_job_def is_message_def block_name_def block_data_def TrimSpace_space)
qed

text \<open>What is logged before a message is handed over.\<close>

definition received :: "'s client \<Rightarrow> 's \<Rightarrow> 's" where
  "received C s = (let s1 = cl_Log C LevelDebug ''sse event received'' s in
     if cl_Debug C then cl_Log C LevelDebug ''sse event parsed'' s1 else s1)"

text \<open>
  Claim C12. A message that is a JSON object with a \<open>body\<close>, in any layout the JSON grammar
  allows, is handed to the handler exactly once. The body is, when smee passes a string, the
  bytes that the string literal encodes, every escape and surrogate pair decoded, so the
  bytes GitHub signed; otherwise the text of the value as it stands in the message. Every
  other string field but \<open>query\<close> and \<open>timestamp\<close> is a header with the bytes its literal
  encodes; the order of Go's map iteration does not matter.
\<close>

theorem message_delivers:
  assumes msg: "json_mems t ms" "ws a" "ws b" "\<forall>(k, u, j) \<in> set ms. json_depth j < json_max_depth"
    and keys: "distinct (map fst ms)" "inj_on canonical_key (fst ` set ms)"
    and order: "\<And>es. mset (cl_Range C es) = mset es"
    and body: "(''body'', u, v) \<in> set ms"
  shows "\<exists>headers. handleMessage C (a @ ''{'' @ t @ ''}'' @ b) s
       = deliver C headers (case v of JStr x \<Rightarrow> x | JNull \<Rightarrow> [] | _ \<Rightarrow> u) (received C s)
     \<and> (\<forall>(k, u, j) \<in> set ms. k \<noteq> ''body'' \<and> k \<noteq> ''query'' \<and> k \<noteq> ''timestamp'' \<longrightarrow>
          header_Get headers k = (case j of JStr x \<Rightarrow> x | _ \<Rightarrow> []))"
proof -
  let ?es = "map (\<lambda>(k, u, j). (k, u)) ms"
  have fs: "map fst ?es = map fst ms" by (simp add: comp_def case_prod_unfold)
  have pj: "json_doc u j \<and> json_depth j \<le> json_max_depth" if "(k, u, j) \<in> set ms" for k u j
    using mems_doc[OF msg(1) that] msg(4) that by fastforce
  have d: "distinct (map fst ?es)" using keys(1) by (simp only: fs)
  have raw: "json_raw_map (a @ ''{'' @ t @ ''}'' @ b) = Some ?es"
    using raw_map_doc[OF msg(1,4,2,3)] by simp
  have b: "map_of ?es ''body'' = Some u"
    using body by (intro map_of_is_SomeI[OF d]) force
  have eb: "extractBody u = Inr (case v of JStr x \<Rightarrow> x | JNull \<Rightarrow> [] | _ \<Rightarrow> u)"
    using pj[OF body] by (intro extractBody_doc) simp_all
  let ?h = "fold add_header (cl_Range C ?es) Map.empty"
  have dr: "distinct (map fst (cl_Range C ?es))" "set (cl_Range C ?es) = set ?es"
  proof -
    have "mset (map fst (cl_Range C ?es)) = mset (map fst ?es)"
      unfolding mset_map order[of ?es] ..
    then show "distinct (map fst (cl_Range C ?es))" using d mset_eq_imp_distinct_iff by blast
    show "set (cl_Range C ?es) = set ?es" by (rule mset_eq_setD[OF order])
  qed
  have ks: "fst ` set (cl_Range C ?es) = fst ` set ms" unfolding dr(2) by force
  have "handleMessage C (a @ ''{'' @ t @ ''}'' @ b) s
       = deliver C ?h (case v of JStr x \<Rightarrow> x | JNull \<Rightarrow> [] | _ \<Rightarrow> u) (received C s)"
    unfolding handleMessage_def raw received_def Let_def option.case map_entries_distinct[OF d] b eb sum.case ..
  moreover have "header_Get ?h k = (case j of JStr x \<Rightarrow> x | _ \<Rightarrow> [])"
    if kj: "(k, u, j) \<in> set ms" and k: "k \<noteq> ''body'' \<and> k \<noteq> ''query'' \<and> k \<noteq> ''timestamp''" for k u j
  proof -
    have "(k, u) \<in> set (cl_Range C ?es)" using kj dr(2) by force
    from fold_add_header_get[OF _ dr(1) this] ks keys(2) k
    have "header_Get ?h k = (case header_value u of Some s \<Rightarrow> s | None \<Rightarrow> [])"
      by (simp add: is_header_def)
    with header_value_doc[of u j] pj[OF kj] show ?thesis by (cases j) simp_all
  qed
  ultimately show ?thesis by blast
qed

text \<open>
  A message as smee sends it: the event in a header, a number that is no header, and the body
  as a string whose literal has escaped quotes, an escaped slash, the escape of U+00E9, the
  same character in UTF-8 and the surrogate pair of U+1F680.
\<close>

definition body_literal :: string where
  "body_literal = ''{'' @ [CHR 0x5C, CHR 0x22] @ ''a'' @ [CHR 0x5C, CHR ''/''] @ [CHR 0x5C, CHR ''u''] @ ''00e9''
     @ [CHR 0xC3, CHR 0xA9] @ [CHR 0x5C, CHR ''u''] @ ''d83d'' @ [CHR 0x5C, CHR ''u''] @ ''DE80''
     @ [CHR 0x5C, CHR 0x22] @ ''}''"

definition body_bytes :: string where
  "body_bytes = ''{'' @ [CHR 0x22] @ ''a/'' @ [CHR 0xC3, CHR 0xA9, CHR 0xC3, CHR 0xA9]
     @ [CHR 0xF0, CHR 0x9F, CHR 0x9A, CHR 0x80] @ [CHR 0x22] @ ''}''"

lemma hex4I: "hex_val a i \<Longrightarrow> hex_val b j \<Longrightarrow> hex_val c k \<Longrightarrow> hex_val d l
    \<Longrightarrow> r = ((i * 16 + j) * 16 + k) * 16 + l \<Longrightarrow> hex4 [a, b, c, d] r"
  by (auto simp: hex4_def)

lemma body_encodes: "encodes body_literal body_bytes"
proof -
  have u: "utf8 [CHR 0xC3, CHR 0xA9] 0xE9" by (rule utf8_2[of _ 3 41]) simp_all
  have p: "utf8 [CHR 0xF0, CHR 0x9F, CHR 0x9A, CHR 0x80] (0x10000 + (0xD83D - 0xD800) * 0x400 + (0xDE80 - 0xDC00))"
    by (rule utf8_4[of _ 0 31 26 0]) simp_all
  have h: "hex4 ''00e9'' 0xE9" "hex4 ''d83d'' 0xD83D" "hex4 ''DE80'' 0xDE80"
    by (rule hex4I[of _ 0 _ 0 _ 14 _ 9], simp_all add: hex_val_def)
       (rule hex4I[of _ 13 _ 8 _ 3 _ 13], simp_all add: hex_val_def,
        rule hex4I[of _ 13 _ 14 _ 8 _ 0], simp_all add: hex_val_def)
  have q: "encodes (CHR 0x5C # CHR 0x22 # x) (CHR 0x22 # y)" "encodes (CHR 0x5C # CHR ''/'' # x) (CHR ''/'' # y)"
    if "encodes x y" for x y
    using that by (auto intro: enc_short simp: short_escapes_def)
  have "encodes ''}'' ''}''" by (rule enc_ascii[OF _ _ _ _ enc_end]) simp_all
  from enc_pair[OF h(2) _ _ h(3) _ _ p q(1)[OF this]]
  have "encodes ([CHR 0x5C, CHR ''u''] @ ''d83d'' @ [CHR 0x5C, CHR ''u''] @ ''DE80'' @ [CHR 0x5C, CHR 0x22] @ ''}'')
      ([CHR 0xF0, CHR 0x9F, CHR 0x9A, CHR 0x80] @ [CHR 0x22] @ ''}'')" by simp
  from enc_u[OF h(1) u enc_rune[OF u _ this]]
  have "encodes ([CHR 0x5C, CHR ''u''] @ ''00e9'' @ [CHR 0xC3, CHR 0xA9]
        @ [CHR 0x5C, CHR ''u''] @ ''d83d'' @ [CHR 0x5C, CHR ''u''] @ ''DE80'' @ [CHR 0x5C, CHR 0x22] @ ''}'')
      ([CHR 0xC3, CHR 0xA9, CHR 0xC3, CHR 0xA9] @ [CHR 0xF0, CHR 0x9F, CHR 0x9A, CHR 0x80] @ [CHR 0x22] @ ''}'')"
    by simp
  from enc_ascii[OF _ _ _ _ q(1)[OF enc_ascii[OF _ _ _ _ q(2)[OF this], of "CHR ''a''"]], of "CHR ''{''"]
  show ?thesis by (simp add: body_literal_def body_bytes_def)
qed

definition job_members :: "member list" where
  "job_members = [(''x-github-event'', quote ''workflow_job'', JStr ''workflow_job''),
     (''timestamp'', ''17'', JNum ''17''), (''body'', quote body_literal, JStr body_bytes)]"

definition job_text :: string where
  "job_text = quote ''x-github-event'' @ '': '' @ quote ''workflow_job'' @ '', '' @ quote ''timestamp''
     @ '':17,'' @ quote ''body'' @ '': '' @ quote body_literal @ '' ''"

lemma encodes_plain: "list_all plain_char s \<Longrightarrow> encodes s s"
  by (induction s) (auto intro: encodes.intros simp: plain_char_def)

lemma job_mems: "json_mems job_text job_members"
proof -
  have w: "ws []" "ws '' ''" by (simp_all add: ws_def)
  have p: "encodes ''x-github-event'' ''x-github-event''" "encodes ''workflow_job'' ''workflow_job''"
    "encodes ''timestamp'' ''timestamp''" "encodes ''body'' ''body''"
    by (simp_all add: encodes_plain plain_char_def)
  have "is_int ''17''" by (rule int_digits) (simp_all add: digits_def is_digit_def)
  from num_pos[OF this frac_none exp_none] have n: "json_doc ''17'' (JNum ''17'')" by (simp add: doc_num)
  note b = mem_last[OF w(1) p(4) w(1,2) doc_str[OF body_encodes] w(2)]
  note t = mem_more[OF w(2) p(3) w(1,1) n w(1) b]
  from mem_more[OF w(1) p(1) w(1,2) doc_str[OF p(2)] w(1) t] show ?thesis
    by (simp add: job_text_def job_members_def quote_def)
qed

theorem message_delivers_witness:
  "\<exists>h. handleMessage recorder (''{'' @ job_text @ ''}'') [] = [body_bytes]
     \<and> handleMessage recorder (''{'' @ job_text @ ''}'') [] = deliver recorder h body_bytes []
     \<and> header_Get h ''X-Github-Event'' = ''workflow_job''"
proof -
  have w: "ws []" by (simp add: ws_def)
  have m: "(''body'', quote body_literal, JStr body_bytes) \<in> set job_members" by (simp add: job_members_def)
  have "\<forall>(k, u, j) \<in> set job_members. json_depth j < json_max_depth" "distinct (map fst job_members)"
    "inj_on canonical_key (fst ` set job_members)" "\<And>es. mset (cl_Range recorder es) = mset es"
    by (simp_all add: job_members_def json_max_depth_def recorder_def canonical_key_def token_char_def
        upper_ascii_def lower_byte_def)
  from message_delivers[OF job_mems w w this m, of "[]"] obtain h where
    h: "handleMessage recorder ([] @ ''{'' @ job_text @ ''}'' @ []) [] =
      deliver recorder h body_bytes (received recorder [])"
    and g: "\<forall>(k, u, j) \<in> set job_members. k \<noteq> ''body'' \<and> k \<noteq> ''query'' \<and> k \<noteq> ''timestamp'' \<longrightarrow>
          header_Get h k = (case j of JStr x \<Rightarrow> x | _ \<Rightarrow> [])" by auto
  have "received recorder [] = []" by (simp add: received_def recorder_def)
  moreover have "deliver recorder h body_bytes [] = [body_bytes]" by (simp add: deliver_def recorder_def)
  moreover have "header_Get h ''X-Github-Event'' = ''workflow_job''"
    using g by (simp add: job_members_def header_Get_def)
  ultimately show ?thesis using h by (intro exI[of _ h]) simp
qed

text \<open>
  Whatever a smee stream holds, well formed or not, processing it to its end keeps
  the cap of every configured repo: no repo has more running containers afterwards than the
  larger of its cap and what it had before.
\<close>

theorem stream_keeps_caps:
  assumes "docker_host E running live"
    and "parseStream (smee_client E N cfg) bytes fin (sp, w) = (e, (sp', w'))"
  shows "int (card (live w' n)) \<le> max (int (card (live w n))) (cap_of (cfg_Repos cfg) n)"
proof -
  have "event_handler (smee_client E N cfg) (state_caps_kept live (cfg_Repos cfg))"
    by (rule quiet_service.Dispatch_handler[OF docker_host.caps_service[OF assms(1)] subset_refl])
  from event_handler.parseStream_inv[OF this assms(2)] show ?thesis
    by (simp add: state_caps_kept_def caps_kept_def)
qed

theorem stream_keeps_caps_witness:
  "\<exists>e sp' w'. parseStream (smee_client (sim_env (sim_github no_runners)) sim_net web_config)
      (sse_text ping_then_job) None (web_spawner, sim_start []) = (e, (sp', w'))
    \<and> int (card (sim_live w' ''acme/web'')) \<le> 2"
proof -
  obtain e sp' w' where p: "parseStream (smee_client (sim_env (sim_github no_runners)) sim_net web_config)
      (sse_text ping_then_job) None (web_spawner, sim_start []) = (e, (sp', w'))"
    by (metis prod.exhaust)
  from stream_keeps_caps[OF sim.docker_host_axioms p, of "''acme/web''"]
  have "int (card (sim_live w' ''acme/web'')) \<le> 2"
    by (simp add: sim_live_def web_config_def cap_of_def)
  with p show ?thesis by blast
qed

text \<open>
  Claim C32. If the context is done after finitely many waits, \<open>Run\<close> returns, with the
  context's error and no other. The i-th wait is the doubling backoff from one second,
  capped at 30 seconds, restarted at every connection that lasted at least 30 seconds
  (so every wait is between 1 and 30 seconds).
\<close>

theorem reconnect_waits:
  assumes "canceled_in_time C left"
  shows "\<exists>s' ts. let us = lasted ts;
      ds = map (\<lambda>i. min maxBackoff (second * 2 ^ (streak 0 (take (Suc i) us) - 1))) [0..<length us]
    in smee_Run (timed C) (s, [], []) = Some (ErrCanceled, (s', ds, ts))"
proof -
  obtain s' us ts where r: "smee_loop (timed C) second (s, [], []) = Some (ErrCanceled, (s', waits second us, ts))"
    "lasted ts = us"
    using canceled_in_time.timed_loop[OF assms, of second s "[]" "[]"] by auto
  have "length (waits b us) = length us" for b by (induction us arbitrary: b) auto
  moreover have "second = min maxBackoff (second * 2 ^ 0)" by (simp add: maxBackoff_def second_def)
  ultimately have "waits second us =
      map (\<lambda>i. min maxBackoff (second * 2 ^ (streak 0 (take (Suc i) us) - 1))) [0..<length us]"
    using waits_nth[of _ us 0] by (intro nth_equalityI) auto
  with r show ?thesis by (auto simp: smee_Run_def Let_def)
qed

text \<open>Three connections: short, short, and long.\<close>

definition three_conns :: sim where
  "three_conns = (sim_start [])\<lparr>sm_conns := [(second, 200, [], None), (0, 500, [], None),
     (40 * second, 200, [], Some (ErrMsg ''reset''))]\<rparr>"

theorem reconnect_waits_witness:
  "\<exists>s' ts. let us = lasted ts;
      ds = map (\<lambda>i. min maxBackoff (second * 2 ^ (streak 0 (take (Suc i) us) - 1))) [0..<length us]
    in smee_Run (timed (smee_client (sim_env (sim_github [])) sim_net web_config))
         ((web_spawner, three_conns), [], []) = Some (ErrCanceled, (s', ds, ts))"
  by (rule reconnect_waits[OF sim_smee.canceled_in_time_axioms])

lemma Index_append_here: "HasPrefix s p \<Longrightarrow> (\<And>i. i < length a \<Longrightarrow> \<not> HasPrefix (drop i (a @ s)) p) \<Longrightarrow>
   Index (a @ s) p = Some (length a)"
proof (induction a)
  case Nil
  then show ?case by (simp add: Index_prefix)
next
  case (Cons x a)
  from Cons.prems(2)[of 0] have "\<not> HasPrefix ((x # a) @ s) p" by simp
  moreover have "Index (a @ s) p = Some (length a)"
    using Cons.prems(2)[of "Suc _"] by (intro Cons.IH[OF Cons.prems(1)]) auto
  ultimately show ?case by simp
qed

text \<open>
  What is logged of the smee URL never contains the channel: for a URL
  \<open>scheme://host/channel\<close> it is the host alone, and for any string at all it holds no slash.
\<close>

theorem smeeHost_hides_channel:
  assumes "CHR '':'' \<notin> set sch" "CHR ''/'' \<notin> set host" "host \<noteq> []"
  shows "smeeHost (sch @ ''://'' @ host @ ''/'' @ channel) = host \<and> CHR ''/'' \<notin> set (smeeHost raw)"
proof -
  have "Index (sch @ ''://'' @ host @ ''/'' @ channel) ''://'' = Some (length sch)"
  proof (rule Index_append_here)
    show "HasPrefix (''://'' @ host @ ''/'' @ channel) ''://''" by (rule HasPrefix_append)
    fix i assume i: "i < length sch"
    then have "sch ! i \<noteq> CHR '':''" using assms(1) by (metis nth_mem)
    with i have "drop i (sch @ ''://'' @ host @ ''/'' @ channel) =
        sch ! i # drop (Suc i) (sch @ ''://'' @ host @ ''/'' @ channel)" "sch ! i \<noteq> CHR '':''"
      by (auto simp: Cons_nth_drop_Suc nth_append)
    then show "\<not> HasPrefix (drop i (sch @ ''://'' @ host @ ''/'' @ channel)) ''://''" by simp
  qed
  moreover have "Index (host @ CHR ''/'' # channel) ''/'' = Some (length host)"
    using assms(2) by (rule Index_char_append)
  moreover have "CHR ''/'' \<notin> set (smeeHost raw)"
    by (auto simp: smeeHost_def Let_def Index_char_None dest: Index_char_Some in_set_takeD split: option.splits)
  ultimately show ?thesis using assms(3) by (simp add: smeeHost_def)
qed

theorem smeeHost_hides_channel_witness:
  "smeeHost ''https://smee.io/s3cr3t'' = ''smee.io''"
  using smeeHost_hides_channel[of "''https''" "''smee.io''" "''s3cr3t''" "[]"] by simp

end
