(* ===== verification/Autoscaler_Main.thy ===== *)
theory Autoscaler_Main
  imports Portal_Json Smee_Props
begin

text \<open>
  \<open>cmd/autoscaler/main.go\<close>: the log level, the redacted smee URL, the HTTP routes, and the
  wiring of the parts over one shared spawner. The goroutines of \<open>main\<close> are the events of
  \<open>program_step\<close>, taken one after the other in any order. What the parsed flags, the signals
  and the sockets give is an argument; the start, the exit codes and the end of the HTTP server
  are modelled.
\<close>

section \<open>Helpers\<close>

definition parseLevel :: "string \<Rightarrow> level" where
  "parseLevel s = (if s = ''debug'' then LevelDebug else if s = ''warn'' then LevelWarn
     else if s = ''error'' then LevelError else LevelInfo)"

definition redactSmeeURL :: "string \<Rightarrow> string" where
  "redactSmeeURL u = (case url_Parse u of
     None \<Rightarrow> ''[redacted]''
   | Some parsed \<Rightarrow> if url_Host parsed = [] then ''[redacted]''
       else url_Scheme parsed @ ''://'' @ url_Host parsed @ ''/[redacted]'')"

section \<open>HTTP routes\<close>

datatype http_reply = Healthy | StatsReply Stats | PortalReply reply

fun running_by_repo :: "'w env \<Rightarrow> RepoConfig list \<Rightarrow> (string \<rightharpoonup> int) \<Rightarrow> 'w \<Rightarrow> (string \<rightharpoonup> int) \<times> 'w" where
  "running_by_repo E [] m w = (m, w)"
| "running_by_repo E (r # rs) m w =
     (case CountRunning E (rc_Name r) w of (n, w1) \<Rightarrow> running_by_repo E rs (m(rc_Name r \<mapsto> n)) w1)"

definition buildHTTPServer ::
  "'w env \<Rightarrow> Config \<Rightarrow> (int list \<Rightarrow> int list) \<Rightarrow> (RepoConfig list \<Rightarrow> RepoConfig list)
     \<Rightarrow> request \<Rightarrow> 'w portal \<Rightarrow> http_reply \<times> 'w portal" where
  "buildHTTPServer E cfg rng order rq s =
     (if pr_Path rq = ''/healthz'' then (Healthy, s)
      else if pr_Path rq = ''/stats'' then
        (case running_by_repo E (cfg_Repos cfg) Map.empty (po_world s) of (m, w) \<Rightarrow>
          (StatsReply ((spawner_Stats (po_sp s))\<lparr>st_RunningByRepo := Some m\<rparr>), s\<lparr>po_world := w\<rparr>))
      else (case Mount E cfg rng order (pr_Path rq) rq s of (r, s') \<Rightarrow> (PortalReply r, s')))"

fun http_write :: "string \<Rightarrow> http_reply \<Rightarrow> response option" where
  "http_write page Healthy = Some \<lparr>re_Status = 200, re_ContentType = ''text/plain; charset=utf-8'', re_Body = ''ok''\<rparr>"
| "http_write page (StatsReply s) = Some (writeJSON (json_Stats s))"
| "http_write page (PortalReply r) = write_reply page r"

section \<open>Wiring\<close>

text \<open>The shared state at the start, and the reconciler: its loop is off for an interval of 0.\<close>

definition main_start :: "Config \<Rightarrow> bool \<Rightarrow> 'w \<Rightarrow> 'w portal" where
  "main_start cfg dryRun w =
     \<lparr>po_sp = New (cfg_GitHubPAT cfg) (cfg_RunnerImage cfg) dryRun, po_cl = cn_New cfg,
      po_world = w, po_triggers = []\<rparr>"

definition main_reconciler :: "Config \<Rightarrow> int \<Rightarrow> reconciler" where
  "main_reconciler cfg interval = (if 0 < interval then rn_New cfg interval else rn_New cfg (3600 * 1000000000))"

text \<open>
  What happens to the shared state: a smee connection delivers its stream, a tick of the
  reconciler or the cleaner, an HTTP request, or a triggered reconcile getting its turn.
\<close>

datatype event =
    SmeeStream string "err option"
  | ReconcileTick
  | CleanupTick
  | Request request
  | RunTrigger

definition program_step ::
  "'w env \<Rightarrow> 'w net \<Rightarrow> Config \<Rightarrow> (int list \<Rightarrow> int list) \<Rightarrow> (RepoConfig list \<Rightarrow> RepoConfig list) \<Rightarrow> reconciler
     \<Rightarrow> event \<Rightarrow> 'w portal \<Rightarrow> 'w portal" where
  "program_step E N cfg rng order r ev s =
     (case ev of
        SmeeStream bytes fin \<Rightarrow>
          (case parseStream (smee_client E N cfg) bytes fin (po_sp s, po_world s) of
             (_, (sp, w)) \<Rightarrow> s\<lparr>po_sp := sp, po_world := w\<rparr>)
      | ReconcileTick \<Rightarrow>
          (case rn_tick E r order (po_sp s) (po_world s) of (sp, w) \<Rightarrow> s\<lparr>po_sp := sp, po_world := w\<rparr>)
      | CleanupTick \<Rightarrow>
          (case tickWithSummary E rng order (po_sp s) (po_cl s) (po_world s) of
             None \<Rightarrow> s
           | Some (_, c, w) \<Rightarrow> s\<lparr>po_cl := c, po_world := w\<rparr>)
      | Request rq \<Rightarrow> snd (buildHTTPServer E cfg rng order rq s)
      | RunTrigger \<Rightarrow>
          (case po_triggers s of
             [] \<Rightarrow> s
           | f # fs \<Rightarrow>
               (case TriggerOnce E r order f (po_sp s) (po_world s) of
                  (sp, w) \<Rightarrow> s\<lparr>po_sp := sp, po_world := w, po_triggers := fs\<rparr>)))"

definition program_run ::
  "'w env \<Rightarrow> 'w net \<Rightarrow> Config \<Rightarrow> (int list \<Rightarrow> int list) \<Rightarrow> (RepoConfig list \<Rightarrow> RepoConfig list) \<Rightarrow> reconciler
     \<Rightarrow> event list \<Rightarrow> 'w portal \<Rightarrow> 'w portal" where
  "program_run E N cfg rng order r evs s = fold (program_step E N cfg rng order r) evs s"

section \<open>The process\<close>

text \<open>The flags after parsing, and their defaults (durations in nanoseconds).\<close>

record flags =
  fl_config :: string
  fl_dryRun :: bool
  fl_level :: string
  fl_reconcileInterval :: int
  fl_cleanupInterval :: int
  fl_shutdownTimeout :: int

definition default_flags :: flags where
  "default_flags = \<lparr>fl_config = ''/etc/autoscaler/config.json'', fl_dryRun = False, fl_level = ''info'',
     fl_reconcileInterval = 30 * second, fl_cleanupInterval = 5 * 60 * second,
     fl_shutdownTimeout = 15 * second\<rparr>"

text \<open>
  The start, up to the signal context: an exit code, or the configuration and the shared
  state. The warning about the file's permissions is logged by \<open>Load\<close>.
\<close>

definition main_load :: "'w env \<Rightarrow> host \<Rightarrow> flags \<Rightarrow> 'w \<Rightarrow> (int + Config \<times> 'w portal) \<times> 'w" where
  "main_load E H f w =
     (case Load H (fl_config f) of
        (res, warned) \<Rightarrow>
          (let w1 = (if warned then slog E LevelWarn ''config file is not 0600'' w else w) in
           case res of
             Inl e \<Rightarrow> (Inl 2, slog E LevelError (''config load failed: '' @ err_text e) w1)
           | Inr cfg \<Rightarrow>
               (let w2 = slog E LevelInfo (''config loaded: '' @ redactSmeeURL (cfg_SmeeURL cfg)) w1
                in (Inr (cfg, main_start cfg (fl_dryRun f) w2), w2))))"

text \<open>Which of the two loops run, and what is logged of those that do not.\<close>

definition main_loops :: "'w env \<Rightarrow> flags \<Rightarrow> 'w \<Rightarrow> (bool \<times> bool) \<times> 'w" where
  "main_loops E f w =
     (let w1 = (if 0 < fl_reconcileInterval f then w
                else slog E LevelInfo ''reconcile loop disabled (interval=0)'' w);
          w2 = (if 0 < fl_cleanupInterval f then w1
                else slog E LevelInfo ''cleanup loop disabled (interval=0)'' w1)
      in ((0 < fl_reconcileInterval f, 0 < fl_cleanupInterval f), w2))"

text \<open>
  \<open>runHTTPServer\<close>: \<open>Inl\<close> is the return of \<open>ListenAndServe\<close>, which comes before the context is
  done; \<open>Inr\<close> is the result of \<open>Shutdown\<close> after the context is done.
\<close>

definition err_server_closed :: err where
  "err_server_closed = ErrMsg ''http: Server closed''"

definition runHTTPServer :: "'w env \<Rightarrow> Config \<Rightarrow> err option + err option \<Rightarrow> 'w \<Rightarrow> 'w" where
  "runHTTPServer E cfg ended w =
     (let w1 = slog E LevelInfo (''http server listening: '' @ cfg_Listen cfg) w in
      case ended of
        Inl None \<Rightarrow> w1
      | Inl (Some e) \<Rightarrow> if \<not> errors_Is e err_server_closed then slog E LevelError ''http server error'' w1 else w1
      | Inr None \<Rightarrow> w1
      | Inr (Some e) \<Rightarrow> slog E LevelWarn ''http shutdown error'' w1)"

text \<open>After \<open>client.Run\<close> has returned; \<open>drained\<close> says which branch of the \<open>select\<close> was taken.\<close>

definition main_exit :: "'w env \<Rightarrow> err option \<Rightarrow> bool \<Rightarrow> 'w \<Rightarrow> int \<times> 'w" where
  "main_exit E smeeErr drained w =
     (let w1 = (if drained then w
                else slog E LevelWarn ''shutdown timeout reached; goroutines still running'' w) in
      case smeeErr of
        None \<Rightarrow> (0, slog E LevelInfo ''shutdown complete'' w1)
      | Some e \<Rightarrow>
          if \<not> errors_Is e ErrCanceled then (1, slog E LevelError ''smee client exited'' w1)
          else (0, slog E LevelInfo ''shutdown complete'' w1))"

text \<open>
  The main goroutine; what the others do meanwhile is in the world its calls return. \<open>None\<close>
  is a run that never ends.
\<close>

definition main_go :: "'w env \<Rightarrow> 'w net \<Rightarrow> host \<Rightarrow> flags \<Rightarrow> bool \<Rightarrow> 'w \<Rightarrow> (int \<times> 'w) option" where
  "main_go E N H f drained w =
     (case main_load E H f w of
        (Inl code, w1) \<Rightarrow> Some (code, w1)
      | (Inr (cfg, s), w1) \<Rightarrow>
          (case main_loops E f w1 of
             (_, w2) \<Rightarrow>
               (case smee_Run (smee_client E N cfg) (po_sp s, w2) of
                  None \<Rightarrow> None
                | Some (e, (_, w3)) \<Rightarrow> Some (main_exit E (Some e) drained w3))))"

end
