(* ===== verification/Docker_Ops.thy ===== *)
theory Docker_Ops
  imports Portal Reconciler_Props
begin

text \<open>
  The docker contract extended to the commands of the cleaner and the portal: none of them
  starts a container. So a cleanup tick and every portal request leave each repo with at
  most the running containers it had. The extension is interpreted on the simulated daemon.
\<close>

locale docker_ops = docker_host E running live
  for E :: "'w env" and running :: "'w \<Rightarrow> string set" and live :: "'w \<Rightarrow> string \<Rightarrow> string set" +
  assumes rm_quiet: "shrinks live (docker_Exec E (rm_args i))"
    and ps_all_quiet: "shrinks live (docker_Exec E ps_all_args)"
    and created_quiet: "shrinks live (docker_Exec E (created_args i))"
    and ps_live_quiet: "shrinks live (docker_Exec E ps_live_args)"
    and stop_quiet: "shrinks live (docker_Exec E (stop_args i))"
    and now_quiet: "shrinks live (time_Now E)"
begin

lemma cn_apiGET_quiet: "cn_apiGET E sp u w = (x, w') \<Longrightarrow> live w' \<le> live w"
  by (auto simp: cn_apiGET_def api_get_with_def dest: quiet
      split: option.splits prod.splits sum.splits if_splits)

lemma listGhostRunners_quiet: "listGhostRunners E sp repo w = (x, w') \<Longrightarrow> live w' \<le> live w"
  by (auto simp: listGhostRunners_def dest: cn_apiGET_quiet split: prod.splits sum.splits option.splits)

lemma listAllRunnerNames_quiet: "listAllRunnerNames E sp repo w = (x, w') \<Longrightarrow> live w' \<le> live w"
  by (auto simp: listAllRunnerNames_def dest: cn_apiGET_quiet split: prod.splits sum.splits option.splits)

lemma listStuckJobs_quiet: "listStuckJobs E sp repo i w = (x, w') \<Longrightarrow> live w' \<le> live w"
  by (auto simp: listStuckJobs_def dest: cn_apiGET_quiet split: prod.splits sum.splits)

lemma stuck_runs_quiet: "stuck_runs E sp repo names runs st w = (x, w') \<Longrightarrow> live w' \<le> live w"
proof (induction runs arbitrary: st w)
  case (Cons i runs)
  obtain a w1 where a: "listStuckJobs E sp repo i w = (a, w1)" by fastforce
  from Cons.prems a have "live w' \<le> live w1" by (cases a) (auto dest: Cons.IH)
  from order_trans[OF this listStuckJobs_quiet[OF a]] show ?case .
qed simp

lemma runIDsForGhosts_quiet:
  assumes "runIDsForGhosts E rng sp repo gs w = (x, w')" shows "live w' \<le> live w"
proof -
  obtain y w1 where y: "cn_apiGET E sp (ghost_runs_url (sp_apiBase sp) (rc_Name repo)) w = (y, w1)" by fastforce
  note q = cn_apiGET_quiet[OF y]
  with assms y show ?thesis
    by (auto simp: runIDsForGhosts_def dest!: stuck_runs_quiet split: sum.splits prod.splits option.splits)
qed

lemma cn_send_quiet: "cn_send E sp m u ok w = Some (b, w') \<Longrightarrow> live w' \<le> live w"
  by (auto simp: cn_send_def dest: quiet split: option.splits prod.splits sum.splits)

lemma cancel_all_quiet: "cancel_all E sp repo ids r c w = Some (r', c', w') \<Longrightarrow> live w' \<le> live w"
proof (induction ids arbitrary: r c w)
  case (Cons i ids)
  obtain b w1 where f: "forceCancelRun E sp repo i w = Some (b, w1)"
    using Cons.prems by (cases "forceCancelRun E sp repo i w") auto
  from Cons.prems f have "live w' \<le> live w1" by (cases b) (auto dest: Cons.IH)
  from order_trans[OF this cn_send_quiet[OF f[unfolded forceCancelRun_def]]] show ?case .
qed simp

lemma delete_all_quiet: "delete_all E sp repo gs r c w = Some (r', c', w') \<Longrightarrow> live w' \<le> live w"
proof (induction gs arbitrary: r c w)
  case (Cons g gs)
  obtain b w1 where f: "deleteRunner E sp repo (gh_id g) w = Some (b, w1)"
    using Cons.prems by (cases "deleteRunner E sp repo (gh_id g) w") auto
  from Cons.prems f have "live w' \<le> live w1" by (cases b) (auto dest: Cons.IH)
  from order_trans[OF this cn_send_quiet[OF f[unfolded deleteRunner_def]]] show ?case .
qed simp

lemma cleanupRepo_quiet:
  assumes "cleanupRepo E rng sp repo c w = Some (x, c', w')" shows "live w' \<le> live w"
  using assms
proof (cases rule: cleanupRepo_cases)
  case (ghosts gs w1 z w2 r1 c1 w3 r2)
  note q = order_trans[OF runIDsForGhosts_quiet[OF ghosts(3)] listGhostRunners_quiet[OF ghosts(1)]]
  have "live w3 \<le> live w2" using ghosts(4) cancel_all_quiet by (cases z) auto
  from order_trans[OF delete_all_quiet[OF ghosts(5)] order_trans[OF this q]] show ?thesis .
qed (auto dest: listGhostRunners_quiet)

lemma cleanup_all_quiet: "cleanup_all E rng sp repos su c w = Some (su', c', w') \<Longrightarrow> live w' \<le> live w"
proof (induction repos arbitrary: su c w)
  case (Cons repo repos)
  obtain x c1 w1 where s: "cleanupRepo E rng sp repo c w = Some (x, c1, w1)"
    using Cons.prems by (cases "cleanupRepo E rng sp repo c w") auto
  note q = cleanupRepo_quiet[OF s]
  show ?case
  proof (cases x)
    case (Inl e)
    with Cons.prems s have "live w' \<le> live (slog E LevelWarn ''cleanup repo failed'' w1)"
      by (auto dest: Cons.IH)
    from order_trans[OF this order_trans[OF slog_quiet q]] show ?thesis .
  next
    case (Inr r)
    with Cons.prems s have "live w' \<le> live w1" by (auto dest: Cons.IH)
    from order_trans[OF this q] show ?thesis .
  qed
qed simp

lemma output_quiet:
  "shrinks live (docker_Exec E args) \<Longrightarrow> dockerOutput E args w = (x, w') \<Longrightarrow> live w' \<le> live w"
  by (auto simp: dockerOutput_def dest: shrinksD split: prod.splits option.splits)

lemma run_quiet:
  "shrinks live (docker_Exec E args) \<Longrightarrow> dockerRun E args w = (x, w') \<Longrightarrow> live w' \<le> live w"
  by (auto simp: dockerRun_def dest: output_quiet split: prod.splits sum.splits)

lemma listManagedContainers_quiet:
  assumes "listManagedContainers E w = (x, w')" shows "live w' \<le> live w"
proof -
  obtain y w1 where y: "dockerOutput E ps_all_args w = (y, w1)" by fastforce
  note q = output_quiet[OF ps_all_quiet y]
  show ?thesis
  proof (cases y)
    case (Inl e)
    with assms y q show ?thesis by (auto simp: listManagedContainers_def)
  next
    case (Inr out)
    let ?cs = "List.map_filter parse_local (Split CHR 0x0A (TrimSpace out))"
    obtain z w2 where z: "dockerOutput E (inspect_args (map lc_id ?cs)) w1 = (z, w2)" by fastforce
    from order_trans[OF output_quiet[OF inspect_quiet z] q] q assms y Inr z show ?thesis
      by (auto simp: listManagedContainers_def Let_def split: if_splits sum.splits)
  qed
qed

lemma containerAge_quiet:
  assumes "containerAge E i w = (x, w')" shows "live w' \<le> live w"
proof -
  obtain y w1 where y: "dockerOutput E (created_args i) w = (y, w1)" by fastforce
  obtain n w2 where n: "time_Now E w1 = (n, w2)" by fastforce
  note q = output_quiet[OF created_quiet y]
  from q order_trans[OF shrinksD[OF now_quiet n] q] assms y n show ?thesis
    by (auto simp: containerAge_def split: sum.splits option.splits)
qed

lemma remove_container_quiet:
  assumes "remove_container E why i c w = (b, c', w')" shows "live w' \<le> live w"
proof -
  obtain e w1 where r: "dockerRun E (rm_args i) (slog E LevelInfo why w) = (e, w1)" by fastforce
  note q = order_trans[OF run_quiet[OF rm_quiet r] slog_quiet]
  from assms r q order_trans[OF slog_quiet q] show ?thesis
    by (cases e) (auto simp: remove_container_def)
qed

lemma reap_one_quiet:
  assumes "reap_one E reg grace lc c w = (b, c', w')" shows "live w' \<le> live w"
proof -
  obtain y w1 where y: "containerAge E (lc_id lc) w = (y, w1)" by fastforce
  note q = containerAge_quiet[OF y]
  from assms y q show ?thesis
    by (auto simp: reap_one_def dest: remove_container_quiet intro: order_trans[OF slog_quiet q]
        order_trans[OF remove_container_quiet q] split: if_splits option.splits sum.splits)
qed

lemma reap_all_quiet: "reap_all E reg grace lcs n c w = (m, c', w') \<Longrightarrow> live w' \<le> live w"
proof (induction lcs arbitrary: n c w)
  case (Cons lc lcs)
  obtain b c1 w1 where s: "reap_one E reg grace lc c w = (b, c1, w1)" by (metis prod.exhaust)
  with Cons.prems have "live w' \<le> live w1" by (auto dest: Cons.IH)
  from order_trans[OF this reap_one_quiet[OF s]] show ?case .
qed simp

lemma registered_names_quiet: "registered_names E sp repos reg w = (reg', w') \<Longrightarrow> live w' \<le> live w"
proof (induction repos arbitrary: reg w)
  case (Cons repo repos)
  obtain a w1 where a: "listAllRunnerNames E sp repo w = (a, w1)" by fastforce
  have "live w' \<le> live w1"
    using Cons.prems a by (cases a) (auto dest!: Cons.IH intro: order_trans[OF _ slog_quiet])
  from order_trans[OF this listAllRunnerNames_quiet[OF a]] show ?case .
qed simp

lemma reapLocalGhosts_quiet:
  assumes "reapLocalGhosts E sp c w = (n, c', w')" shows "live w' \<le> live w"
proof -
  obtain y w1 where l: "listManagedContainers E w = (y, w1)" by fastforce
  obtain reg w2 where g: "registered_names E sp (cfg_Repos (cn_cfg c)) Map.empty w1 = (reg, w2)" by fastforce
  note q = listManagedContainers_quiet[OF l]
  note q2 = order_trans[OF registered_names_quiet[OF g] q]
  from assms l g q order_trans[OF slog_quiet q] show ?thesis
    by (auto simp: reapLocalGhosts_def intro: order_trans[OF reap_all_quiet q2] split: sum.splits if_splits)
qed

lemma tick_quiet:
  assumes "tickWithSummary E rng order sp c w = Some (su, c', w')" shows "live w' \<le> live w"
proof -
  let ?su0 = "zero_Summary\<lparr>su_Repos := int (length (cfg_Repos (cn_cfg c)))\<rparr>"
  obtain su1 c1 w1 where a: "cleanup_all E rng sp (order (cfg_Repos (cn_cfg c))) ?su0 c w = Some (su1, c1, w1)"
    using assms by (cases "cleanup_all E rng sp (order (cfg_Repos (cn_cfg c))) ?su0 c w")
      (auto simp: tickWithSummary_def finish_tick_def)
  obtain n c2 w2 where p: "reapLocalGhosts E sp c1 w1 = (n, c2, w2)" by (metis prod.exhaust)
  note q = order_trans[OF reapLocalGhosts_quiet[OF p] cleanup_all_quiet[OF a]]
  from assms a p have "w' = w2 \<or> w' = slog E LevelInfo ''cleanup tick complete'' w2"
    by (auto simp: tickWithSummary_def finish_tick_def Let_def)
  with q order_trans[OF slog_quiet q] show ?thesis by auto
qed

text \<open>The portal.\<close>

definition quiet_handler :: "'w handler \<Rightarrow> bool" where
  "quiet_handler h \<longleftrightarrow> (\<forall>rq s. live (po_world (snd (h rq s))) \<le> live (po_world s))"

lemma quiet_handlerI: "(\<And>rq s r s'. h rq s = (r, s') \<Longrightarrow> live (po_world s') \<le> live (po_world s)) \<Longrightarrow> quiet_handler h"
  unfolding quiet_handler_def by (metis prod.collapse)

lemma quiet_handlerD: "quiet_handler h \<Longrightarrow> h rq s = (r, s') \<Longrightarrow> live (po_world s') \<le> live (po_world s)"
  unfolding quiet_handler_def by (metis snd_conv)

lemma auth_quiet: "quiet_handler h \<Longrightarrow> quiet_handler (auth cfg h)"
  by (auto simp: quiet_handler_def auth_def)

lemma post_only_quiet: "quiet_handler h \<Longrightarrow> quiet_handler (post_only h)"
  by (auto simp: quiet_handler_def post_only_def)

lemma queryRunCount_quiet: "queryRunCount E sp repo st w = Some (n, w') \<Longrightarrow> live w' \<le> live w"
  by (auto simp: queryRunCount_def dest: quiet split: option.splits prod.splits sum.splits if_splits)

lemma RepoRunnerCounts_quiet:
  assumes "RepoRunnerCounts E sp repo w = (x, w')" shows "live w' \<le> live w"
proof -
  let ?rq = "\<lparr>rq_Method = ''GET'', rq_URL = runners_url (sp_apiBase sp) (rc_Name repo),
      rq_Header = signRequest (sp_pat sp)\<rparr>"
  obtain y w1 where y: "http_Do E ?rq w = (y, w1)" by fastforce
  note q = shrinksD[OF http_quiet y]
  from assms y have "w' = w1 \<or> (\<exists>m. w' = slog E LevelWarn m w1) \<or> (\<exists>m. w' = slog E LevelWarn m w)"
    by (auto simp: RepoRunnerCounts_def http_NewRequest_def split: if_splits sum.splits prod.splits option.splits)
  with q order_trans[OF slog_quiet q] slog_quiet show ?thesis by auto
qed

lemma collectRepoState_quiet:
  assumes "collectRepoState E sp repo w = Some (rs, w')" shows "live w' \<le> live w"
proof -
  obtain n w1 where n: "CountRunning E (rc_Name repo) w = (n, w1)" by fastforce
  obtain q w2 where q: "queryRunCount E sp (rc_Name repo) ''queued'' w1 = Some (q, w2)"
    using assms n by (auto simp: collectRepoState_def split: option.splits)
  obtain p w3 where p: "queryRunCount E sp (rc_Name repo) ''in_progress'' w2 = Some (p, w3)"
    using assms n q by (auto simp: collectRepoState_def split: option.splits)
  obtain x w4 where x: "RepoRunnerCounts E sp repo w3 = (x, w4)" by fastforce
  from assms n q p x have "w' = w4" by (auto simp: collectRepoState_def split: prod.splits)
  with order_trans[OF RepoRunnerCounts_quiet[OF x] order_trans[OF queryRunCount_quiet[OF p]
      order_trans[OF queryRunCount_quiet[OF q] CountRunning_quiet[OF n]]]] show ?thesis by simp
qed

lemma collect_all_quiet: "collect_all E sp repos w = Some (rss, w') \<Longrightarrow> live w' \<le> live w"
proof (induction repos arbitrary: rss w)
  case (Cons repo repos)
  obtain rs w1 where c: "collectRepoState E sp repo w = Some (rs, w1)"
    using Cons.prems by (auto split: option.splits)
  with Cons.prems have "live w' \<le> live w1" by (auto split: option.splits dest: Cons.IH)
  from order_trans[OF this collectRepoState_quiet[OF c]] show ?case .
qed simp

lemma handleState_quiet: "quiet_handler (handleState E cfg)"
proof (rule quiet_handlerI)
  fix rq s r s' assume h: "handleState E cfg rq s = (r, s')"
  show "live (po_world s') \<le> live (po_world s)"
  proof (cases "collect_all E (po_sp s) (cfg_Repos cfg) (po_world s)")
    case None
    with h show ?thesis by (auto simp: handleState_def)
  next
    case (Some x)
    obtain rss w1 where x: "x = (rss, w1)" by fastforce
    obtain o1 o2 e w2 where d: "docker_Exec E ps_live_args w1 = ((o1, o2, e), w2)" by (metis prod.exhaust)
    from h Some x d have "po_world s' = w2"
      by (cases e) (auto simp: handleState_def listLiveEphemerals_def)
    with order_trans[OF shrinksD[OF ps_live_quiet d] collect_all_quiet[OF Some[unfolded x]]] show ?thesis by simp
  qed
qed

lemma handleStop_quiet: "quiet_handler (handleStop E)"
  unfolding handleStop_def
  by (intro post_only_quiet quiet_handlerI)
     (auto simp: Let_def dest: shrinksD[OF stop_quiet] split: if_splits prod.splits option.splits)

lemma handleCleanup_quiet: "quiet_handler (handleCleanup E rng order)"
  unfolding handleCleanup_def
  by (intro post_only_quiet quiet_handlerI) (auto simp: cn_Tick_def dest: tick_quiet split: option.splits)

lemma Mount_quiet: "quiet_handler (Mount E cfg rng order path)"
proof -
  have s: "quiet_handler handleReconcile" "quiet_handler handlePause" "quiet_handler handleResume"
    unfolding handleReconcile_def handlePause_def handleResume_def
    by (intro post_only_quiet; simp add: quiet_handler_def)+
  have "quiet_handler handleIndex" by (simp add: quiet_handler_def handleIndex_def)
  with s show ?thesis unfolding Mount_def
    by (simp add: auth_quiet handleState_quiet handleStop_quiet handleCleanup_quiet)
qed

end

section \<open>The simulated daemon\<close>

lemma sim_list_remove: "set (sim_list i (sim_remove j x cs)) \<subseteq> set (sim_list i cs)"
  by (induction i cs arbitrary: j rule: sim_list.induct) auto

lemma sim_list_stop: "set (sim_list i (sim_stop n cs)) \<subseteq> set (sim_list i cs)"
  by (induction i cs rule: sim_list.induct) auto

lemma sim_live_subset:
  "set (entries s') \<subseteq> set (entries s) \<Longrightarrow> sim_live s' \<le> sim_live s"
  by (force simp: sim_live_def le_fun_def)

lemma sim_exec_shrinks:
  assumes "hd args \<noteq> ''run''" shows "shrinks sim_live (sim_exec args)"
proof (rule shrinksI)
  fix s r s' assume e: "sim_exec args s = (r, s')"
  have "set (entries s') \<subseteq> set (entries s)"
    using e assms
    by (auto simp: sim_exec_def Let_def dest: subsetD[OF sim_list_remove] subsetD[OF sim_list_stop]
        split: if_splits list.splits)
  then show "sim_live s' \<le> sim_live s" by (rule sim_live_subset)
qed

interpretation sim_ops: docker_ops "sim_env g" sim_running sim_live
  by unfold_locales
     (auto simp: rm_args_def ps_all_args_def created_args_def ps_live_args_def stop_args_def
       intro: sim_exec_shrinks shrinksI)

end
