(* ===== verification/Portal_Acts.thy ===== *)
theory Portal_Acts
  imports Portal
begin

text \<open>
  What the cleaner and the portal do to the world, as a contract: a relation between worlds
  that reading docker commands, GETs, the clock and the log keep (\<open>reading_env\<close>), and for the
  cleaner also \<open>docker rm\<close>, POST and DELETE (\<open>cleaning_env\<close>). Its model is the relation
  \<open>acts\<close>: the worlds that finitely many calls of an allowed kind lead to.
\<close>

section \<open>The contracts\<close>

definition reads :: "string list \<Rightarrow> bool" where
  "reads args \<longleftrightarrow> args \<noteq> [] \<and> (hd args = ''ps'' \<or> hd args = ''inspect'')"

lemma reads_simps [simp]:
  "reads (ps_args r)" "reads (inspect_args ids)" "reads ps_all_args" "reads (created_args i)" "reads ps_live_args"
  by (simp_all add: reads_def ps_args_def inspect_args_def ps_all_args_def created_args_def ps_live_args_def)

locale reading_env =
  fixes E :: "'w env" and R :: "'w \<Rightarrow> 'w \<Rightarrow> bool"
  assumes R_same [intro, simp]: "R w w"
    and R_trans: "R w w' \<Longrightarrow> R w' w'' \<Longrightarrow> R w w''"
    and docker_R: "docker_Exec E args w = (x, w') \<Longrightarrow> reads args \<Longrightarrow> R w w'"
    and get_R: "http_Do E rq w = (y, w') \<Longrightarrow> rq_Method rq = ''GET'' \<Longrightarrow> R w w'"
    and now_R: "time_Now E w = (t, w') \<Longrightarrow> R w w'"
    and log_R [intro, simp]: "R w (slog E lv m w)"
begin

lemma cn_apiGET_R: "cn_apiGET E sp u w = (x, w') \<Longrightarrow> R w w'"
  by (auto simp: cn_apiGET_def api_get_with_def http_NewRequest_def dest: get_R
      split: prod.splits sum.splits if_splits)

lemma listGhostRunners_R: "listGhostRunners E sp repo w = (x, w') \<Longrightarrow> R w w'"
  by (auto simp: listGhostRunners_def dest: cn_apiGET_R split: prod.splits sum.splits option.splits)

lemma listAllRunnerNames_R: "listAllRunnerNames E sp repo w = (x, w') \<Longrightarrow> R w w'"
  by (auto simp: listAllRunnerNames_def dest: cn_apiGET_R split: prod.splits sum.splits option.splits)

lemma listStuckJobs_R: "listStuckJobs E sp repo i w = (x, w') \<Longrightarrow> R w w'"
  by (auto simp: listStuckJobs_def dest: cn_apiGET_R split: prod.splits sum.splits)

lemma stuck_runs_R: "stuck_runs E sp repo names runs st w = (x, w') \<Longrightarrow> R w w'"
proof (induction runs arbitrary: st w)
  case (Cons i runs)
  obtain a w1 where a: "listStuckJobs E sp repo i w = (a, w1)" by fastforce
  from Cons.prems a have "R w1 w'" by (cases a) (auto dest: Cons.IH)
  from R_trans[OF listStuckJobs_R[OF a] this] show ?case .
qed simp

lemma runIDsForGhosts_R:
  assumes "runIDsForGhosts E rng sp repo gs w = (x, w')" shows "R w w'"
proof -
  obtain y w1 where y: "cn_apiGET E sp (ghost_runs_url (sp_apiBase sp) (rc_Name repo)) w = (y, w1)" by fastforce
  note q = cn_apiGET_R[OF y]
  with assms y show ?thesis
    by (auto simp: runIDsForGhosts_def dest!: stuck_runs_R intro: R_trans
        split: sum.splits prod.splits option.splits)
qed

lemma output_R: "dockerOutput E args w = (x, w') \<Longrightarrow> reads args \<Longrightarrow> R w w'"
  by (auto simp: dockerOutput_def dest: docker_R split: prod.splits option.splits)

lemma listManagedContainers_R:
  assumes "listManagedContainers E w = (x, w')" shows "R w w'"
proof -
  obtain y w1 where y: "dockerOutput E ps_all_args w = (y, w1)" by fastforce
  note q = output_R[OF y reads_simps(3)]
  show ?thesis
  proof (cases y)
    case (Inl e)
    with assms y q show ?thesis by (auto simp: listManagedContainers_def)
  next
    case (Inr out)
    let ?cs = "List.map_filter parse_local (Split CHR 0x0A (TrimSpace out))"
    obtain z w2 where z: "dockerOutput E (inspect_args (map lc_id ?cs)) w1 = (z, w2)" by fastforce
    from R_trans[OF q output_R[OF z reads_simps(2)]] q assms y Inr z show ?thesis
      by (auto simp: listManagedContainers_def Let_def split: if_splits sum.splits)
  qed
qed

lemma containerAge_R:
  assumes "containerAge E i w = (x, w')" shows "R w w'"
proof -
  obtain y w1 where y: "dockerOutput E (created_args i) w = (y, w1)" by fastforce
  obtain n w2 where n: "time_Now E w1 = (n, w2)" by fastforce
  note q = output_R[OF y reads_simps(4)]
  from q R_trans[OF q now_R[OF n]] assms y n show ?thesis
    by (auto simp: containerAge_def split: sum.splits option.splits)
qed

lemma registered_names_R: "registered_names E sp repos reg w = (reg', w') \<Longrightarrow> R w w'"
proof (induction repos arbitrary: reg w)
  case (Cons repo repos)
  obtain a w1 where a: "listAllRunnerNames E sp repo w = (a, w1)" by fastforce
  have "R w1 w'"
    using Cons.prems a by (cases a) (auto dest!: Cons.IH intro: R_trans[OF log_R])
  from R_trans[OF listAllRunnerNames_R[OF a] this] show ?case .
qed simp

lemma CountRunning_R:
  assumes "CountRunning E repo w = (n, w')" shows "R w w'"
proof -
  obtain o1 o2 e w1 where l: "docker_Exec E (ps_args repo) w = ((o1, o2, e), w1)" by (metis prod.exhaust)
  obtain p1 p2 f w2 where i: "docker_Exec E (inspect_args (Fields (TrimSpace o1))) w1 = ((p1, p2, f), w2)"
    by (metis prod.exhaust)
  from docker_R[OF l] R_trans[OF docker_R[OF l] docker_R[OF i]] assms l i show ?thesis
    by (cases e; cases f) (auto simp: CountRunning_def countRunning_def list_ids_def count_ids_def split: if_splits)
qed

lemma queryRunCount_R: "queryRunCount E sp repo st w = Some (n, w') \<Longrightarrow> R w w'"
  by (auto simp: queryRunCount_def http_NewRequest_def dest: get_R split: prod.splits sum.splits if_splits)

lemma RepoRunnerCounts_R:
  assumes "RepoRunnerCounts E sp repo w = (x, w')" shows "R w w'"
proof -
  let ?rq = "\<lparr>rq_Method = ''GET'', rq_URL = runners_url (sp_apiBase sp) (rc_Name repo),
      rq_Header = signRequest (sp_pat sp)\<rparr>"
  obtain y w1 where y: "http_Do E ?rq w = (y, w1)" by fastforce
  then have q: "R w w1" by (rule get_R) simp
  from assms y have "w' = w1 \<or> (\<exists>m. w' = slog E LevelWarn m w1) \<or> (\<exists>m. w' = slog E LevelWarn m w)"
    by (auto simp: RepoRunnerCounts_def http_NewRequest_def split: if_splits sum.splits prod.splits option.splits)
  with q R_trans[OF q log_R] show ?thesis by auto
qed

lemma collectRepoState_R:
  assumes "collectRepoState E sp repo w = Some (rs, w')" shows "R w w'"
proof -
  obtain n w1 where n: "CountRunning E (rc_Name repo) w = (n, w1)" by fastforce
  obtain q w2 where q: "queryRunCount E sp (rc_Name repo) ''queued'' w1 = Some (q, w2)"
    using assms n by (auto simp: collectRepoState_def split: option.splits)
  obtain p w3 where p: "queryRunCount E sp (rc_Name repo) ''in_progress'' w2 = Some (p, w3)"
    using assms n q by (auto simp: collectRepoState_def split: option.splits)
  obtain x w4 where x: "RepoRunnerCounts E sp repo w3 = (x, w4)" by fastforce
  from assms n q p x have "w' = w4" by (auto simp: collectRepoState_def split: prod.splits)
  with R_trans[OF CountRunning_R[OF n] R_trans[OF queryRunCount_R[OF q]
      R_trans[OF queryRunCount_R[OF p] RepoRunnerCounts_R[OF x]]]] show ?thesis by simp
qed

lemma collect_all_R: "collect_all E sp repos w = Some (rss, w') \<Longrightarrow> R w w'"
proof (induction repos arbitrary: rss w)
  case (Cons repo repos)
  obtain rs w1 where c: "collectRepoState E sp repo w = Some (rs, w1)"
    using Cons.prems by (auto split: option.splits)
  with Cons.prems have "R w1 w'" by (auto split: option.splits dest: Cons.IH)
  from R_trans[OF collectRepoState_R[OF c] this] show ?case .
qed simp

lemma handleState_R: "R (po_world s) (po_world (snd (handleState E cfg rq s)))"
proof (cases "collect_all E (po_sp s) (cfg_Repos cfg) (po_world s)")
  case None
  then show ?thesis by (simp add: handleState_def)
next
  case (Some x)
  obtain rss w1 where x: "x = (rss, w1)" by fastforce
  obtain o1 o2 e w2 where d: "docker_Exec E ps_live_args w1 = ((o1, o2, e), w2)" by (metis prod.exhaust)
  from Some x d have "po_world (snd (handleState E cfg rq s)) = w2"
    by (cases e) (simp_all add: handleState_def listLiveEphemerals_def)
  with R_trans[OF collect_all_R[OF Some[unfolded x]] docker_R[OF d]] show ?thesis by simp
qed

end

locale cleaning_env = reading_env +
  assumes rm_R: "docker_Exec E (rm_args i) w = (x, w') \<Longrightarrow> R w w'"
    and send_R: "http_Do E rq w = (y, w') \<Longrightarrow> rq_Method rq \<in> {''POST'', ''DELETE''} \<Longrightarrow> R w w'"
begin

lemma cn_send_R: "cn_send E sp m u ok w = Some (b, w') \<Longrightarrow> m \<in> {''POST'', ''DELETE''} \<Longrightarrow> R w w'"
  by (auto simp: cn_send_def http_NewRequest_def dest: send_R split: prod.splits sum.splits if_splits)

lemma cancel_all_R: "cancel_all E sp repo ids r c w = Some (r', c', w') \<Longrightarrow> R w w'"
proof (induction ids arbitrary: r c w)
  case (Cons i ids)
  obtain b w1 where f: "forceCancelRun E sp repo i w = Some (b, w1)"
    using Cons.prems by (cases "forceCancelRun E sp repo i w") auto
  from Cons.prems f have "R w1 w'" by (cases b) (auto dest: Cons.IH)
  from R_trans[OF cn_send_R[OF f[unfolded forceCancelRun_def]] this] show ?case by simp
qed simp

lemma delete_all_R: "delete_all E sp repo gs r c w = Some (r', c', w') \<Longrightarrow> R w w'"
proof (induction gs arbitrary: r c w)
  case (Cons g gs)
  obtain b w1 where f: "deleteRunner E sp repo (gh_id g) w = Some (b, w1)"
    using Cons.prems by (cases "deleteRunner E sp repo (gh_id g) w") auto
  from Cons.prems f have "R w1 w'" by (cases b) (auto dest: Cons.IH)
  from R_trans[OF cn_send_R[OF f[unfolded deleteRunner_def]] this] show ?case by simp
qed simp

lemma cleanupRepo_R:
  assumes "cleanupRepo E rng sp repo c w = Some (x, c', w')" shows "R w w'"
  using assms
proof (cases rule: cleanupRepo_cases)
  case (ghosts gs w1 z w2 r1 c1 w3 r2)
  note q = R_trans[OF listGhostRunners_R[OF ghosts(1)] runIDsForGhosts_R[OF ghosts(3)]]
  have "R w2 w3" using ghosts(4) cancel_all_R by (cases z) auto
  from R_trans[OF q R_trans[OF this delete_all_R[OF ghosts(5)]]] show ?thesis .
qed (auto dest: listGhostRunners_R)

lemma cleanup_all_R: "cleanup_all E rng sp repos su c w = Some (su', c', w') \<Longrightarrow> R w w'"
proof (induction repos arbitrary: su c w)
  case (Cons repo repos)
  obtain x c1 w1 where s: "cleanupRepo E rng sp repo c w = Some (x, c1, w1)"
    using Cons.prems by (cases "cleanupRepo E rng sp repo c w") auto
  have "R w1 w'"
    using Cons.prems s by (cases x) (auto dest!: Cons.IH intro: R_trans[OF log_R])
  from R_trans[OF cleanupRepo_R[OF s] this] show ?case .
qed simp

lemma remove_container_R:
  assumes "remove_container E why i c w = (b, c', w')" shows "R w w'"
proof -
  obtain o1 o2 e w1 where d: "docker_Exec E (rm_args i) (slog E LevelInfo why w) = ((o1, o2, e), w1)"
    by (metis prod.exhaust)
  note q = R_trans[OF log_R rm_R[OF d]]
  from assms d q R_trans[OF q log_R] show ?thesis
    by (cases e) (auto simp: remove_container_def dockerRun_def dockerOutput_def)
qed

lemma reap_one_R:
  assumes "reap_one E reg grace lc c w = (b, c', w')" shows "R w w'"
proof -
  obtain y w1 where y: "containerAge E (lc_id lc) w = (y, w1)" by fastforce
  note q = containerAge_R[OF y]
  from assms y q show ?thesis
    by (auto simp: reap_one_def dest: remove_container_R intro: R_trans[OF q log_R]
        R_trans[OF q remove_container_R] split: if_splits option.splits sum.splits)
qed

lemma reap_all_R: "reap_all E reg grace lcs n c w = (m, c', w') \<Longrightarrow> R w w'"
proof (induction lcs arbitrary: n c w)
  case (Cons lc lcs)
  obtain b c1 w1 where s: "reap_one E reg grace lc c w = (b, c1, w1)" by (metis prod.exhaust)
  with Cons.prems have "R w1 w'" by (auto dest: Cons.IH)
  from R_trans[OF reap_one_R[OF s] this] show ?case .
qed simp

lemma reapLocalGhosts_R:
  assumes "reapLocalGhosts E sp c w = (n, c', w')" shows "R w w'"
proof -
  obtain y w1 where l: "listManagedContainers E w = (y, w1)" by fastforce
  obtain reg w2 where g: "registered_names E sp (cfg_Repos (cn_cfg c)) Map.empty w1 = (reg, w2)" by fastforce
  note q = listManagedContainers_R[OF l]
  note q2 = R_trans[OF q registered_names_R[OF g]]
  from assms l g q R_trans[OF q log_R] show ?thesis
    by (auto simp: reapLocalGhosts_def intro: R_trans[OF q2 reap_all_R] split: sum.splits if_splits)
qed

lemma tick_R:
  assumes "tickWithSummary E rng order sp c w = Some (su, c', w')" shows "R w w'"
proof -
  let ?su0 = "zero_Summary\<lparr>su_Repos := int (length (cfg_Repos (cn_cfg c)))\<rparr>"
  obtain su1 c1 w1 where a: "cleanup_all E rng sp (order (cfg_Repos (cn_cfg c))) ?su0 c w = Some (su1, c1, w1)"
    using assms by (cases "cleanup_all E rng sp (order (cfg_Repos (cn_cfg c))) ?su0 c w")
      (auto simp: tickWithSummary_def finish_tick_def)
  obtain n c2 w2 where p: "reapLocalGhosts E sp c1 w1 = (n, c2, w2)" by (metis prod.exhaust)
  note q = R_trans[OF cleanup_all_R[OF a] reapLocalGhosts_R[OF p]]
  from assms a p have "w' = w2 \<or> w' = slog E LevelInfo ''cleanup tick complete'' w2"
    by (auto simp: tickWithSummary_def finish_tick_def Let_def)
  with q R_trans[OF q log_R] show ?thesis by auto
qed

lemma handleCleanup_R:
  "pr_Method rq = ''POST'' \<Longrightarrow> R (po_world s) (po_world (snd (handleCleanup E rng order rq s)))"
  by (auto simp: handleCleanup_def post_only_def cn_Tick_def dest: tick_R split: option.splits)

end

section \<open>The calls that were made\<close>

text \<open>
  Worlds that finitely many calls lead to: docker commands and HTTP methods of the given
  kinds, the clock and the log, in any order.
\<close>

inductive acts :: "'w env \<Rightarrow> (string list \<Rightarrow> bool) \<Rightarrow> (string \<Rightarrow> bool) \<Rightarrow> 'w \<Rightarrow> 'w \<Rightarrow> bool"
  for E dk ht w where
  acts_start: "acts E dk ht w w"
| acts_docker: "acts E dk ht w w1 \<Longrightarrow> dk args \<Longrightarrow> docker_Exec E args w1 = (x, w2) \<Longrightarrow> acts E dk ht w w2"
| acts_http: "acts E dk ht w w1 \<Longrightarrow> ht (rq_Method rq) \<Longrightarrow> http_Do E rq w1 = (y, w2) \<Longrightarrow> acts E dk ht w w2"
| acts_now: "acts E dk ht w w1 \<Longrightarrow> time_Now E w1 = (t, w2) \<Longrightarrow> acts E dk ht w w2"
| acts_log: "acts E dk ht w w1 \<Longrightarrow> acts E dk ht w (slog E lv m w1)"

lemma acts_trans: "acts E dk ht w1 w2 \<Longrightarrow> acts E dk ht w w1 \<Longrightarrow> acts E dk ht w w2"
  by (induction rule: acts.induct) (auto intro: acts.intros)

lemma acts_first:
  "http_Do E rq w = (y, w') \<Longrightarrow> rq_Method rq = m \<Longrightarrow> ht m \<Longrightarrow> acts E dk ht w w'"
  "docker_Exec E args w = (x, w') \<Longrightarrow> dk args \<Longrightarrow> acts E dk ht w w'"
  "time_Now E w = (t, w') \<Longrightarrow> acts E dk ht w w'" "acts E dk ht w (slog E lv m' w)"
  by (auto intro: acts_http[OF acts_start] acts_docker[OF acts_start] acts_now[OF acts_start]
      acts_log[OF acts_start])

lemma acts_reading:
  assumes "\<And>args. reads args \<Longrightarrow> dk args" "ht ''GET''" shows "reading_env E (acts E dk ht)"
proof unfold_locales
  fix w w' w'' assume "acts E dk ht w w'" "acts E dk ht w' w''"
  then show "acts E dk ht w w''" by (rule acts_trans[rotated])
qed (use assms in \<open>auto intro: acts_start acts_first\<close>)

lemma acts_cleaning:
  assumes "\<And>args. reads args \<Longrightarrow> dk args" "ht ''GET''" "\<And>i. dk (rm_args i)" "ht ''POST''" "ht ''DELETE''"
  shows "cleaning_env E (acts E dk ht)"
proof -
  from acts_reading[of dk ht E, OF assms(1,2)] have "reading_env E (acts E dk ht)" .
  moreover have "cleaning_env_axioms E (acts E dk ht)"
    by unfold_locales (use assms in \<open>auto intro: acts_first\<close>)
  ultimately show ?thesis by (rule cleaning_env.intro)
qed

text \<open>The two contracts on the model's own environments.\<close>

interpretation read_acts: reading_env E "acts E reads (\<lambda>m. m = ''GET'')" for E :: "'w env"
  by (rule acts_reading) simp_all

interpretation clean_acts:
  cleaning_env E "acts E (\<lambda>args. reads args \<or> (\<exists>i. args = rm_args i)) (\<lambda>m. m \<in> {''GET'', ''POST'', ''DELETE''})"
  for E :: "'w env"
  by (rule acts_cleaning) auto

section \<open>The handlers\<close>

text \<open>
  What a request may ask of docker and of GitHub. Reading is free; \<open>docker rm\<close> and the
  requests that change something at GitHub take a POST to the cleanup path; \<open>docker stop\<close>
  takes a POST to the stop path and the name in the query, which starts with \<open>auto-\<close>.
\<close>

definition may_docker :: "string \<Rightarrow> request \<Rightarrow> string list \<Rightarrow> bool" where
  "may_docker path rq args \<longleftrightarrow> args \<noteq> [] \<and> (hd args = ''ps'' \<or> hd args = ''inspect'')
     \<or> pr_Method rq = ''POST'' \<and> path = ''/api/cleanup'' \<and> (\<exists>i. args = [''rm'', ''-f'', i])
     \<or> pr_Method rq = ''POST'' \<and> path = ''/api/stop''
         \<and> (\<exists>name. HasPrefix name ''auto-'' \<and> name = query_Get (pr_RawQuery rq) ''name'' \<and> args = [''stop'', name])"

definition may_http :: "string \<Rightarrow> request \<Rightarrow> string \<Rightarrow> bool" where
  "may_http path rq m \<longleftrightarrow> m = ''GET''
     \<or> pr_Method rq = ''POST'' \<and> path = ''/api/cleanup'' \<and> (m = ''POST'' \<or> m = ''DELETE'')"

lemma reads_may: "reads args \<Longrightarrow> may_docker path rq args"
  by (simp add: reads_def may_docker_def)

lemma handleState_acts:
  "acts E (may_docker path rq) (may_http path rq) (po_world s) (po_world (snd (handleState E cfg rq s)))"
  by (rule reading_env.handleState_R[OF acts_reading]) (simp_all add: reads_may may_http_def)

lemma handleCleanup_acts:
  "acts E (may_docker ''/api/cleanup'' rq) (may_http ''/api/cleanup'' rq)
     (po_world s) (po_world (snd (handleCleanup E rng order rq s)))"
proof (cases "pr_Method rq = ''POST''")
  case True
  show ?thesis
    by (rule cleaning_env.handleCleanup_R[OF acts_cleaning True])
       (simp_all add: True reads_def may_docker_def may_http_def rm_args_def)
qed (simp add: handleCleanup_def post_only_def acts_start)

lemma handleStop_acts:
  "acts E (may_docker ''/api/stop'' rq) (may_http ''/api/stop'' rq)
     (po_world s) (po_world (snd (handleStop E rq s)))"
  by (auto simp: handleStop_def post_only_def Let_def stop_args_def may_docker_def
      intro: acts_start acts_docker[OF acts_start] split: prod.splits option.splits)

end
