(* ===== verification/Portal_Props.thy ===== *)
theory Portal_Props
  imports Docker_Ops Portal_Acts
begin

text \<open>
  The properties of the portal: who may use the API, which requests change something, what
  can be stopped, and what the live state reports.
\<close>

section \<open>Access\<close>

definition api_paths :: "string list" where
  "api_paths = [''/api/state'', ''/api/reconcile'', ''/api/cleanup'', ''/api/pause'', ''/api/resume'', ''/api/stop'']"

lemma TrimPrefix_eq_iff:
  "p \<noteq> [] \<Longrightarrow> TrimPrefix a p = t \<longleftrightarrow> a = p @ t \<or> a = t \<and> \<not> HasPrefix a p"
proof (cases "HasPrefix a p")
  case True
  then obtain x where "a = p @ x" by (auto simp: HasPrefix_iff)
  then show ?thesis by auto
next
  case False
  then show ?thesis by (auto simp: TrimPrefix_id)
qed

lemma presented_iff:
  assumes "tok \<noteq> []"
  shows "presented rq = tok \<longleftrightarrow> pr_Authorization rq = ''Bearer '' @ tok
    \<or> pr_Authorization rq = tok \<and> \<not> HasPrefix tok ''Bearer ''
    \<or> (pr_Authorization rq = [] \<or> pr_Authorization rq = ''Bearer '') \<and> pr_Cookie rq = Some tok"
proof -
  let ?got = "TrimPrefix (pr_Authorization rq) ''Bearer ''"
  have e: "?got = [] \<longleftrightarrow> pr_Authorization rq = [] \<or> pr_Authorization rq = ''Bearer ''"
    by (subst TrimPrefix_eq_iff) (auto simp: HasPrefix_def)
  have t: "?got = tok \<longleftrightarrow> pr_Authorization rq = ''Bearer '' @ tok \<or> pr_Authorization rq = tok \<and> \<not> HasPrefix tok ''Bearer ''"
    by (subst TrimPrefix_eq_iff) auto
  show ?thesis
  proof (cases "?got = []")
    case True
    with assms e t show ?thesis by (auto simp: presented_def Let_def split: option.splits)
  next
    case False
    with e t show ?thesis by (auto simp: presented_def Let_def)
  qed
qed

lemma auth_iff:
  "cfg_PortalToken cfg \<noteq> [] \<Longrightarrow>
     auth cfg h rq s = (if presented rq = cfg_PortalToken cfg then h rq s else (HttpError 401 ''unauthorized'', s))"
  by (simp add: auth_def ConstantTimeCompare_eq)

text \<open>The routes: the live state, an action that needs POST, or the index.\<close>

lemma Mount_cases [case_names state action index]:
  obtains
    "path = ''/api/state''" "\<And>c. Mount E c rng order path = auth c (handleState E c)"
  | h where "path \<in> set api_paths" "path \<noteq> ''/api/state''" "\<And>c. Mount E c rng order path = auth c (post_only h)"
      "path = ''/api/stop'' \<Longrightarrow> post_only h = handleStop E"
  | "path \<notin> set api_paths" "\<And>c. Mount E c rng order path = handleIndex"
proof -
  have ne: "''/api/state'' \<noteq> ''/api/reconcile''" "''/api/cleanup'' \<noteq> ''/api/stop''" by simp_all
  consider "path = ''/api/state''" | "path = ''/api/reconcile''" | "path = ''/api/cleanup''"
    | "path = ''/api/pause''" | "path = ''/api/resume''" | "path = ''/api/stop''" | "path \<notin> set api_paths"
    unfolding api_paths_def by auto
  then show ?thesis
  proof cases
    case 1
    show ?thesis by (rule that(1)) (simp_all add: 1 Mount_def)
  next
    case 2
    show ?thesis by (rule that(2)) (simp_all add: 2 Mount_def api_paths_def handleReconcile_def)
  next
    case 3
    show ?thesis by (rule that(2)) (simp_all add: 3 Mount_def api_paths_def handleCleanup_def)
  next
    case 4
    show ?thesis by (rule that(2)) (simp_all add: 4 Mount_def api_paths_def handlePause_def)
  next
    case 5
    show ?thesis by (rule that(2)) (simp_all add: 5 Mount_def api_paths_def handleResume_def)
  next
    case 6
    show ?thesis by (rule that(2)) (simp_all add: 6 Mount_def api_paths_def handleStop_def)
  next
    case 7
    show ?thesis by (rule that(3)) (use 7 in \<open>simp_all add: Mount_def api_paths_def\<close>)
  qed
qed

text \<open>
  Claim C6. With a portal token configured, a request to any API path is served exactly if
  it carries that token, as \<open>Bearer\<close> token, as the bare header value, or in the cookie when
  the header is empty, and then as without a token check; every other one gets 401 and
  changes nothing.
\<close>

theorem portal_auth:
  assumes "cfg_PortalToken cfg \<noteq> []" "path \<in> set api_paths"
  defines "tok \<equiv> cfg_PortalToken cfg"
  shows "Mount E cfg rng order path rq s =
    (if pr_Authorization rq = ''Bearer '' @ tok \<or> pr_Authorization rq = tok \<and> \<not> HasPrefix tok ''Bearer ''
        \<or> (pr_Authorization rq = [] \<or> pr_Authorization rq = ''Bearer '') \<and> pr_Cookie rq = Some tok
     then Mount E (cfg\<lparr>cfg_PortalToken := []\<rparr>) rng order path rq s
     else (HttpError 401 ''unauthorized'', s))"
proof -
  have o: "auth (cfg\<lparr>cfg_PortalToken := []\<rparr>) h = h" for h :: "'a handler" by (simp add: auth_def)
  have st: "handleState E (cfg\<lparr>cfg_PortalToken := []\<rparr>) = handleState E cfg"
    by (simp add: handleState_def fun_eq_iff)
  have "Mount E cfg rng order path rq s = (if presented rq = cfg_PortalToken cfg
      then Mount E (cfg\<lparr>cfg_PortalToken := []\<rparr>) rng order path rq s else (HttpError 401 ''unauthorized'', s))"
  proof (cases rule: Mount_cases[where path = path and E = E and rng = rng and order = order])
    case index
    with assms(2) show ?thesis by simp
  qed (simp_all only: o st auth_iff[OF assms(1)])
  then show ?thesis unfolding presented_iff[OF assms(1)] tok_def .
qed

definition portal_config :: Config where
  "portal_config = web_config\<lparr>cfg_PortalToken := ''t0ken''\<rparr>"

definition portal_start :: "sim portal" where
  "portal_start = \<lparr>po_sp = web_spawner, po_cl = cn_New web_config, po_world = sim_start [web_container],
     po_triggers = []\<rparr>"

definition post :: "string \<Rightarrow> string \<Rightarrow> string \<Rightarrow> request" where
  "post path query hdr = \<lparr>pr_Method = ''POST'', pr_Path = path, pr_RawQuery = query, pr_Authorization = hdr,
     pr_Cookie = None\<rparr>"

theorem portal_auth_witness:
  "Mount (sim_env (sim_github [])) portal_config rev rev ''/api/pause'' (post ''/api/pause'' [] ''Bearer wrong'') portal_start
     = (HttpError 401 ''unauthorized'', portal_start)
   \<and> sp_paused (po_sp (snd (Mount (sim_env (sim_github [])) portal_config rev rev ''/api/pause''
       (post ''/api/pause'' [] ''Bearer t0ken'') portal_start)))"
proof -
  have c: "cfg_PortalToken portal_config \<noteq> []" "''/api/pause'' \<in> set api_paths"
    by (simp_all add: portal_config_def api_paths_def)
  from portal_auth[OF c, of "sim_env (sim_github [])" rev rev "post ''/api/pause'' [] ''Bearer wrong''" portal_start]
    portal_auth[OF c, of "sim_env (sim_github [])" rev rev "post ''/api/pause'' [] ''Bearer t0ken''" portal_start]
  show ?thesis
    by (simp add: portal_config_def post_def Mount_def auth_def handlePause_def post_only_def SetPaused_def)
qed

section \<open>What changes\<close>

lemma auth_acts:
  "acts E dk ht (po_world s) (po_world (snd (h rq s))) \<Longrightarrow>
     acts E dk ht (po_world s) (po_world (snd (auth cfg h rq s)))"
  by (simp add: auth_def acts_start)

lemma world_kept:
  "po_world (snd (auth cfg handleReconcile rq s)) = po_world s"
  "po_world (snd (auth cfg handlePause rq s)) = po_world s"
  "po_world (snd (auth cfg handleResume rq s)) = po_world s"
  "po_world (snd (handleIndex rq s)) = po_world s"
  by (simp_all add: auth_def handleReconcile_def handlePause_def handleResume_def handleIndex_def post_only_def)

lemma Mount_world:
  assumes "path \<notin> {''/api/state'', ''/api/cleanup'', ''/api/stop''}"
  shows "po_world (snd (Mount E cfg rng order path rq s)) = po_world s"
proof -
  have "path \<noteq> ''/api/state''" "path \<noteq> ''/api/cleanup''" "path \<noteq> ''/api/stop''" using assms by simp_all
  then show ?thesis unfolding Mount_def by (simp only: if_False world_kept simp_thms split: if_split)
qed

lemma Mount_acts:
  "acts E (may_docker path rq) (may_http path rq)
     (po_world s) (po_world (snd (Mount E cfg rng order path rq s)))"
proof -
  consider "path = ''/api/state''" | "path = ''/api/cleanup''" | "path = ''/api/stop''"
    | "path \<notin> {''/api/state'', ''/api/cleanup'', ''/api/stop''}" by blast
  then show ?thesis
  proof cases
    case 1
    then have "Mount E cfg rng order path = auth cfg (handleState E cfg)" by (simp add: Mount_def)
    then show ?thesis using auth_acts[where h = "handleState E cfg", OF handleState_acts] by simp
  next
    case 2
    then have "Mount E cfg rng order path = auth cfg (handleCleanup E rng order)" by (simp add: Mount_def)
    then show ?thesis unfolding 2 using auth_acts[where h = "handleCleanup E rng order", OF handleCleanup_acts] by simp
  next
    case 3
    then have "Mount E cfg rng order path = auth cfg (handleStop E)" by (simp add: Mount_def)
    then show ?thesis unfolding 3 using auth_acts[where h = "handleStop E", OF handleStop_acts] by simp
  next
    case 4
    show ?thesis unfolding Mount_world[OF 4] by (rule acts_start)
  qed
qed

text \<open>
  Claim C34. Without POST nothing changes but the world the live state reads: the spawner, the
  cleaner and the triggered reconciles stay. And whatever the request and its path, all that
  is done to the world is a sequence of the calls \<open>may_docker\<close> and \<open>may_http\<close> allow: docker is
  asked to stop a container only by a POST to the stop path, only for the name in the query,
  and only for a name that starts with \<open>auto-\<close>; it is asked to remove one, and something is
  changed at GitHub, only by a POST to the cleanup path; every other call reads. The stop path
  makes at most that one call, and only the state, cleanup and stop paths make any.
\<close>

theorem portal_changes:
  assumes "Mount E cfg rng order path rq s = (r, s')"
  shows "(pr_Method rq \<noteq> ''POST'' \<longrightarrow> po_sp s' = po_sp s \<and> po_cl s' = po_cl s \<and> po_triggers s' = po_triggers s
      \<and> (path \<noteq> ''/api/state'' \<longrightarrow> s' = s))
    \<and> (path = ''/api/stop'' \<longrightarrow> s' = s \<or>
        (pr_Method rq = ''POST'' \<and> HasPrefix (query_Get (pr_RawQuery rq) ''name'') ''auto-''
         \<and> s' = s\<lparr>po_world := snd (docker_Exec E [''stop'', query_Get (pr_RawQuery rq) ''name''] (po_world s))\<rparr>))
    \<and> acts E (may_docker path rq) (may_http path rq) (po_world s) (po_world s')
    \<and> (path \<notin> {''/api/state'', ''/api/cleanup'', ''/api/stop''} \<longrightarrow> po_world s' = po_world s)"
proof -
  have st: "po_sp (snd (handleState E cfg rq s)) = po_sp s \<and> po_cl (snd (handleState E cfg rq s)) = po_cl s
      \<and> po_triggers (snd (handleState E cfg rq s)) = po_triggers s"
    by (auto simp: handleState_def split: option.splits prod.splits)
  have a: "snd (auth cfg h rq s) = s \<or> snd (auth cfg h rq s) = snd (h rq s)" for h
    by (simp add: auth_def)
  have s': "s' = snd (Mount E cfg rng order path rq s)" using assms by simp
  have stop: "snd (handleStop E rq s) = s \<or>
        (pr_Method rq = ''POST'' \<and> HasPrefix (query_Get (pr_RawQuery rq) ''name'') ''auto-''
         \<and> snd (handleStop E rq s) = s\<lparr>po_world := snd (docker_Exec E [''stop'', query_Get (pr_RawQuery rq) ''name''] (po_world s))\<rparr>)"
    by (auto simp: handleStop_def post_only_def Let_def stop_args_def split: prod.splits option.splits)
  have "(pr_Method rq \<noteq> ''POST'' \<longrightarrow> po_sp s' = po_sp s \<and> po_cl s' = po_cl s \<and> po_triggers s' = po_triggers s
      \<and> (path \<noteq> ''/api/state'' \<longrightarrow> s' = s))
    \<and> (path = ''/api/stop'' \<longrightarrow> s' = s \<or>
        (pr_Method rq = ''POST'' \<and> HasPrefix (query_Get (pr_RawQuery rq) ''name'') ''auto-''
         \<and> s' = s\<lparr>po_world := snd (docker_Exec E [''stop'', query_Get (pr_RawQuery rq) ''name''] (po_world s))\<rparr>))"
  proof (cases rule: Mount_cases[where path = path and E = E and rng = rng and order = order])
    case state
    from a[of "handleState E cfg"] st state show ?thesis unfolding s' state(2) by auto
  next
    case (action h)
    have "pr_Method rq \<noteq> ''POST'' \<Longrightarrow> snd (post_only h rq s) = s" by (simp add: post_only_def)
    with a[of "post_only h"] have "pr_Method rq \<noteq> ''POST'' \<Longrightarrow> s' = s" unfolding s' action(3) by auto
    moreover have "path = ''/api/stop'' \<Longrightarrow> s' = s \<or> s' = snd (handleStop E rq s)"
      using a[of "post_only h"] unfolding s' action(3) by (auto simp: action(4))
    ultimately show ?thesis using stop by auto
  next
    case index
    then show ?thesis unfolding s' index(2) by (simp add: handleIndex_def)
  qed
  with Mount_acts[of E path rq s cfg rng order] Mount_world[of path E cfg rng order rq s] show ?thesis
    unfolding s' by blast
qed

text \<open>
  A POST to the stop path for a container of someone else changes nothing; a GET of the live
  state only reads, so the stopped container is not among what it may ask for.
\<close>

theorem portal_changes_witness:
  "snd (Mount (sim_env (sim_github [])) web_config rev rev ''/api/stop''
      (post ''/api/stop'' ''name=redis'' []) portal_start) = portal_start
   \<and> acts (sim_env (sim_github [])) reads (\<lambda>m. m = ''GET'') (po_world portal_start)
       (po_world (snd (Mount (sim_env (sim_github [])) web_config rev rev ''/api/state''
          (post ''/api/state'' [] []) portal_start)))"
proof -
  let ?rq = "post ''/api/stop'' ''name=redis'' []" and ?gt = "post ''/api/state'' [] []"
  obtain r s' where m: "Mount (sim_env (sim_github [])) web_config rev rev ''/api/stop'' ?rq portal_start = (r, s')"
    by fastforce
  obtain r2 s2 where m2: "Mount (sim_env (sim_github [])) web_config rev rev ''/api/state'' ?gt portal_start = (r2, s2)"
    by fastforce
  have "query_Get (pr_RawQuery ?rq) ''name'' = ''redis''"
    by (simp add: post_def query_Get_def query_pair_def List.map_filter_simps)
  with portal_changes[OF m] have "s' = portal_start" by (auto simp: HasPrefix_def)
  moreover have "may_docker ''/api/state'' ?gt = reads" "may_http ''/api/state'' ?gt = (\<lambda>m. m = ''GET'')"
    by (simp_all add: may_docker_def may_http_def reads_def fun_eq_iff)
  ultimately show ?thesis using m m2 portal_changes[OF m2] by simp
qed

section \<open>The live state\<close>

lemma RepoRunnerCounts_range:
  assumes "RepoRunnerCounts E sp repo w = ((online, busy, ghost), w')"
  shows "0 \<le> busy \<and> busy \<le> online \<and> 0 \<le> ghost"
proof -
  have c: "0 \<le> y \<and> y \<le> x \<and> 0 \<le> z" if "runner_counts page (0, 0, 0) = (x, y, z)" for page x y z
    using that count_where_mono[of page "\<lambda>r. HasPrefix (cr_Name r) ''auto-'' \<and> cr_Status r = ''online'' \<and> cr_Busy r"
        "\<lambda>r. HasPrefix (cr_Name r) ''auto-'' \<and> cr_Status r = ''online''"]
    by (auto simp: runner_counts_eq)
  from assms show ?thesis
    by (auto simp: RepoRunnerCounts_def dest: c split: option.splits prod.splits sum.splits if_splits)
qed

lemma queryRunCount_None:
  "queryRunCount E sp repo st w = None \<longleftrightarrow> url_Parse (run_count_url (sp_apiBase sp) repo st) = None"
  by (auto simp: queryRunCount_def http_NewRequest_def split: prod.splits sum.splits)

definition count_urls_ok :: "spawner \<Rightarrow> RepoConfig \<Rightarrow> bool" where
  "count_urls_ok sp repo \<longleftrightarrow> url_Parse (run_count_url (sp_apiBase sp) (rc_Name repo) ''queued'') \<noteq> None
     \<and> url_Parse (run_count_url (sp_apiBase sp) (rc_Name repo) ''in_progress'') \<noteq> None"

lemma collectRepoState_Some:
  assumes "count_urls_ok sp repo"
  obtains rs w' where "collectRepoState E sp repo w = Some (rs, w')" "rst_Name rs = rc_Name repo"
    "rst_Cap rs = rc_MaxConcurrency repo" "0 \<le> rst_Busy rs" "0 \<le> rst_Idle rs" "0 \<le> rst_Ghosts rs"
    "rst_Idle rs + rst_Busy rs = rst_Online rs"
proof -
  obtain n w1 where n: "CountRunning E (rc_Name repo) w = (n, w1)" by fastforce
  obtain q w2 where q: "queryRunCount E sp (rc_Name repo) ''queued'' w1 = Some (q, w2)"
    using assms queryRunCount_None[of E sp "rc_Name repo" "''queued''" w1] by (auto simp: count_urls_ok_def)
  obtain p w3 where p: "queryRunCount E sp (rc_Name repo) ''in_progress'' w2 = Some (p, w3)"
    using assms queryRunCount_None[of E sp "rc_Name repo" "''in_progress''" w2] by (auto simp: count_urls_ok_def)
  obtain x y z w4 where c: "RepoRunnerCounts E sp repo w3 = ((x, y, z), w4)" by (metis prod.exhaust)
  from RepoRunnerCounts_range[OF c] show ?thesis
    by (intro that[of "\<lparr>rst_Name = rc_Name repo, rst_Cap = rc_MaxConcurrency repo, rst_Queued = q,
           rst_InProgress = p, rst_Online = x, rst_Busy = y, rst_Idle = x - y, rst_Ghosts = z,
           rst_RunningEphemerals = n\<rparr>"]) (auto simp: collectRepoState_def n q p c)
qed

lemma collectRepoState_None: "\<not> count_urls_ok sp repo \<Longrightarrow> collectRepoState E sp repo w = None"
  by (auto simp: collectRepoState_def count_urls_ok_def queryRunCount_None[THEN iffD2] split: prod.splits option.splits)

lemma collect_all_Some:
  "list_all (count_urls_ok sp) repos \<Longrightarrow> \<exists>rss w'. collect_all E sp repos w = Some (rss, w')
     \<and> list_all2 (\<lambda>repo rs. rst_Name rs = rc_Name repo \<and> rst_Cap rs = rc_MaxConcurrency repo
         \<and> 0 \<le> rst_Busy rs \<and> 0 \<le> rst_Idle rs \<and> 0 \<le> rst_Ghosts rs
         \<and> rst_Idle rs + rst_Busy rs = rst_Online rs) repos rss"
proof (induction repos arbitrary: w)
  case (Cons repo repos)
  from Cons.prems have "count_urls_ok sp repo" by simp
  then obtain rs w1 where c: "collectRepoState E sp repo w = Some (rs, w1)" "rst_Name rs = rc_Name repo"
    "rst_Cap rs = rc_MaxConcurrency repo" "0 \<le> rst_Busy rs" "0 \<le> rst_Idle rs" "0 \<le> rst_Ghosts rs"
    "rst_Idle rs + rst_Busy rs = rst_Online rs" by (rule collectRepoState_Some)
  with Cons.IH[of w1] Cons.prems show ?case by auto
qed simp

lemma collect_all_None: "\<not> list_all (count_urls_ok sp) repos \<Longrightarrow> collect_all E sp repos w = None"
  by (induction repos arbitrary: w) (auto simp: collectRepoState_None split: option.splits)

text \<open>
  Claim C35. The live state has one entry per configured repo, in order, with its cap, idle
  and busy runners adding up to the online ones and no negative number; the request
  crashes exactly when the name of some repo spoils the URL of its run count, which nothing
  checks when the configuration is loaded.
\<close>

theorem portal_state:
  "if \<exists>repo \<in> set (cfg_Repos cfg). url_Parse (run_count_url (sp_apiBase (po_sp s)) (rc_Name repo) ''queued'') = None
       \<or> url_Parse (run_count_url (sp_apiBase (po_sp s)) (rc_Name repo) ''in_progress'') = None
   then handleState E cfg rq s = (Crash, s)
   else \<exists>st s'. handleState E cfg rq s = (ReplyState st, s') \<and> sta_Paused st = sp_paused (po_sp s)
     \<and> list_all2 (\<lambda>repo rs. rst_Name rs = rc_Name repo \<and> rst_Cap rs = rc_MaxConcurrency repo
         \<and> 0 \<le> rst_Busy rs \<and> 0 \<le> rst_Idle rs \<and> 0 \<le> rst_Ghosts rs
         \<and> rst_Idle rs + rst_Busy rs = rst_Online rs) (cfg_Repos cfg) (sta_Repos st)"
proof -
  have eq: "(\<exists>repo \<in> set (cfg_Repos cfg). url_Parse (run_count_url (sp_apiBase (po_sp s)) (rc_Name repo) ''queued'') = None
       \<or> url_Parse (run_count_url (sp_apiBase (po_sp s)) (rc_Name repo) ''in_progress'') = None)
     \<longleftrightarrow> \<not> list_all (count_urls_ok (po_sp s)) (cfg_Repos cfg)"
    by (auto simp: list_all_iff count_urls_ok_def)
  show ?thesis
  proof (cases "list_all (count_urls_ok (po_sp s)) (cfg_Repos cfg)")
    case True
    from collect_all_Some[OF this, of E "po_world s"] obtain rss w1 where
      c: "collect_all E (po_sp s) (cfg_Repos cfg) (po_world s) = Some (rss, w1)"
      and r: "list_all2 (\<lambda>repo rs. rst_Name rs = rc_Name repo \<and> rst_Cap rs = rc_MaxConcurrency repo
         \<and> 0 \<le> rst_Busy rs \<and> 0 \<le> rst_Idle rs \<and> 0 \<le> rst_Ghosts rs
         \<and> rst_Idle rs + rst_Busy rs = rst_Online rs) (cfg_Repos cfg) rss" by blast
    obtain cs w2 where "listLiveEphemerals E w1 = (cs, w2)" by fastforce
    with c r True show ?thesis unfolding eq by (simp add: handleState_def IsPaused_def)
  next
    case False
    with collect_all_None[OF False, of E "po_world s"] show ?thesis unfolding eq by (simp add: handleState_def)
  qed
qed


theorem portal_state_witness:
  "handleState (sim_env (sim_github [])) (web_config\<lparr>cfg_Repos := [web_repo\<lparr>rc_Name := ''acme/%zz''\<rparr>]\<rparr>)
     (post ''/api/state'' [] []) portal_start = (Crash, portal_start)"
proof -
  have "url_Parse (run_count_url defaultAPIBase ''acme/%zz'' ''queued'') = None"
    using api_url_iff[of "''repos/acme/%zz/actions/runs?status=queued&per_page=1''"]
    by (simp add: run_count_url_def defaultAPIBase_def is_hex_def unhex_def Let_def)
  with portal_state[of "web_config\<lparr>cfg_Repos := [web_repo\<lparr>rc_Name := ''acme/%zz''\<rparr>]\<rparr>" portal_start
      "sim_env (sim_github [])" "post ''/api/state'' [] []"]
  show ?thesis by (simp add: portal_start_def)
qed

end
