(* ===== verification/Replies.thy ===== *)
theory Replies
  imports Autoscaler_Main Portal_Props
begin

text \<open>
  What a client of the HTTP server receives: the JSON replies can be parsed, hold no HTML
  character, and the one of \<open>/api/state\<close> decodes to the state the handler collected.
\<close>

section \<open>JSON replies\<close>

definition json_reply :: "response \<Rightarrow> bool" where
  "json_reply re \<longleftrightarrow> (\<exists>j. re = writeJSON j \<and> int_json j \<and> json_depth j \<le> 4)"

lemma json_replyI: "int_json j \<Longrightarrow> json_depth j \<le> 4 \<Longrightarrow> json_reply (writeJSON j)"
  by (auto simp: json_reply_def)

lemma write_reply_json:
  assumes "write_reply page r = Some re" "re_ContentType re = ''application/json''"
  shows "json_reply re"
proof (cases r)
  case (ReplyState st)
  with assms(1) json_State_shape[of st] json_replyI[of "json_State st"] show ?thesis by auto
next
  case (ReplySummary su)
  with assms(1) json_Summary_shape[of su] json_replyI[of "json_Summary su"] show ?thesis by auto
next
  case (ReplyText k v)
  with assms(1) json_replyI[of "JObj [(k, JStr v)]"] show ?thesis by auto
next
  case (ReplyBool k v)
  with assms(1) json_replyI[of "JObj [(k, JBool v)]"] show ?thesis by auto
qed (use assms in \<open>auto simp: http_Error_def\<close>)

lemma http_write_json:
  assumes "http_write page r = Some re" "re_ContentType re = ''application/json''"
  shows "json_reply re"
proof (cases r)
  case (StatsReply s)
  with assms(1) json_Stats_shape[of s] show ?thesis
    by (auto simp: json_reply_def intro!: exI[where x = "json_Stats s"])
next
  case (PortalReply p)
  with assms write_reply_json show ?thesis by simp
qed (use assms in auto)

text \<open>
  Claim C28. What \<open>/api/state\<close> answers with can be read: the reply has status 200, is declared
  as JSON, and a client that decodes it into the same Go structs gets exactly the state the
  handler collected, whatever characters the names hold.
\<close>

theorem state_reads_back:
  assumes "handleState E cfg rq s = (ReplyState st, s')" and "State_ok st"
  shows "\<exists>re. write_reply page (fst (handleState E cfg rq s)) = Some re \<and> re_Status re = 200
    \<and> re_ContentType re = ''application/json'' \<and> json_Unmarshal dec_State (re_Body re) zero_State = (st, None)"
proof -
  have "dec_State (json_valid (json_State st)) zero_State = (st, False)"
    using read_State assms(2) by (simp add: decodes_def)
  with json_State_shape[of st] writeJSON_parses[of "json_State st"]
  have "json_Unmarshal dec_State (re_Body (writeJSON (json_State st))) zero_State = (st, None)"
    by (simp add: json_Unmarshal_def)
  with assms(1) show ?thesis by (simp add: writeJSON_def)
qed


text \<open>
  Claim C29. Every reply of the server that is declared as JSON is JSON and can be put into a
  page: it has status 200, it parses, and whatever the names of repos, of containers and in
  the request hold, no character of the body is one of the three HTML ones.
\<close>

theorem replies_inert:
  assumes "http_write page (fst (buildHTTPServer E cfg rng order rq s)) = Some re"
    and "re_ContentType re = ''application/json''"
  shows "re_Status re = 200 \<and> json_parse (re_Body re) \<noteq> None \<and> (\<forall>c \<in> set (re_Body re). c \<notin> set ''<>&'')"
proof -
  obtain j where j: "re = writeJSON j" "int_json j" "json_depth j \<le> 4"
    using http_write_json[OF assms] by (auto simp: json_reply_def)
  have "inert (re_Body re)" using inert_Encode[OF j(2)] j(1) by (simp add: writeJSON_def)
  with writeJSON_parses[OF j(2,3)] j(1) show ?thesis by (auto simp: inert_def writeJSON_def)
qed

section \<open>Examples\<close>

text \<open>One running container whose repo label holds an HTML character; GitHub does not answer.\<close>

definition page_env :: "sim env" where
  "page_env = (sim_env (sim_github []))\<lparr>
     docker_Exec := \<lambda>args w. ((''auto-a'' @ [CHR 0x09] @ ''acme/<b>'' @ [CHR 0x0A], [], None), w),
     http_Do := \<lambda>rq w. (Inl (ErrMsg ''connection refused''), w)\<rparr>"

lemma page_lines:
  "List.map_filter parse_live (Split CHR 0x0A (TrimSpace (''auto-a'' @ [CHR 0x09] @ ''acme/<b>'' @ [CHR 0x0A])))
     = [\<lparr>cst_Name = ''auto-a'', cst_Repo = ''acme/<b>'', cst_Busy = False\<rparr>]"
  by code_simp

definition page_state :: State where
  "page_state = \<lparr>sta_Stats = zero_Stats, sta_Cleanup = zero_Summary, sta_Repos = [],
     sta_Containers = [\<lparr>cst_Name = ''auto-a'', cst_Repo = ''acme/<b>'', cst_Busy = False\<rparr>], sta_Paused = False\<rparr>"

lemma page_handle:
  "handleState page_env (web_config\<lparr>cfg_Repos := []\<rparr>) rq portal_start = (ReplyState page_state, portal_start)"
proof -
  have "listLiveEphemerals page_env w = (sta_Containers page_state, w)" for w
    unfolding listLiveEphemerals_def page_env_def page_state_def by (simp add: page_lines del: append.simps)
  moreover have "spawner_Stats web_spawner = zero_Stats" "IsPaused web_spawner = False"
    "LastSummary (cn_New web_config) = zero_Summary"
    by (simp_all add: spawner_Stats_def zero_Stats_def web_spawner_def New_def NewWithDeps_def IsPaused_def
        LastSummary_def cn_New_def zero_Summary_def)
  ultimately show ?thesis by (simp add: handleState_def page_state_def portal_start_def)
qed

theorem state_reads_back_witness:
  "\<exists>re. write_reply ''<html>'' (ReplyState page_state) = Some re \<and> re_Status re = 200
    \<and> json_Unmarshal dec_State (re_Body re) zero_State = (page_state, None)"
proof -
  have ok: "State_ok page_state"
    by (simp add: page_state_def State_ok_def Stats_ok_def Summary_ok_def ContainerState_ok_def zero_Stats_def
        zero_Summary_def fits64_def utf8_ok_def to_valid_plain is_ascii_def)
  from state_reads_back[OF page_handle ok, of "''<html>''"] show ?thesis
    unfolding page_handle fst_conv by blast
qed

theorem replies_inert_witness:
  "\<exists>re. http_write ''<html>'' (fst (buildHTTPServer page_env (web_config\<lparr>cfg_Repos := []\<rparr>) rev rev
        \<lparr>pr_Method = ''GET'', pr_Path = ''/api/state'', pr_RawQuery = [], pr_Authorization = [], pr_Cookie = None\<rparr> portal_start)) = Some re
    \<and> json_parse (re_Body re) \<noteq> None \<and> CHR ''<'' \<notin> set (re_Body re)"
proof -
  let ?rq = "\<lparr>pr_Method = ''GET'', pr_Path = ''/api/state'', pr_RawQuery = [], pr_Authorization = [], pr_Cookie = None\<rparr>"
  let ?r = "fst (buildHTTPServer page_env (web_config\<lparr>cfg_Repos := []\<rparr>) rev rev ?rq portal_start)"
  have r: "?r = PortalReply (ReplyState page_state)"
    using page_handle[of ?rq] by (simp add: buildHTTPServer_def Mount_def auth_def web_config_def zero_Config_def)
  have w: "http_write ''<html>'' ?r = Some (writeJSON (json_State page_state))" by (simp add: r)
  from replies_inert[OF w] w show ?thesis by (auto simp: writeJSON_def)
qed

end
