(* ===== verification/Program.thy ===== *)
theory Program
  imports Replies
begin

text \<open>
  The whole program over its shared state: whatever relation holds across quiet changes,
  across \<open>Spawn\<close> and across the pause switch, holds across every sequence of events. Its two
  uses are the caps and the pause; the redaction of the smee URL closes the theory.
\<close>

section \<open>Events\<close>

definition core :: "'w portal \<Rightarrow> spawner \<times> 'w" where
  "core s = (po_sp s, po_world s)"

text \<open>A request that switches the pause off, if it is let in.\<close>

fun resumes :: "event \<Rightarrow> bool" where
  "resumes (Request rq) = (pr_Method rq = ''POST'' \<and> pr_Path rq = ''/api/resume'')"
| "resumes _ = False"

lemma Mount_spawner:
  "po_sp (snd (Mount E cfg rng order path rq s)) = po_sp s
   \<or> path = ''/api/pause'' \<and> po_sp (snd (Mount E cfg rng order path rq s)) = SetPaused True (po_sp s)
   \<or> path = ''/api/resume'' \<and> pr_Method rq = ''POST''
     \<and> po_sp (snd (Mount E cfg rng order path rq s)) = SetPaused False (po_sp s)"
proof -
  have a: "snd (auth cfg h rq s) = s \<or> snd (auth cfg h rq s) = snd (h rq s)" for h by (simp add: auth_def)
  have k: "po_sp (snd (handleState E cfg rq s)) = po_sp s" "po_sp (snd (handleReconcile rq s)) = po_sp s"
    "po_sp (snd (handleCleanup E rng order rq s)) = po_sp s" "po_sp (snd (handleStop E rq s)) = po_sp s"
    "po_sp (snd (handleIndex rq s)) = po_sp s"
    by (auto simp: handleState_def handleReconcile_def handleCleanup_def handleStop_def handleIndex_def
        post_only_def Let_def split: option.splits prod.splits)
  have p: "po_sp (snd (handlePause rq s)) = po_sp s \<or> po_sp (snd (handlePause rq s)) = SetPaused True (po_sp s)"
    "po_sp (snd (handleResume rq s)) = po_sp s \<or>
       pr_Method rq = ''POST'' \<and> po_sp (snd (handleResume rq s)) = SetPaused False (po_sp s)"
    by (simp_all add: handlePause_def handleResume_def post_only_def)
  consider "path = ''/api/pause''" | "path = ''/api/resume''" | "path \<noteq> ''/api/pause''" "path \<noteq> ''/api/resume''"
    by blast
  then show ?thesis
  proof cases
    case 1
    then have "Mount E cfg rng order path = auth cfg handlePause" by (simp add: Mount_def)
    with 1 p(1) a[of handlePause] show ?thesis by auto
  next
    case 2
    then have "Mount E cfg rng order path = auth cfg handleResume" by (simp add: Mount_def)
    with 2 p(2) a[of handleResume] show ?thesis by auto
  next
    case 3
    have u: "po_sp (snd (auth cfg h rq s)) = po_sp s" if "po_sp (snd (h rq s)) = po_sp s" for h
      using a[of h] that by auto
    from 3 have "po_sp (snd (Mount E cfg rng order path rq s)) = po_sp s"
      by (simp add: Mount_def u k)
    then show ?thesis by simp
  qed
qed

locale program_service =
  docker_ops E running live + quiet_service E running live inv R
  for E :: "'w env" and running :: "'w \<Rightarrow> string set" and live :: "'w \<Rightarrow> string \<Rightarrow> string set"
    and inv :: "spawner \<times> 'w \<Rightarrow> spawner \<times> 'w \<Rightarrow> bool" and R :: "RepoConfig set" +
  assumes pause_inv: "inv (sp, w) (SetPaused True sp, w)"
begin

lemma running_by_repo_quiet: "running_by_repo E rs m w = (m', w') \<Longrightarrow> live w' \<le> live w"
proof (induction rs arbitrary: m w)
  case (Cons r rs)
  obtain n w1 where n: "CountRunning E (rc_Name r) w = (n, w1)" by fastforce
  with Cons.prems have "live w' \<le> live w1" by (auto dest: Cons.IH)
  from order_trans[OF this CountRunning_quiet[OF n]] show ?case .
qed simp

lemma request_inv:
  assumes "\<not> resumes (Request rq) \<or> (\<forall>sp w. inv (sp, w) (SetPaused False sp, w))"
  shows "inv (core s) (core (snd (buildHTTPServer E cfg rng order rq s)))"
proof -
  let ?s' = "snd (Mount E cfg rng order (pr_Path rq) rq s)"
  have q: "live (po_world ?s') \<le> live (po_world s)"
    using Mount_quiet[of cfg rng order "pr_Path rq"] unfolding quiet_handler_def by blast
  have m: "inv (core s) (core ?s')"
    using Mount_spawner[of E cfg rng order "pr_Path rq" rq s]
  proof (elim disjE conjE)
    assume "po_sp ?s' = po_sp s"
    with same_inv[OF q] show ?thesis by (simp add: core_def)
  next
    assume "po_sp ?s' = SetPaused True (po_sp s)"
    with inv_trans[OF same_inv[OF q] pause_inv] show ?thesis by (simp add: core_def)
  next
    assume p: "pr_Path rq = ''/api/resume''" "pr_Method rq = ''POST''" "po_sp ?s' = SetPaused False (po_sp s)"
    with assms have "inv (po_sp s, po_world ?s') (SetPaused False (po_sp s), po_world ?s')" by simp
    with inv_trans[OF same_inv[OF q]] p show ?thesis by (simp add: core_def)
  qed
  obtain m' w1 where r: "running_by_repo E (cfg_Repos cfg) Map.empty (po_world s) = (m', w1)" by fastforce
  have "inv (core s) (po_sp s, w1)" using same_inv[OF running_by_repo_quiet[OF r]] by (simp add: core_def)
  moreover have "inv (core s) (core s)" by (simp add: core_def same_inv)
  ultimately show ?thesis using m r
    by (auto simp: buildHTTPServer_def core_def split: prod.splits)
qed

lemma step_inv:
  assumes "\<And>xs. set (order xs) \<subseteq> set xs" "rn_cfg r = cfg" "set (cfg_Repos cfg) \<subseteq> R"
    and "\<not> resumes ev \<or> (\<forall>sp w. inv (sp, w) (SetPaused False sp, w))"
  shows "inv (core s) (core (program_step E N cfg rng order r ev s))"
proof (cases ev)
  case (SmeeStream bytes fin)
  obtain e sp w where p: "parseStream (smee_client E N cfg) bytes fin (po_sp s, po_world s) = (e, (sp, w))"
    by (metis prod.exhaust)
  from event_handler.parseStream_inv[OF Dispatch_handler[OF assms(3)] p] SmeeStream p show ?thesis
    by (simp add: program_step_def core_def)
next
  case ReconcileTick
  obtain sp w where t: "rn_tick E r order (po_sp s) (po_world s) = (sp, w)" by fastforce
  from tickFiltered_inv[OF t[unfolded rn_tick_def] assms(1)] assms(2,3) ReconcileTick t show ?thesis
    by (auto simp: program_step_def core_def)
next
  case CleanupTick
  show ?thesis
  proof (cases "tickWithSummary E rng order (po_sp s) (po_cl s) (po_world s)")
    case None
    with CleanupTick show ?thesis by (simp add: program_step_def core_def same_inv)
  next
    case (Some x)
    obtain su c w where x: "x = (su, c, w)" by (metis prod.exhaust)
    from same_inv[OF tick_quiet[OF Some[unfolded x]]] CleanupTick Some x show ?thesis
      by (simp add: program_step_def core_def)
  qed
next
  case (Request rq)
  with assms(4) request_inv[of rq s cfg rng order] show ?thesis by (simp add: program_step_def)
next
  case RunTrigger
  show ?thesis
  proof (cases "po_triggers s")
    case Nil
    with RunTrigger show ?thesis by (simp add: program_step_def core_def same_inv)
  next
    case (Cons f fs)
    obtain sp w where t: "TriggerOnce E r order f (po_sp s) (po_world s) = (sp, w)" by fastforce
    from TriggerOnce_inv[OF t assms(1)] assms(2,3) RunTrigger Cons t show ?thesis
      by (auto simp: program_step_def core_def)
  qed
qed

lemma run_inv:
  assumes "\<And>xs. set (order xs) \<subseteq> set xs" "rn_cfg r = cfg" "set (cfg_Repos cfg) \<subseteq> R"
    and "\<forall>ev \<in> set evs. \<not> resumes ev \<or> (\<forall>sp w. inv (sp, w) (SetPaused False sp, w))"
  shows "inv (core s) (core (program_run E N cfg rng order r evs s))"
  using assms(4) unfolding program_run_def
proof (induction evs arbitrary: s)
  case Nil
  then show ?case by (simp add: core_def same_inv)
next
  case (Cons ev evs)
  have "inv (core s) (core (program_step E N cfg rng order r ev s))"
    using Cons.prems by (intro step_inv assms(1-3)) simp
  from inv_trans[OF this Cons.IH] Cons.prems show ?case by simp
qed

end

definition stays_paused ::
  "('w \<Rightarrow> string \<Rightarrow> string set) \<Rightarrow> spawner \<times> 'w \<Rightarrow> spawner \<times> 'w \<Rightarrow> bool" where
  "stays_paused live x y \<longleftrightarrow> sp_paused (fst x) \<longrightarrow> sp_paused (fst y) \<and> live (snd y) \<le> live (snd x)"

text \<open>
  Related by the interleaved steps: from all threads idle to all threads idle, the rest of
  the system free to change the world in any way that starts no container.
\<close>

definition scheduled ::
  "'w env \<Rightarrow> ('w \<Rightarrow> string \<Rightarrow> string set) \<Rightarrow> RepoConfig set \<Rightarrow> spawner \<times> 'w \<Rightarrow> spawner \<times> 'w \<Rightarrow> bool" where
  "scheduled E live R = (\<lambda>(sp, w) (sp', w').
     race_reach E R (\<lambda>v v'. live v' \<le> live v) (race_start sp w) (race_start sp' w'))"

lemma scheduled_pause: "scheduled E live R (sp, w) (SetPaused p sp, w)"
  using race_step.set_paused[where s = "race_start sp w"]
  by (auto simp: scheduled_def race_start_def intro: race_reach.step[OF race_reach.start])

context docker_ops
begin

lemma caps_program: "program_service E running live (state_caps_kept live rs) (set rs)"
  by (intro program_service.intro docker_ops_axioms caps_service program_service_axioms.intro)
     (simp add: state_caps_kept_def caps_kept_quiet)

lemma paused_program: "program_service E running live (stays_paused live) UNIV"
proof (intro program_service.intro docker_ops_axioms program_service_axioms.intro)
  show "quiet_service E running live (stays_paused live) UNIV"
    by unfold_locales (auto simp: stays_paused_def IncReconcile_def Spawn_def count_paused_def)
qed (simp add: stays_paused_def SetPaused_def)

lemma race_program: "program_service E running live (scheduled E live R) R"
proof (intro program_service.intro docker_ops_axioms program_service_axioms.intro)
  show "quiet_service E running live (scheduled E live R) R"
  proof (unfold_locales, goal_cases)
    case (1 w' w sp)
    from race_step.environment[where s = "race_start sp w" and ext = "\<lambda>w w'. live w' \<le> live w",
        simplified race_start_def, simplified, OF 1]
    show ?case by (auto simp: scheduled_def race_start_def intro: race_reach.step[OF race_reach.start])
  next
    case (2 sp w)
    from race_step.inc_reconcile[where s = "race_start sp w"]
    show ?case by (auto simp: scheduled_def race_start_def intro: race_reach.step[OF race_reach.start])
  qed (auto simp: scheduled_def intro: race_reach_trans Spawn_race_again)
  fix sp and w :: 'w
  show "scheduled E live R (sp, w) (SetPaused True sp, w)" by (rule scheduled_pause)
qed

end

interpretation sim_program: program_service "sim_env g" sim_running sim_live "state_caps_kept sim_live rs" "set rs"
  by (rule sim_ops.caps_program)

section \<open>The caps\<close>

text \<open>
  Claim C2. From its start on, through every sequence of smee streams, reconcile ticks,
  cleanup ticks, HTTP requests and triggered reconciles, the program leaves each configured
  repo with at most its cap of running containers, or what was running at the start if that
  was more.
\<close>

theorem program_keeps_caps:
  assumes "docker_ops E running live" "\<And>xs. set (order xs) \<subseteq> set xs"
  shows "int (card (live (po_world (program_run E N cfg rng order (main_reconciler cfg interval) events
      (main_start cfg dryRun w))) n)) \<le> max (int (card (live w n))) (cap_of (cfg_Repos cfg) n)"
proof -
  have svc: "program_service E running live (state_caps_kept live (cfg_Repos cfg)) (set (cfg_Repos cfg))"
    by (rule docker_ops.caps_program[OF assms(1)])
  have r: "rn_cfg (main_reconciler cfg interval) = cfg" by (simp add: main_reconciler_def rn_New_def)
  have free: "state_caps_kept live (cfg_Repos cfg) (sp, w) (SetPaused False sp, w)" for sp and w :: 'a
    by (simp add: state_caps_kept_def caps_kept_def)
  from program_service.run_inv[OF svc assms(2) r subset_refl, where evs = events and N = N and rng = rng
      and s = "main_start cfg dryRun w"] free
  show ?thesis by (simp add: core_def state_caps_kept_def caps_kept_def main_start_def)
qed

definition a_day :: "event list" where
  "a_day = [ReconcileTick, SmeeStream (sse_text ping_then_job) None, Request (post ''/api/reconcile'' [] []),
     CleanupTick, RunTrigger, Request (post ''/api/pause'' [] []), ReconcileTick]"

theorem program_keeps_caps_witness:
  "int (card (sim_live (po_world (program_run (sim_env (sim_github web_queue)) sim_net web_config rev rev
     (main_reconciler web_config 0) a_day (main_start web_config False (sim_start [])))) ''acme/web'')) \<le> 2"
proof -
  have "int (card (sim_live (po_world (program_run (sim_env (sim_github web_queue)) sim_net web_config rev rev
     (main_reconciler web_config 0) a_day (main_start web_config False (sim_start [])))) ''acme/web''))
    \<le> max (int (card (sim_live (sim_start []) ''acme/web''))) (cap_of (cfg_Repos web_config) ''acme/web'')"
    by (rule program_keeps_caps[OF sim_ops.docker_ops_axioms]) simp
  also have "\<dots> = 2" by (simp add: sim_live_def web_config_def cap_of_def)
  finally show ?thesis .
qed

section \<open>Interleaving\<close>

text \<open>
  Claim C8. What the program does one event after the other is one schedule of the
  interleaved steps of \<open>Spawn\<close>: every sequence of smee streams, ticks, requests and triggers
  leads to a spawner and a world that threads reach which run \<open>Spawn\<close> for configured repos,
  the pause switch, the reconcile counter, and changes of the world that start no container.
\<close>

theorem program_is_race:
  assumes "docker_ops E running live" "\<And>xs. set (order xs) \<subseteq> set xs" "rn_cfg r = cfg"
    and "s' = program_run E N cfg rng order r events s"
  shows "race_reach E (set (cfg_Repos cfg)) (\<lambda>w w'. live w' \<le> live w)
    (race_start (po_sp s) (po_world s)) (race_start (po_sp s') (po_world s'))"
proof -
  have "scheduled E live (set (cfg_Repos cfg)) (core s) (core s')"
    unfolding assms(4)
    by (intro program_service.run_inv[OF docker_ops.race_program[OF assms(1)] assms(2,3)])
       (simp_all add: scheduled_pause)
  then show ?thesis by (simp add: scheduled_def core_def)
qed

text \<open>The events of \<open>a_day\<close>, which spawn, tick and switch the pause.\<close>

theorem program_is_race_witness:
  "race_reach (sim_env (sim_github web_queue)) (set (cfg_Repos web_config))
     (\<lambda>w w'. sim_live w' \<le> sim_live w)
     (race_start (po_sp (main_start web_config False (sim_start []))) (sim_start []))
     (race_start
       (po_sp (program_run (sim_env (sim_github web_queue)) sim_net web_config rev rev
          (main_reconciler web_config 0) a_day (main_start web_config False (sim_start []))))
       (po_world (program_run (sim_env (sim_github web_queue)) sim_net web_config rev rev
          (main_reconciler web_config 0) a_day (main_start web_config False (sim_start [])))))"
  using program_is_race[OF sim_ops.docker_ops_axioms[of "sim_github web_queue"] _ _ refl,
    where s = "main_start web_config False (sim_start [])" and order = rev and cfg = web_config
    and r = "main_reconciler web_config 0" and events = a_day and N = sim_net and rng = rev]
  by (simp add: main_reconciler_def rn_New_def main_start_def)

section \<open>The pause\<close>

text \<open>
  Claim C7. While the program is paused it starts no container: whatever arrives, as long as
  no POST to the resume path is let in, it stays paused and no repo gains a running
  container.
\<close>

theorem paused_starts_nothing:
  assumes "docker_ops E running live" "\<And>xs. set (order xs) \<subseteq> set xs" "rn_cfg r = cfg"
    and "sp_paused (po_sp s)" "\<forall>ev \<in> set events. \<not> resumes ev"
    and "s' = program_run E N cfg rng order r events s"
  shows "sp_paused (po_sp s') \<and> live (po_world s') n \<subseteq> live (po_world s) n"
proof -
  have "stays_paused live (core s) (core s')"
    unfolding assms(6) using assms(5)
    by (intro program_service.run_inv[OF docker_ops.paused_program[OF assms(1)] assms(2,3)]) simp_all
  with assms(4) show ?thesis by (simp add: stays_paused_def core_def le_fun_def)
qed

definition paused_start :: "sim portal" where
  "paused_start = \<lparr>po_sp = SetPaused True web_spawner, po_cl = cn_New web_config, po_world = sim_start [],
     po_triggers = []\<rparr>"

theorem paused_starts_nothing_witness:
  "sim_live (po_world (program_run (sim_env (sim_github web_queue)) sim_net web_config rev rev
     (main_reconciler web_config 0) a_day paused_start)) ''acme/web'' = {}"
proof -
  let ?s = paused_start
  let ?s' = "program_run (sim_env (sim_github web_queue)) sim_net web_config rev rev (main_reconciler web_config 0) a_day ?s"
  have "sp_paused (po_sp ?s') \<and> sim_live (po_world ?s') ''acme/web'' \<subseteq> sim_live (po_world ?s) ''acme/web''"
    by (rule paused_starts_nothing[OF sim_ops.docker_ops_axioms _ _ _ _ refl])
       (simp_all add: main_reconciler_def rn_New_def SetPaused_def a_day_def post_def paused_start_def)
  moreover have "sim_live (po_world ?s) ''acme/web'' = {}" by (simp add: paused_start_def sim_live_def)
  ultimately show ?thesis by blast
qed

section \<open>The smee URL in the log\<close>

lemma scheme_from_alpha:
  "list_all is_alpha sch \<Longrightarrow> acc @ sch \<noteq> [] \<Longrightarrow> scheme_from whole acc (sch @ CHR '':'' # x) = Some (acc @ sch, x)"
proof (induction sch arbitrary: acc)
  case Nil
  have "\<not> is_alpha CHR '':''" "\<not> is_digit CHR '':''" by (simp_all add: is_alpha_def is_digit_def)
  with Nil show ?case by simp
qed simp

lemma parse_with_host:
  assumes "list_all is_alpha sch" "sch \<noteq> []" "set host \<inter> set ''/?#'' = {}" "CHR ''#'' \<notin> set c"
  shows "parse_no_frag (sch @ ''://'' @ host @ ''/'' @ c) =
    (if has_ctl (sch @ ''://'' @ host @ ''/'' @ c) then None
     else case parse_authority host of None \<Rightarrow> None
     | Some h \<Rightarrow> if pct_ok (CHR ''/'' # takeWhile (\<lambda>x. x \<noteq> CHR ''?'') c)
         then Some \<lparr>url_Scheme = map lower_byte sch, url_Host = h\<rparr> else None)"
proof -
  let ?q = "\<lambda>x. x \<noteq> CHR ''?''" and ?s = "\<lambda>x. x \<noteq> CHR ''/''"
  have sf: "scheme_from w [] (sch @ ''://'' @ host @ ''/'' @ c) = Some (sch, ''//'' @ host @ ''/'' @ c)" for w
    using scheme_from_alpha[OF assms(1), of "[]" w "''//'' @ host @ ''/'' @ c"] assms(2) by simp
  have q: "takeWhile ?q (''//'' @ host @ ''/'' @ c) = ''//'' @ host @ CHR ''/'' # takeWhile ?q c"
    using assms(3) by (auto simp: takeWhile_append)
  have h: "takeWhile ?s (host @ CHR ''/'' # x) = host" "dropWhile ?s (host @ CHR ''/'' # x) = CHR ''/'' # x" for x
    using assms(3) by (auto simp: takeWhile_append dropWhile_append)
  have d: "drop 2 (''//'' @ host @ CHR ''/'' # x) = host @ CHR ''/'' # x" for x by simp
  have star: "sch @ ''://'' @ host @ ''/'' @ c \<noteq> ''*''" by (cases sch) auto
  show ?thesis
    unfolding parse_no_frag_def sf option.case prod.case q Let_def d h
    using assms(2) star by simp
qed

text \<open>
  What \<open>main\<close> logs of the smee URL does not depend on the channel: for any scheme
  and host it is \<open>[redacted]\<close> or the one text that scheme and host give without a channel.
\<close>

theorem redact_hides_channel:
  assumes "list_all is_alpha sch" "sch \<noteq> []" "set host \<inter> set ''/?#'' = {}"
  shows "redactSmeeURL (sch @ ''://'' @ host @ ''/'' @ channel) = ''[redacted]''
    \<or> redactSmeeURL (sch @ ''://'' @ host @ ''/'' @ channel) = redactSmeeURL (sch @ ''://'' @ host @ ''/'')"
proof -
  let ?h = "\<lambda>x. x \<noteq> CHR ''#''" and ?b = "sch @ ''://'' @ host @ ''/''"
  have b: "\<forall>x \<in> set ?b. ?h x" using assms(1,3) by (auto simp: list_all_iff is_alpha_def)
  have t: "takeWhile ?h (sch @ ''://'' @ host @ ''/'' @ c) = sch @ ''://'' @ host @ ''/'' @ takeWhile ?h c" for c
    using takeWhile_append2[of ?b ?h c] b by simp
  have c: "CHR ''#'' \<notin> set (takeWhile ?h x)" for x by (auto dest: set_takeWhileD)
  have "url_Parse (sch @ ''://'' @ host @ ''/'' @ channel) = None
      \<or> url_Parse (sch @ ''://'' @ host @ ''/'' @ channel) = url_Parse (sch @ ''://'' @ host @ ''/'' @ [])"
    unfolding url_Parse_def t Let_def parse_with_host[OF assms c]
    by (simp add: has_ctl_def pct_ok_plain split: option.split)
  then show ?thesis by (auto simp: redactSmeeURL_def)
qed

theorem redact_hides_channel_witness:
  "redactSmeeURL ''https://smee.io/s3cr3t'' = ''[redacted]'' \<or> redactSmeeURL ''https://smee.io/s3cr3t'' = ''https://smee.io/[redacted]''"
proof -
  have "redactSmeeURL ''https://smee.io/'' = ''https://smee.io/[redacted]''"
    by (simp add: redactSmeeURL_def url_Parse_def parse_no_frag_def has_ctl_def HasPrefix_def is_alpha_def
      is_digit_def lower_byte_def parse_authority_def parse_host_def split_last_def port_ok_def host_char_def
      is_ascii_def Let_def)
  with redact_hides_channel[of "''https''" "''smee.io''" "''s3cr3t''"] show ?thesis
    by (simp add: is_alpha_def)
qed

section \<open>The exit\<close>

text \<open>
  Claim C27. The exit code: whenever the program ends, it is 2 if the configuration is refused
  and 0 otherwise (the exit with 1 after the smee client is never taken, as the client only
  returns the error of the context); and it does end when the configuration is refused, or
  the context is done after a bounded number of reconnects.
\<close>

theorem main_exit_code:
  "(\<forall>code w'. main_go E N H f drained w = Some (code, w') \<longrightarrow>
      code = (case fst (Load H (fl_config f)) of Inl _ \<Rightarrow> 2 | Inr _ \<Rightarrow> 0))
   \<and> ((\<forall>cfg. fst (Load H (fl_config f)) = Inr cfg \<longrightarrow> canceled_in_time (smee_client E N cfg) left)
      \<longrightarrow> main_go E N H f drained w \<noteq> None)"
proof -
  obtain res warned where l: "Load H (fl_config f) = (res, warned)" by fastforce
  show ?thesis
  proof (cases res)
    case (Inl e)
    with l show ?thesis by (simp add: main_go_def main_load_def Let_def)
  next
    case (Inr cfg)
    obtain s w1 where m: "main_load E H f w = (Inr (cfg, s), w1)"
      using l Inr by (simp add: main_load_def Let_def)
    obtain b w2 where p: "main_loops E f w1 = (b, w2)" by fastforce
    have go: "main_go E N H f drained w =
        (case smee_Run (smee_client E N cfg) (po_sp s, w2) of
           None \<Rightarrow> None | Some (e, (_, w3)) \<Rightarrow> Some (main_exit E (Some e) drained w3))"
      by (simp add: main_go_def m p)
    have "code = 0" if "main_go E N H f drained w = Some (code, w')" for code w'
    proof -
      from that obtain y where y: "smee_loop (smee_client E N cfg) second (po_sp s, w2) = Some y"
        by (auto simp: go smee_Run_def split: option.splits)
      from smee_loop_canceled[OF y] that y show ?thesis
        by (auto simp: go smee_Run_def main_exit_def Let_def split: prod.splits)
    qed
    moreover have "main_go E N H f drained w \<noteq> None" if "canceled_in_time (smee_client E N cfg) left"
      using canceled_in_time.loop_returns[OF that, of second "(po_sp s, w2)"]
      by (auto simp: go smee_Run_def)
    ultimately show ?thesis using l Inr by simp
  qed
qed

theorem main_exit_code_witness:
  "\<exists>w'. main_go (sim_env (sim_github [])) sim_net example_host default_flags True three_conns = Some (0, w')"
proof -
  let ?m = "main_go (sim_env (sim_github [])) sim_net example_host default_flags True three_conns"
  obtain c where c: "Load example_host (fl_config default_flags) = (Inr c, False)"
    using example_Load by blast
  note t = main_exit_code[where E = "sim_env (sim_github [])" and N = sim_net and H = example_host
    and f = default_flags and drained = True and w = three_conns and left = "\<lambda>(sp, w). length (sm_conns w)"]
  from t sim_smee.canceled_in_time_axioms have "?m \<noteq> None" by blast
  then obtain code w' where m: "?m = Some (code, w')" by auto
  with t c have "code = 0" by simp
  with m show ?thesis by blast
qed

end
