(* ===== verification/Cleanup_Props.thy ===== *)
theory Cleanup_Props
  imports Cleanup Spawner_Props "HOL-Library.Sublist" "HOL-Library.Multiset"
begin

text \<open>
  The properties of the cleaner: what a tick counts, which containers it removes and which
  it leaves, which runs it cancels, that it does not crash, and how old a container is. The
  removals are observed through \<open>removal_log\<close>, a contract on the environment: a part of
  the world that records the \<open>docker rm -f\<close> commands and nothing else.
\<close>

section \<open>Accounting\<close>

text \<open>What a step may change of the cleaner: the lifetime totals, by the given amounts.\<close>

definition totals_up :: "int \<Rightarrow> int \<Rightarrow> int \<Rightarrow> cleaner \<Rightarrow> cleaner \<Rightarrow> bool" where
  "totals_up deleted cancelled reaped c c' \<longleftrightarrow>
     c' = c\<lparr>totalGhostsDeleted := totalGhostsDeleted c + of_int deleted,
            totalRunsCancelled := totalRunsCancelled c + of_int cancelled,
            totalLocalGhostsReaped := totalLocalGhostsReaped c + of_int reaped\<rparr>"

lemma totals_up_refl [simp]: "totals_up 0 0 0 c c"
  by (simp add: totals_up_def)

lemma totals_up_trans:
  "totals_up d k r c c1 \<Longrightarrow> totals_up d' k' r' c1 c2 \<Longrightarrow> totals_up (d + d') (k + k') (r + r') c c2"
  by (simp add: totals_up_def add.assoc)

lemma totals_up_step:
  "totals_up 1 0 0 c (c\<lparr>totalGhostsDeleted := totalGhostsDeleted c + 1\<rparr>)"
  "totals_up 0 1 0 c (c\<lparr>totalRunsCancelled := totalRunsCancelled c + 1\<rparr>)"
  "totals_up 0 0 1 c (c\<lparr>totalLocalGhostsReaped := totalLocalGhostsReaped c + 1\<rparr>)"
  by (simp_all add: totals_up_def)

lemma cancel_all_counts:
  "cancel_all E sp repo ids r c w = Some (r', c', w') \<Longrightarrow>
     \<exists>k. 0 \<le> k \<and> k \<le> int (length ids) \<and> r' = r\<lparr>rr_cancelled := rr_cancelled r + k\<rparr> \<and> totals_up 0 k 0 c c'"
proof (induction ids arbitrary: r c w)
  case Nil
  then show ?case by (intro exI[where x = 0]) simp
next
  case (Cons i ids)
  obtain b w1 where f: "forceCancelRun E sp repo i w = Some (b, w1)"
    using Cons.prems by (cases "forceCancelRun E sp repo i w") auto
  show ?case
  proof (cases b)
    case True
    with Cons.prems f obtain k where k: "0 \<le> k" "k \<le> int (length ids)"
      "r' = (r\<lparr>rr_cancelled := rr_cancelled r + 1\<rparr>)\<lparr>rr_cancelled := rr_cancelled r + 1 + k\<rparr>"
      "totals_up 0 k 0 (c\<lparr>totalRunsCancelled := totalRunsCancelled c + 1\<rparr>) c'"
      using Cons.IH[of "r\<lparr>rr_cancelled := rr_cancelled r + 1\<rparr>" "c\<lparr>totalRunsCancelled := totalRunsCancelled c + 1\<rparr>" w1]
      by auto
    from totals_up_trans[OF totals_up_step(2) k(4)] k(1-3) show ?thesis
      by (intro exI[where x = "1 + k"]) (simp add: add.assoc)
  next
    case False
    with Cons.prems f obtain k where "0 \<le> k" "k \<le> int (length ids)"
      "r' = r\<lparr>rr_cancelled := rr_cancelled r + k\<rparr>" "totals_up 0 k 0 c c'"
      using Cons.IH[of r c w1] by auto
    then show ?thesis by (intro exI[where x = k]) simp
  qed
qed

lemma delete_all_counts:
  "delete_all E sp repo gs r c w = Some (r', c', w') \<Longrightarrow>
     \<exists>d. 0 \<le> d \<and> d \<le> int (length gs) \<and> totals_up d 0 0 c c' \<and>
       r' = r\<lparr>rr_deleted := rr_deleted r + d, rr_stillStuck := rr_stillStuck r + (int (length gs) - d)\<rparr>"
proof (induction gs arbitrary: r c w)
  case Nil
  then show ?case by (intro exI[where x = 0]) simp
next
  case (Cons g gs)
  obtain b w1 where f: "deleteRunner E sp repo (gh_id g) w = Some (b, w1)"
    using Cons.prems by (cases "deleteRunner E sp repo (gh_id g) w") auto
  show ?case
  proof (cases b)
    case True
    with Cons.prems f obtain d where d: "0 \<le> d" "d \<le> int (length gs)"
      "totals_up d 0 0 (c\<lparr>totalGhostsDeleted := totalGhostsDeleted c + 1\<rparr>) c'"
      "r' = r\<lparr>rr_deleted := rr_deleted r + 1 + d, rr_stillStuck := rr_stillStuck r + (int (length gs) - d)\<rparr>"
      using Cons.IH[of "r\<lparr>rr_deleted := rr_deleted r + 1\<rparr>" "c\<lparr>totalGhostsDeleted := totalGhostsDeleted c + 1\<rparr>" w1]
      by auto
    from totals_up_trans[OF totals_up_step(1) d(3)] d(1,2,4) show ?thesis
      by (intro exI[where x = "1 + d"]) (simp add: add.assoc)
  next
    case False
    with Cons.prems f obtain d where "0 \<le> d" "d \<le> int (length gs)" "totals_up d 0 0 c c'"
      "r' = r\<lparr>rr_deleted := rr_deleted r + d, rr_stillStuck := rr_stillStuck r + 1 + (int (length gs) - d)\<rparr>"
      using Cons.IH[of "r\<lparr>rr_stillStuck := rr_stillStuck r + 1\<rparr>" c w1] by auto
    then show ?thesis by (intro exI[where x = d]) (simp add: algebra_simps)
  qed
qed

text \<open>One repo: the numbers add up and are what the totals grow by.\<close>

definition balanced :: "repoResult \<Rightarrow> bool" where
  "balanced r \<longleftrightarrow> rr_found r = rr_deleted r + rr_stillStuck r
     \<and> 0 \<le> rr_deleted r \<and> 0 \<le> rr_stillStuck r \<and> 0 \<le> rr_cancelled r"

lemma cleanupRepo_counts:
  assumes "cleanupRepo E rng sp repo c w = Some (x, c', w')"
  shows "case x of Inl e \<Rightarrow> c' = c
    | Inr r \<Rightarrow> balanced r \<and> totals_up (rr_deleted r) (rr_cancelled r) 0 c c'"
  using assms
proof (cases rule: cleanupRepo_cases)
  case (ghosts gs w1 z w2 r1 c1 w3 r2)
  let ?r = "zero_result\<lparr>rr_found := int (length gs)\<rparr>"
  obtain d where d: "0 \<le> d" "d \<le> int (length gs)" "totals_up d 0 0 c1 c'"
    "r2 = r1\<lparr>rr_deleted := rr_deleted r1 + d, rr_stillStuck := rr_stillStuck r1 + (int (length gs) - d)\<rparr>"
    using delete_all_counts[OF ghosts(5)] by (elim exE conjE)
  have "\<exists>k. 0 \<le> k \<and> r1 = ?r\<lparr>rr_cancelled := k\<rparr> \<and> totals_up 0 k 0 c c1"
  proof (cases z)
    case (Inl e)
    with ghosts(4) show ?thesis by (intro exI[where x = 0]) (simp add: zero_result_def)
  next
    case (Inr ids)
    with ghosts(4) have "cancel_all E sp repo ids ?r c w2 = Some (r1, c1, w3)" by simp
    from cancel_all_counts[OF this] show ?thesis by (auto simp: zero_result_def)
  qed
  then obtain k where k: "0 \<le> k" "r1 = ?r\<lparr>rr_cancelled := k\<rparr>" "totals_up 0 k 0 c c1" by (elim exE conjE)
  from totals_up_trans[OF k(3) d(3)] d(1,2,4) k(1,2) ghosts(6) show ?thesis
    by (simp add: balanced_def zero_result_def)
qed (simp_all add: zero_result_def balanced_def)

lemma cleanup_all_counts:
  "cleanup_all E rng sp repos su c w = Some (su', c', w') \<Longrightarrow>
     \<exists>r. balanced r \<and> su' = add_result r su \<and> totals_up (rr_deleted r) (rr_cancelled r) 0 c c'"
proof (induction repos arbitrary: su c w)
  case Nil
  then show ?case
    by (intro exI[where x = zero_result]) (simp add: zero_result_def balanced_def add_result_def)
next
  case (Cons repo repos)
  obtain x c1 w1 where s: "cleanupRepo E rng sp repo c w = Some (x, c1, w1)"
    using Cons.prems by (cases "cleanupRepo E rng sp repo c w") auto
  note k = cleanupRepo_counts[OF s]
  show ?case
  proof (cases x)
    case (Inl e)
    with Cons.prems s k Cons.IH[of su c "slog E LevelWarn ''cleanup repo failed'' w1"] show ?thesis by simp
  next
    case (Inr r1)
    with Cons.prems s Cons.IH[of "add_result r1 su" c1 w1] obtain r where
      r: "balanced r" "su' = add_result r (add_result r1 su)" "totals_up (rr_deleted r) (rr_cancelled r) 0 c1 c'"
      by auto
    from Inr k have b: "balanced r1" "totals_up (rr_deleted r1) (rr_cancelled r1) 0 c c1" by simp_all
    from totals_up_trans[OF b(2) r(3)] b(1) r(1,2) show ?thesis
      by (intro exI[where x = "\<lparr>rr_found = rr_found r1 + rr_found r, rr_cancelled = rr_cancelled r1 + rr_cancelled r,
            rr_deleted = rr_deleted r1 + rr_deleted r, rr_stillStuck = rr_stillStuck r1 + rr_stillStuck r\<rparr>"])
         (simp add: balanced_def add_result_def add.assoc)
  qed
qed

lemma remove_container_counts:
  "remove_container E why i c w = (b, c', w') \<Longrightarrow> totals_up 0 0 (if b then 1 else 0) c c'"
  using totals_up_step(3)[of c]
  by (auto simp: remove_container_def split: prod.splits option.splits)

lemma reap_one_counts:
  "reap_one E reg grace lc c w = (b, c', w') \<Longrightarrow> totals_up 0 0 (if b then 1 else 0) c c'"
  by (auto simp: reap_one_def dest: remove_container_counts
      split: if_splits option.splits prod.splits sum.splits)

lemma reap_all_counts:
  "reap_all E reg grace lcs n c w = (m, c', w') \<Longrightarrow>
     \<exists>k. 0 \<le> k \<and> k \<le> int (length lcs) \<and> m = n + k \<and> totals_up 0 0 k c c'"
proof (induction lcs arbitrary: n c w)
  case Nil
  then show ?case by (intro exI[where x = 0]) simp
next
  case (Cons lc lcs)
  obtain b c1 w1 where s: "reap_one E reg grace lc c w = (b, c1, w1)" by (metis prod.exhaust)
  with Cons.prems Cons.IH[of "if b then n + 1 else n" c1 w1] obtain k where
    k: "0 \<le> k" "k \<le> int (length lcs)" "m = (if b then n + 1 else n) + k" "totals_up 0 0 k c1 c'" by auto
  from totals_up_trans[OF reap_one_counts[OF s] k(4)] k(1-3) show ?case
    by (intro exI[where x = "(if b then 1 else 0) + k"]) auto
qed

lemma reapLocalGhosts_counts:
  assumes "reapLocalGhosts E sp c w = (n, c', w')"
  shows "0 \<le> n \<and> totals_up 0 0 n c c'"
proof -
  obtain y w1 where l: "listManagedContainers E w = (y, w1)" by fastforce
  show ?thesis
  proof (cases y)
    case (Inr locals)
    obtain reg w2 where g: "registered_names E sp (cfg_Repos (cn_cfg c)) Map.empty w1 = (reg, w2)" by fastforce
    show ?thesis
    proof (cases "locals = []")
      case False
      with assms l Inr g have "reap_all E reg (grace_of c) locals 0 c w2 = (n, c', w')"
        by (simp add: reapLocalGhosts_def)
      from reap_all_counts[OF this] show ?thesis by auto
    qed (use assms l Inr in \<open>auto simp: reapLocalGhosts_def\<close>)
  qed (use assms l in \<open>auto simp: reapLocalGhosts_def\<close>)
qed

text \<open>
  Claim C14. The summary of a tick balances: every ghost found in a repo that could be listed
  is either deleted or still stuck, no number is negative, the lifetime totals grow by
  exactly what the tick counts (modulo 2 to the 64) and are what the summary reports,
  \<open>LastSummary\<close> answers the same summary afterwards, and the configuration and the grace
  stay.
\<close>

theorem tick_balances:
  assumes "tickWithSummary E rng order sp c w = Some (su, c', w')"
  shows "su_Repos su = int (length (cfg_Repos (cn_cfg c)))
    \<and> su_GhostsFound su = su_GhostsDeleted su + su_GhostsStillStuck su
    \<and> 0 \<le> su_GhostsDeleted su \<and> 0 \<le> su_GhostsStillStuck su \<and> 0 \<le> su_RunsCancelled su
    \<and> 0 \<le> su_LocalGhostsReaped su
    \<and> totalGhostsDeleted c' = totalGhostsDeleted c + of_int (su_GhostsDeleted su)
    \<and> totalRunsCancelled c' = totalRunsCancelled c + of_int (su_RunsCancelled su)
    \<and> totalLocalGhostsReaped c' = totalLocalGhostsReaped c + of_int (su_LocalGhostsReaped su)
    \<and> LastSummary c' = su \<and> cn_cfg c' = cn_cfg c \<and> cn_localGrace c' = cn_localGrace c"
proof -
  let ?su0 = "zero_Summary\<lparr>su_Repos := int (length (cfg_Repos (cn_cfg c)))\<rparr>"
  obtain su1 c1 w1 where a: "cleanup_all E rng sp (order (cfg_Repos (cn_cfg c))) ?su0 c w = Some (su1, c1, w1)"
    using assms by (cases "cleanup_all E rng sp (order (cfg_Repos (cn_cfg c))) ?su0 c w")
      (auto simp: tickWithSummary_def finish_tick_def)
  obtain n c2 w2 where p: "reapLocalGhosts E sp c1 w1 = (n, c2, w2)" by (metis prod.exhaust)
  obtain r where r: "balanced r" "su1 = add_result r ?su0" "totals_up (rr_deleted r) (rr_cancelled r) 0 c c1"
    using cleanup_all_counts[OF a] by (elim exE conjE)
  from reapLocalGhosts_counts[OF p] have n: "0 \<le> n" "totals_up 0 0 n c1 c2" by simp_all
  have t: "totals_up (rr_deleted r) (rr_cancelled r) n c c2" using totals_up_trans[OF r(3) n(2)] by simp
  have su: "su = su1\<lparr>su_LocalGhostsReaped := n, su_TotalGhostsDeleted := totalGhostsDeleted c2,
      su_TotalRunsCancelled := totalRunsCancelled c2, su_TotalLocalGhostsReaped := totalLocalGhostsReaped c2\<rparr>"
    and c': "c' = c2\<lparr>cn_lastSummary := su\<rparr>"
    using assms a p by (auto simp: tickWithSummary_def finish_tick_def Let_def)
  show ?thesis using r(1,2) n(1) t
    by (simp add: c' su add_result_def balanced_def totals_up_def LastSummary_def zero_Summary_def)
qed

section \<open>What is removed\<close>

definition rm_target :: "string list \<Rightarrow> string list" where
  "rm_target args = (if take 2 args = [''rm'', ''-f''] then drop 2 args else [])"

lemma rm_target_simps [simp]:
  "rm_target (rm_args i) = [i]" "rm_target ps_all_args = []" "rm_target (inspect_args ids) = []"
  "rm_target (created_args i) = []"
  by (simp_all add: rm_target_def rm_args_def ps_all_args_def inspect_args_def created_args_def)

locale removal_log =
  fixes E :: "'w env" and rms :: "'w \<Rightarrow> string list"
  assumes exec_log: "docker_Exec E args w = (r, w') \<Longrightarrow> rms w' = rms w @ rm_target args"
    and http_log: "http_Do E rq w = (rs, w') \<Longrightarrow> rms w' = rms w"
    and now_log: "time_Now E w = (t, w') \<Longrightarrow> rms w' = rms w"
    and slog_log [simp]: "rms (slog E lv msg w) = rms w"
begin

lemma output_log: "dockerOutput E args w = (r, w') \<Longrightarrow> rms w' = rms w @ rm_target args"
  by (auto simp: dockerOutput_def dest: exec_log split: prod.splits option.splits)

lemma list_log: "listManagedContainers E w = (r, w') \<Longrightarrow> rms w' = rms w"
  by (auto simp: listManagedContainers_def Let_def dest!: output_log split: prod.splits sum.splits if_splits)

lemma names_log: "listAllRunnerNames E sp repo w = (r, w') \<Longrightarrow> rms w' = rms w"
  by (auto simp: listAllRunnerNames_def cn_apiGET_def api_get_with_def dest!: http_log
      split: prod.splits sum.splits option.splits if_splits)

lemma registered_log: "registered_names E sp repos reg w = (reg', w') \<Longrightarrow> rms w' = rms w"
proof (induction repos arbitrary: reg w)
  case (Cons repo repos)
  obtain a w1 where a: "listAllRunnerNames E sp repo w = (a, w1)" by fastforce
  from Cons.prems a have "rms w' = rms w1" by (cases a) (auto dest: Cons.IH)
  with names_log[OF a] show ?case by simp
qed simp

lemma age_log: "containerAge E i w = (r, w') \<Longrightarrow> rms w' = rms w"
  by (auto simp: containerAge_def dest!: output_log now_log split: prod.splits sum.splits option.splits)

text \<open>The condition under which one container is removed.\<close>

definition doomed :: "(string \<rightharpoonup> string set) \<Rightarrow> int \<Rightarrow> localContainer \<Rightarrow> bool" where
  "doomed reg grace lc \<longleftrightarrow> lc_state lc \<notin> {[], ''running''}
     \<or> (\<exists>S. reg (lc_repo lc) = Some S \<and> lc_name lc \<notin> S
          \<and> (\<exists>wa age wb. containerAge E (lc_id lc) wa = (Inr age, wb) \<and> grace \<le> age))"

lemma remove_log: "remove_container E why i c w = (b, c', w') \<Longrightarrow> rms w' = rms w @ [i]"
  by (auto simp: remove_container_def dockerRun_def dest!: output_log
      split: prod.splits sum.splits option.splits)

lemma reap_one_log:
  assumes "reap_one E reg grace lc c w = (b, c', w')"
  shows "rms w' = rms w @ (if b then [lc_id lc] else []) \<and> (b \<longrightarrow> doomed reg grace lc)
    \<or> \<not> b \<and> rms w' = rms w @ [lc_id lc] \<and> doomed reg grace lc"
proof (cases "lc_state lc \<notin> {[], ''running''}")
  case True
  with assms remove_log show ?thesis by (auto simp: reap_one_def doomed_def split: if_splits)
next
  case alive: False
  show ?thesis
  proof (cases "reg (lc_repo lc)")
    case None
    with assms alive show ?thesis by (auto simp: reap_one_def)
  next
    case (Some S)
    show ?thesis
    proof (cases "lc_name lc \<in> S")
      case True
      with assms alive Some show ?thesis by (auto simp: reap_one_def)
    next
      case out: False
      obtain y w1 where y: "containerAge E (lc_id lc) w = (y, w1)" by fastforce
      note yl = age_log[OF y]
      show ?thesis
      proof (cases y)
        case (Inl e)
        with assms alive Some out y yl show ?thesis by (auto simp: reap_one_def)
      next
        case (Inr age)
        show ?thesis
        proof (cases "age < grace")
          case True
          with assms alive Some out y yl Inr show ?thesis by (auto simp: reap_one_def)
        next
          case False
          with assms alive Some out y Inr
          have r: "remove_container E ''reaping unregistered running container'' (lc_id lc) c w1 = (b, c', w')"
            by (auto simp: reap_one_def)
          from False have "grace \<le> age" by simp
          with Some out y Inr have "doomed reg grace lc" unfolding doomed_def by blast
          with remove_log[OF r] yl show ?thesis by auto
        qed
      qed
    qed
  qed
qed

lemma reap_all_log:
  "reap_all E reg grace lcs n c w = (m, c', w') \<Longrightarrow>
     \<exists>xs. rms w' = rms w @ map lc_id xs \<and> subseq xs lcs \<and> list_all (doomed reg grace) xs
       \<and> m \<le> n + int (length xs)"
proof (induction lcs arbitrary: n c w)
  case Nil
  then show ?case by (intro exI[where x = "[]"]) simp
next
  case (Cons lc lcs)
  obtain b c1 w1 where s: "reap_one E reg grace lc c w = (b, c1, w1)" by (metis prod.exhaust)
  with Cons.prems Cons.IH[of "if b then n + 1 else n" c1 w1] obtain xs where
    xs: "rms w' = rms w1 @ map lc_id xs" "subseq xs lcs" "list_all (doomed reg grace) xs"
      "m \<le> (if b then n + 1 else n) + int (length xs)" by auto
  show ?case
  proof (cases "rms w1 = rms w")
    case True
    with reap_one_log[OF s] have "\<not> b" by auto
    with True xs show ?thesis by (intro exI[where x = xs]) auto
  next
    case False
    with reap_one_log[OF s] have "rms w1 = rms w @ [lc_id lc]" "doomed reg grace lc"
      by (auto split: if_splits)
    with xs show ?thesis by (intro exI[where x = "lc # xs"]) (auto split: if_splits)
  qed
qed

end

lemma registered_names_from:
  "registered_names E sp repos reg w = (reg', w') \<Longrightarrow> reg' n = Some S \<Longrightarrow>
     reg n = Some S \<or> (\<exists>repo \<in> set repos. rc_Name repo = n \<and>
       (\<exists>wa names wb. listAllRunnerNames E sp repo wa = (Inr names, wb) \<and> S = set names))"
proof (induction repos arbitrary: reg w)
  case (Cons repo repos)
  obtain a w1 where a: "listAllRunnerNames E sp repo w = (a, w1)" by fastforce
  show ?case
  proof (cases a)
    case (Inl e)
    with Cons.prems a
    have "registered_names E sp repos reg
        (slog E LevelWarn ''local reap: list runners failed; skipping repo to avoid false positives'' w1) = (reg', w')"
      by simp
    from Cons.IH[OF this Cons.prems(2)] show ?thesis by auto
  next
    case (Inr names)
    with Cons.prems a have "registered_names E sp repos (reg(rc_Name repo \<mapsto> set names)) w1 = (reg', w')" by simp
    from Cons.IH[OF this Cons.prems(2)] a Inr show ?thesis by (auto split: if_splits)
  qed
qed simp

text \<open>The commands the simulated daemon received.\<close>

definition sim_rms :: "sim \<Rightarrow> string list" where
  "sim_rms s = concat (map rm_target (sm_argv s))"

lemma sim_exec_argv: "sim_exec args s = (r, s') \<Longrightarrow> sm_argv s' = sm_argv s @ [args]"
  by (auto simp: sim_exec_def sim_run_def Let_def split: if_splits list.splits option.splits)

interpretation sim_rms: removal_log "sim_env g" sim_rms
  by unfold_locales (auto simp: sim_rms_def dest: sim_exec_argv)

text \<open>
  Claim C5. \<open>reapLocalGhosts\<close> asks docker to remove a container only if its state is known
  and not running, or if a configured repo of its label was listed by GitHub without a
  runner of its name and the container is at least as old as the grace. Nothing else is
  removed: not a container of an unknown repo or of one whose runners could not be listed,
  and never one twice beyond its lines in the listing.
\<close>

theorem reap_spares:
  assumes "removal_log E rms" "reapLocalGhosts E sp c w = (n, c', w')" "0 < cn_localGrace c"
  shows "\<exists>xs. rms w' = rms w @ map lc_id xs \<and> n \<le> int (length xs)
    \<and> (xs = [] \<or> (\<exists>locals w1. listManagedContainers E w = (Inr locals, w1) \<and> subseq xs locals))
    \<and> (\<forall>lc \<in> set xs. lc_state lc \<notin> {[], ''running''}
        \<or> (\<exists>repo \<in> set (cfg_Repos (cn_cfg c)). rc_Name repo = lc_repo lc
            \<and> (\<exists>wa names wb. listAllRunnerNames E sp repo wa = (Inr names, wb) \<and> lc_name lc \<notin> set names)
            \<and> (\<exists>wa age wb. containerAge E (lc_id lc) wa = (Inr age, wb) \<and> cn_localGrace c \<le> age)))"
proof -
  obtain y w1 where l: "listManagedContainers E w = (y, w1)" by fastforce
  note ll = removal_log.list_log[OF assms(1) l]
  show ?thesis
  proof (cases y)
    case (Inl e)
    with assms(2) l ll show ?thesis
      by (intro exI[where x = "[]"]) (auto simp: reapLocalGhosts_def removal_log.slog_log[OF assms(1)])
  next
    case (Inr locals)
    show ?thesis
    proof (cases "locals = []")
      case True
      with assms(2) l ll Inr show ?thesis by (intro exI[where x = "[]"]) (auto simp: reapLocalGhosts_def)
    next
      case False
      obtain reg w2 where g: "registered_names E sp (cfg_Repos (cn_cfg c)) Map.empty w1 = (reg, w2)" by fastforce
      from False assms(2) l Inr g have "reap_all E reg (grace_of c) locals 0 c w2 = (n, c', w')"
        by (simp add: reapLocalGhosts_def)
      from removal_log.reap_all_log[OF assms(1) this] obtain xs where
        xs: "rms w' = rms w2 @ map lc_id xs" "subseq xs locals"
          "list_all (removal_log.doomed E reg (grace_of c)) xs" "n \<le> int (length xs)" by auto
      have gr: "grace_of c = cn_localGrace c" using assms(3) by (simp add: grace_of_def)
      have "lc_state lc \<notin> {[], ''running''} \<or> (\<exists>repo \<in> set (cfg_Repos (cn_cfg c)). rc_Name repo = lc_repo lc
            \<and> (\<exists>wa names wb. listAllRunnerNames E sp repo wa = (Inr names, wb) \<and> lc_name lc \<notin> set names)
            \<and> (\<exists>wa age wb. containerAge E (lc_id lc) wa = (Inr age, wb) \<and> cn_localGrace c \<le> age))"
        if lc: "lc \<in> set xs" for lc
      proof -
        from xs(3) lc have "removal_log.doomed E reg (cn_localGrace c) lc" by (auto simp: list_all_iff gr)
        then show ?thesis unfolding removal_log.doomed_def[OF assms(1)]
          using registered_names_from[OF g, of "lc_repo lc"] by fastforce
      qed
      with xs l Inr ll removal_log.registered_log[OF assms(1) g] show ?thesis
        by (intro exI[where x = xs]) auto
    qed
  qed
qed

text \<open>One managed container, running, and GitHub listing the runner of its name.\<close>

definition one_runner :: json where
  "one_runner = JObj [(''runners'', JArr [web_runner ''auto-pool-a-1'' ''online'' True ''pool-a''])]"

lemma one_runner_plain: "plain_json one_runner" "json_depth one_runner \<le> json_max_depth"
  by (simp_all add: one_runner_def web_runner_def plain_char_def plain_num_def is_digit_def json_max_depth_def)

lemma one_runner_names: "json_Decode dec_names (json_text one_runner) [] = ([''auto-pool-a-1''], None)"
  by (simp add: json_Decode_text[OF one_runner_plain])
     (simp add: one_runner_def web_runner_def dec_names_def lookup_field_def upper_byte_def)

lemma one_runner_list:
  "fst (listAllRunnerNames (sim_env (sim_github (runners_table one_runner))) web_spawner web_repo w)
     = Inr [''auto-pool-a-1'']"
  using web_url
  by (simp add: listAllRunnerNames_def cn_apiGET_def api_get_with_def http_NewRequest_def runners_url_def
      defaultAPIBase_def sim_github_def runners_table_def one_runner_names)

lemma web_ps_all: "sim_exec ps_all_args (sim_start [web_container]) =
    ((''c0|auto-pool-a-1|acme/web'' @ [CHR 0x0A], [], None), (sim_start [web_container])\<lparr>sm_argv := [ps_all_args]\<rparr>)"
  by (simp add: sim_exec_def Let_def ps_all_args_def sim_ps_def
    sim_lines_def render_container_def template_def web_container_def sim_id_def show_nat_digit passes_def
    TrimPrefix_def HasPrefix_def managedLabel_def repoLabelKey_def)

lemma web_lines: "List.map_filter parse_local (Split CHR 0x0A (TrimSpace (''c0|auto-pool-a-1|acme/web'' @ [CHR 0x0A]))) =
    [\<lparr>lc_id = ''c0'', lc_name = ''auto-pool-a-1'', lc_repo = ''acme/web'', lc_state = []\<rparr>]"
proof -
  have "word_token ''c0|auto-pool-a-1|acme/web''" by (simp add: word_token_def graphic_def)
  then have "TrimSpace (''c0|auto-pool-a-1|acme/web'' @ [CHR 0x0A]) = ''c0|auto-pool-a-1|acme/web''"
    by (intro TrimSpace_line) (simp_all add: word_token_def)
  then show ?thesis by (simp add: parse_local_def numeral_3_eq_3 List.map_filter_simps)
qed

lemma web_inspect: "\<exists>s1. sim_exec (inspect_args [''c0'']) ((sim_start [web_container])\<lparr>sm_argv := [ps_all_args]\<rparr>) =
    ((''running'' @ [CHR 0x0A], [], None), s1)"
  by (simp add: sim_exec_def Let_def inspect_args_def sim_inspect_def sim_lines_def web_container_def sim_id_def show_nat_digit)

lemma web_locals:
  "\<exists>w1. listManagedContainers (sim_env g) (sim_start [web_container]) =
     (Inr [\<lparr>lc_id = ''c0'', lc_name = ''auto-pool-a-1'', lc_repo = ''acme/web'', lc_state = ''running''\<rparr>], w1)"
proof -
  have "TrimSpace (''running'' @ [CHR 0x0A]) = ''running''"
    by (intro TrimSpace_line) (simp_all add: word_token_def graphic_def)
  moreover have "TrimSpace ''running'' = ''running''" by (simp add: word_token_def graphic_def)
  ultimately show ?thesis using web_inspect
    by (auto simp: listManagedContainers_def dockerOutput_def web_ps_all web_lines Let_def with_states_def
      simp del: append.simps)
qed

theorem reap_spares_witness:
  "\<exists>n c' w'. reapLocalGhosts (sim_env (sim_github (runners_table one_runner))) web_spawner
       (cn_New web_config) (sim_start [web_container]) = (n, c', w') \<and> sim_rms w' = []"
proof -
  let ?E = "sim_env (sim_github (runners_table one_runner))"
  obtain n c' w' where r: "reapLocalGhosts ?E web_spawner (cn_New web_config) (sim_start [web_container]) = (n, c', w')"
    by (metis prod.exhaust)
  have cfg: "cfg_Repos (cn_cfg (cn_New web_config)) = [web_repo]" by (simp add: cn_New_def web_config_def)
  have "0 < cn_localGrace (cn_New web_config)" by (simp add: cn_New_def defaultLocalGrace_def)
  from reap_spares[OF sim_rms.removal_log_axioms r this] obtain xs where
    xs: "sim_rms w' = sim_rms (sim_start [web_container]) @ map lc_id xs"
    and l: "xs = [] \<or> (\<exists>locals w1. listManagedContainers ?E (sim_start [web_container]) = (Inr locals, w1)
      \<and> subseq xs locals)"
    and d: "\<forall>lc \<in> set xs. lc_state lc \<notin> {[], ''running''}
        \<or> (\<exists>repo \<in> set (cfg_Repos (cn_cfg (cn_New web_config))). rc_Name repo = lc_repo lc
            \<and> (\<exists>wa names wb. listAllRunnerNames ?E web_spawner repo wa = (Inr names, wb) \<and> lc_name lc \<notin> set names)
            \<and> (\<exists>wa age wb. containerAge ?E (lc_id lc) wa = (Inr age, wb) \<and> cn_localGrace (cn_New web_config) \<le> age))"
    by (elim exE conjE) (rule that)
  let ?lc = "\<lparr>lc_id = ''c0'', lc_name = ''auto-pool-a-1'', lc_repo = ''acme/web'', lc_state = ''running''\<rparr>"
  obtain w1 where w1: "listManagedContainers ?E (sim_start [web_container]) = (Inr [?lc], w1)"
    using web_locals by blast
  have "lc = ?lc" if "lc \<in> set xs" for lc
  proof -
    from l w1 that have "subseq xs [?lc]" by fastforce
    from list_emb_set[OF this that] show ?thesis by auto
  qed
  moreover have "?lc \<notin> set xs"
  proof
    assume "?lc \<in> set xs"
    with d cfg obtain wa names wb where "listAllRunnerNames ?E web_spawner web_repo wa = (Inr names, wb)"
      "''auto-pool-a-1'' \<notin> set names" by fastforce
    with one_runner_list[of wa] show False by simp
  qed
  ultimately have "xs = []" by (metis list.set_intros(1) neq_Nil_conv)
  with xs r show ?thesis by (simp add: sim_rms_def)
qed

section \<open>No crash\<close>

lemma url_tail_append [simp]: "url_tail (x @ y) = (url_tail x \<and> url_tail y)"
  by (simp add: url_tail_def)

lemma digit_url_char: "is_digit c \<Longrightarrow> url_tail [c]"
  by (auto simp: url_tail_def is_digit_def)

lemma url_tail_show_int [simp]: "url_tail (show_int i)"
proof -
  have n: "url_tail (show_nat k)" for k
    using digit_url_char show_nat_digits[of _ k] by (auto simp: url_tail_def list_all_iff)
  have "url_tail ''-''" by (simp add: url_tail_def)
  with n n[of "nat (- i)"] show ?thesis unfolding show_int_def
    by (auto simp: url_tail_def)
qed

text \<open>Every API URL of a repo parses if one does.\<close>

lemma repo_urls_parse:
  assumes "url_Parse (defaultAPIBase @ ''/repos/'' @ repo @ ''/actions'' @ x) \<noteq> None" "url_tail x" "url_tail y"
  shows "url_Parse (defaultAPIBase @ ''/repos/'' @ repo @ ''/actions'' @ y) \<noteq> None"
proof -
  have "defaultAPIBase @ ''/repos/'' @ repo @ ''/actions'' @ z =
      ''https://api.github.com/'' @ (''repos/'' @ repo) @ ''/a'' @ (''ctions'' @ z)" for z
    by (simp add: defaultAPIBase_def)
  moreover have "url_tail (''ctions'' @ z)" if "url_tail z" for z
    using that by (simp add: url_tail_def)
  ultimately show ?thesis using assms api_url_same by metis
qed

text \<open>The URLs of a repo that the cleaner sends requests to.\<close>

definition urls_parse :: "RepoConfig \<Rightarrow> bool" where
  "urls_parse repo \<longleftrightarrow>
     (\<forall>y. url_tail y \<longrightarrow> url_Parse (defaultAPIBase @ ''/repos/'' @ rc_Name repo @ ''/actions'' @ y) \<noteq> None)"

lemma listGhostRunners_url:
  assumes "sp_apiBase sp = defaultAPIBase" "listGhostRunners E sp repo w = (Inr gs, w')"
  shows "urls_parse repo"
proof -
  have "url_Parse (runners_url defaultAPIBase (rc_Name repo)) \<noteq> None"
    using assms(1,2) by (auto simp: listGhostRunners_def cn_apiGET_def api_get_with_def http_NewRequest_def
        split: prod.splits if_splits)
  then have "url_Parse (defaultAPIBase @ ''/repos/'' @ rc_Name repo @ ''/actions'' @ ''/runners?per_page=100'') \<noteq> None"
    by (simp add: runners_url_def)
  from repo_urls_parse[OF this] show ?thesis by (simp add: url_tail_def urls_parse_def)
qed

lemma cn_send_total: "url_Parse u \<noteq> None \<Longrightarrow> \<exists>b w'. cn_send E sp m u ok w = Some (b, w')"
  by (auto simp: cn_send_def http_NewRequest_def split: prod.splits sum.splits)

lemma sends_total:
  assumes "sp_apiBase sp = defaultAPIBase" "urls_parse repo"
  shows "\<exists>b w'. forceCancelRun E sp repo i w = Some (b, w')" "\<exists>b w'. deleteRunner E sp repo i w = Some (b, w')"
proof -
  have u: "url_Parse (defaultAPIBase @ ''/repos/'' @ rc_Name repo @ ''/actions'' @ y) \<noteq> None" if "url_tail y" for y
    using assms(2) that by (simp add: urls_parse_def)
  show "\<exists>b w'. forceCancelRun E sp repo i w = Some (b, w')"
    unfolding forceCancelRun_def using u[of "''/runs/'' @ show_int i @ ''/force-cancel''"]
    by (intro cn_send_total) (simp add: force_cancel_url_def assms url_tail_def url_tail_show_int[unfolded url_tail_def])
  show "\<exists>b w'. deleteRunner E sp repo i w = Some (b, w')"
    unfolding deleteRunner_def using u[of "''/runners/'' @ show_int i"]
    by (intro cn_send_total) (simp add: delete_url_def assms url_tail_def url_tail_show_int[unfolded url_tail_def])
qed

lemma cancel_all_total:
  assumes "\<And>i w. \<exists>b w'. forceCancelRun E sp repo i w = Some (b, w')"
  shows "\<exists>x. cancel_all E sp repo ids r c w = Some x"
proof (induction ids arbitrary: r c w)
  case (Cons i ids)
  obtain b w' where "forceCancelRun E sp repo i w = Some (b, w')" using assms by blast
  with Cons show ?case by (cases b) auto
qed simp

lemma delete_all_total:
  assumes "\<And>i w. \<exists>b w'. deleteRunner E sp repo i w = Some (b, w')"
  shows "\<exists>x. delete_all E sp repo gs r c w = Some x"
proof (induction gs arbitrary: r c w)
  case (Cons g gs)
  obtain b w' where "deleteRunner E sp repo (gh_id g) w = Some (b, w')" using assms by blast
  with Cons show ?case by (cases b) auto
qed simp

lemma cleanupRepo_total:
  assumes "sp_apiBase sp = defaultAPIBase"
  shows "\<exists>x c' w'. cleanupRepo E rng sp repo c w = Some (x, c', w')"
proof -
  obtain y w1 where l: "listGhostRunners E sp repo w = (y, w1)" by fastforce
  show ?thesis
  proof (cases y)
    case (Inl e)
    with l show ?thesis by (simp add: cleanupRepo_def)
  next
    case (Inr gs)
    note u = listGhostRunners_url[OF assms l[unfolded Inr]]
    note f = sends_total(1)[OF assms u] and d = sends_total(2)[OF assms u]
    obtain z w2 where z: "runIDsForGhosts E rng sp repo gs w1 = (z, w2)" by fastforce
    let ?r = "zero_result\<lparr>rr_found := int (length gs)\<rparr>"
    obtain r1 c1 w3 where k: "(case z of Inl e \<Rightarrow> Some (?r, c, w2) | Inr ids \<Rightarrow> cancel_all E sp repo ids ?r c w2)
        = Some (r1, c1, w3)"
      using cancel_all_total[OF f] by (cases z) force+
    obtain r2 c2 w4 where "delete_all E sp repo gs r1 c1 w3 = Some (r2, c2, w4)"
      using delete_all_total[OF d] by (metis prod.exhaust)
    with l Inr z k show ?thesis by (cases z) (auto simp: cleanupRepo_def)
  qed
qed

lemma cleanup_all_total:
  assumes "sp_apiBase sp = defaultAPIBase"
  shows "\<exists>su' c' w'. cleanup_all E rng sp repos su c w = Some (su', c', w')"
proof (induction repos arbitrary: su c w)
  case (Cons repo repos)
  obtain x c1 w1 where "cleanupRepo E rng sp repo c w = Some (x, c1, w1)"
    using cleanupRepo_total[OF assms, of E rng repo c w] by (elim exE)
  with Cons show ?case by (cases x) auto
qed simp

lemma tick_total:
  assumes "sp_apiBase sp = defaultAPIBase"
  obtains su c' w' where "tickWithSummary E rng order sp c w = Some (su, c', w')"
proof -
  let ?su0 = "zero_Summary\<lparr>su_Repos := int (length (cfg_Repos (cn_cfg c)))\<rparr>"
  obtain su1 c1 w1 where a: "cleanup_all E rng sp (order (cfg_Repos (cn_cfg c))) ?su0 c w = Some (su1, c1, w1)"
    using cleanup_all_total[OF assms, of E rng "order (cfg_Repos (cn_cfg c))" ?su0 c w] by (elim exE)
  obtain n c2 w2 where "reapLocalGhosts E sp c1 w1 = (n, c2, w2)" by (metis prod.exhaust)
  with a that show ?thesis by (simp add: tickWithSummary_def finish_tick_def Let_def)
qed

text \<open>
  Claim C26. With the API base the program starts with, the cleaner never crashes on a nil
  request, however long it runs and whatever the names of the repos are: a repo name that
  spoils the URL of a cancellation or a deletion already fails the listing.
\<close>

theorem cleanup_never_crashes:
  assumes "sp_apiBase sp = sp_apiBase (New pat img dry)"
  shows "\<exists>c' w'. cn_Run E rng order sp events c w = Some (c', w')"
proof -
  have base: "sp_apiBase sp = defaultAPIBase"
    using assms by (simp add: New_def NewWithDeps_def defaultAPIBase_def)
  have t: "cn_tick E rng order sp s \<noteq> None" if "s \<noteq> None" for s
  proof -
    from that obtain c w where s: "s = Some (c, w)" by auto
    obtain su c' w' where "tickWithSummary E rng order sp c w = Some (su, c', w')" by (rule tick_total[OF base])
    with s show ?thesis by (simp add: cn_tick_def)
  qed
  have n: "(cn_tick E rng order sp ^^ n) s \<noteq> None" if "s \<noteq> None" for n s
    using that t by (induction n) auto
  have "cn_Run E rng order sp events c w \<noteq> None"
    unfolding cn_Run_def ticker_loop_funpow by (intro n t) simp
  then show ?thesis by auto
qed

theorem cleanup_never_crashes_witness:
  "\<exists>c' w'. cn_Run (sim_env (sim_github [])) rev rev (web_spawner\<lparr>sp_paused := True\<rparr>) [Tick, CtxDone, Tick]
     (cn_New (web_config\<lparr>cfg_Repos := [web_repo\<lparr>rc_Name := ''acme/%zz''\<rparr>]\<rparr>)) (sim_start []) = Some (c', w')"
  by (rule cleanup_never_crashes[where pat = "''ghp_x''" and img = "''runner:1''" and dry = False])
     (simp add: web_spawner_def)

theorem tick_balances_witness:
  "\<exists>su c' w'. tickWithSummary (sim_env (sim_github (runners_table one_runner))) rev rev web_spawner
       (cn_New web_config) (sim_start [web_container]) = Some (su, c', w')
     \<and> su_GhostsFound su = su_GhostsDeleted su + su_GhostsStillStuck su \<and> LastSummary c' = su"
proof -
  obtain su c' w' where t: "tickWithSummary (sim_env (sim_github (runners_table one_runner))) rev rev web_spawner
       (cn_New web_config) (sim_start [web_container]) = Some (su, c', w')"
    by (rule tick_total[of web_spawner]) simp
  from tick_balances[OF t] have "su_GhostsFound su = su_GhostsDeleted su + su_GhostsStillStuck su"
    "LastSummary c' = su" by blast+
  with t show ?thesis by blast
qed

end
