(* ===== verification/Json_Sim.thy ===== *)
theory Json_Sim
  imports Json_Text
begin

text \<open>
  Decoding one JSON text into two different Go structs: the shared fields agree, and the
  struct with fewer fields fails only if the other one does.
\<close>

definition dec_sim :: "('a \<Rightarrow> 'b \<Rightarrow> bool) \<Rightarrow> 'a dec \<Rightarrow> 'b dec \<Rightarrow> bool" where
  "dec_sim R d1 d2 \<longleftrightarrow> (\<forall>j r1 r2. R r1 r2 \<longrightarrow>
     R (fst (d1 j r1)) (fst (d2 j r2)) \<and> (snd (d2 j r2) \<longrightarrow> snd (d1 j r1)))"

lemma dec_simD:
  assumes "dec_sim R d1 d2" "R r1 r2"
  shows "R (fst (d1 j r1)) (fst (d2 j r2))" "snd (d2 j r2) \<Longrightarrow> snd (d1 j r1)"
  using assms unfolding dec_sim_def by blast+

definition field_dec :: "(string \<times> 'r dec) list \<Rightarrow> string \<Rightarrow> 'r dec" where
  "field_dec fs k = (case lookup_field fs k of None \<Rightarrow> (\<lambda>j r. (r, False)) | Some d \<Rightarrow> d)"

lemma dec_members_field:
  "dec_members fs ((k, j) # ms) r = (let (r1, e1) = field_dec fs k j r; (r2, e2) = dec_members fs ms r1 in (r2, e1 \<or> e2))"
  by (simp add: field_dec_def Let_def split: option.split)

lemma dec_members_sim:
  assumes "\<And>k. dec_sim R (field_dec fs1 k) (field_dec fs2 k)"
  shows "R r1 r2 \<Longrightarrow> R (fst (dec_members fs1 ms r1)) (fst (dec_members fs2 ms r2))
    \<and> (snd (dec_members fs2 ms r2) \<longrightarrow> snd (dec_members fs1 ms r1))"
proof (induction ms arbitrary: r1 r2)
  case (Cons kj ms)
  obtain k j where kj: "kj = (k, j)" by fastforce
  note s = dec_simD[OF assms[of k] Cons.prems, of j]
  from Cons.IH[OF s(1)] s(2) show ?case
    unfolding kj dec_members_field by (auto simp: Let_def case_prod_beta)
qed simp

lemma dec_struct_sim:
  assumes "\<And>k. dec_sim R (field_dec fs1 k) (field_dec fs2 k)"
  shows "dec_sim R (dec_struct fs1) (dec_struct fs2)"
  unfolding dec_sim_def
proof (intro allI impI)
  fix j r1 r2 assume "R r1 r2"
  with dec_members_sim[OF assms] show "R (fst (dec_struct fs1 j r1)) (fst (dec_struct fs2 j r2))
      \<and> (snd (dec_struct fs2 j r2) \<longrightarrow> snd (dec_struct fs1 j r1))"
    by (cases j) simp_all
qed

lemma dec_elems_sim:
  assumes "dec_sim R d1 d2" "R z1 z2"
  shows "list_all2 R vs1 vs2 \<Longrightarrow>
    list_all2 R (fst (dec_elems d1 z1 js vs1)) (fst (dec_elems d2 z2 js vs2))
    \<and> (snd (dec_elems d2 z2 js vs2) \<longrightarrow> snd (dec_elems d1 z1 js vs1))"
proof (induction js arbitrary: vs1 vs2)
  case (Cons j js)
  let ?h = "\<lambda>z vs. case vs of [] \<Rightarrow> z | v # _ \<Rightarrow> v"
  have "R (?h z1 vs1) (?h z2 vs2)" "list_all2 R (tl vs1) (tl vs2)"
    using Cons.prems assms(2) by (cases vs1; cases vs2; simp)+
  from dec_simD[OF assms(1) this(1), of j] Cons.IH[OF this(2)] show ?case
    by (auto simp: Let_def case_prod_beta)
qed simp

lemma dec_slice_sim:
  assumes "dec_sim R d1 d2" "R z1 z2"
  shows "dec_sim (list_all2 R) (dec_slice d1 z1) (dec_slice d2 z2)"
  unfolding dec_sim_def
proof (intro allI impI)
  fix j and vs1 vs2 assume "list_all2 R vs1 vs2"
  with dec_elems_sim[OF assms] show "list_all2 R (fst (dec_slice d1 z1 j vs1)) (fst (dec_slice d2 z2 j vs2))
      \<and> (snd (dec_slice d2 z2 j vs2) \<longrightarrow> snd (dec_slice d1 z1 j vs1))"
    by (cases j) simp_all
qed

lemma one_field_sim: "dec_sim R d1 d2 \<Longrightarrow> dec_sim R (dec_struct [(n, d1)]) (dec_struct [(n, d2)])"
  by (rule dec_struct_sim) (auto simp: dec_sim_def field_dec_def lookup_field_def)

lemma json_Decode_sim:
  assumes "dec_sim R d1 d2" "R v1 v2" "json_Decode d1 s v1 = (x, None)"
  obtains y where "json_Decode d2 s v2 = (y, None)" "R x y"
proof -
  obtain j r where j: "json_first s = Some (j, r)"
    using assms(3) by (cases "json_first s") (auto simp: json_Decode_def)
  from dec_simD[OF assms(1,2), of j] assms(3) j have "R x (fst (d2 j v2))" "\<not> snd (d2 j v2)"
    by (auto simp: json_Decode_def Let_def case_prod_beta split: if_splits)
  with j that show ?thesis by (simp add: json_Decode_def Let_def case_prod_beta)
qed

end
