(* ===== verification/Cleanup_GitHub.thy ===== *)
theory Cleanup_GitHub
  imports Cleanup_Props Json_Sim
begin

text \<open>
  What the cleaner reads from GitHub: the ghosts it finds are those the spawner counts for
  the portal, the runs it cancels are exactly those stuck on a ghost, and a container's age
  is read back from what docker writes.
\<close>

section \<open>Ghosts\<close>

definition same_runner :: "full_runner \<Rightarrow> counted_runner \<Rightarrow> bool" where
  "same_runner r c \<longleftrightarrow> cr_Name c = fr_Name r \<and> cr_Status c = fr_Status r \<and> cr_Busy c = fr_Busy r"

lemma runner_dec_sim:
  "dec_sim (list_all2 same_runner) dec_full_page dec_counted_page"
proof -
  let ?f1 = "[(''id'', dec_field fr_ID (\<lambda>x. fr_ID_update (\<lambda>_. x)) dec_int64),
         (''name'', dec_field fr_Name (\<lambda>x. fr_Name_update (\<lambda>_. x)) dec_string),
         (''status'', dec_field fr_Status (\<lambda>x. fr_Status_update (\<lambda>_. x)) dec_string),
         (''busy'', dec_field fr_Busy (\<lambda>x. fr_Busy_update (\<lambda>_. x)) dec_bool)]"
  let ?f2 = "[(''name'', dec_field cr_Name (\<lambda>x. cr_Name_update (\<lambda>_. x)) dec_string),
         (''status'', dec_field cr_Status (\<lambda>x. cr_Status_update (\<lambda>_. x)) dec_string),
         (''busy'', dec_field cr_Busy (\<lambda>x. cr_Busy_update (\<lambda>_. x)) dec_bool)]"
  have "dec_sim same_runner (field_dec ?f1 k) (field_dec ?f2 k)" for k
    by (auto simp: dec_sim_def same_runner_def field_dec_def lookup_field_def dec_field_def Let_def case_prod_beta
        upper_byte_def split: option.splits)
  then have "dec_sim same_runner (dec_struct ?f1) (dec_struct ?f2)" by (rule dec_struct_sim)
  from one_field_sim[OF dec_slice_sim[OF this]] show ?thesis
    by (simp add: dec_full_page_def dec_counted_page_def zero_counted_runner_def same_runner_def)
qed

lemma ghosts_counted:
  "list_all2 same_runner rs cs \<Longrightarrow>
     snd (snd (runner_counts cs (a, b, n))) = n + int (length (ghosts_of rs))"
  by (induction rs cs arbitrary: a b n rule: list_all2_induct) (auto simp: same_runner_def autoPrefix_def)

text \<open>
  Claim C30. The cleaner's ghosts are the portal's: when the cleaner can list a repo's
  runners, the spawner's count over the same answer reports exactly as many ghosts.
\<close>

theorem ghosts_agree:
  assumes "listGhostRunners E sp repo w = (Inr ghosts, w')"
  shows "\<exists>online busy. RepoRunnerCounts E sp repo w = ((online, busy, int (length ghosts)), w')"
proof -
  obtain body where b: "cn_apiGET E sp (runners_url (sp_apiBase sp) (rc_Name repo)) w = (Inr body, w')"
    and page: "\<exists>page. json_Decode dec_full_page body [] = (page, None) \<and> ghosts = ghosts_of page"
    using assms by (auto simp: listGhostRunners_def split: prod.splits sum.splits option.splits)
  then obtain page where p: "json_Decode dec_full_page body [] = (page, None)" "ghosts = ghosts_of page" by blast
  obtain page2 where p2: "json_Decode dec_counted_page body [] = (page2, None)" "list_all2 same_runner page page2"
    by (rule json_Decode_sim[OF runner_dec_sim _ p(1), of "[]"]) simp
  have u: "url_Parse (runners_url (sp_apiBase sp) (rc_Name repo)) \<noteq> None"
    using b by (auto simp: cn_apiGET_def api_get_with_def http_NewRequest_def split: if_splits)
  obtain rs where rs: "http_Do E \<lparr>rq_Method = ''GET'', rq_URL = runners_url (sp_apiBase sp) (rc_Name repo),
      rq_Header = github_headers (sp_pat sp)\<rparr> w = (Inr rs, w')" "rs_StatusCode rs = 200" "rs_Body rs = body"
    using b unfolding cn_apiGET_def by (elim api_get_with_Inr)
  obtain x y z where c: "runner_counts page2 (0, 0, 0) = (x, y, z)" by (metis prod.exhaust)
  from ghosts_counted[OF p2(2), of 0 0 0] c p(2) have "z = int (length ghosts)" by simp
  with u rs p2(1) c show ?thesis
    by (auto simp: RepoRunnerCounts_def http_NewRequest_def signRequest_def)
qed

definition ghost_and_live :: json where
  "ghost_and_live = JObj [(''runners'', JArr [web_runner ''auto-a'' ''offline'' True ''pool-a'',
     web_runner ''auto-b'' ''online'' False ''pool-a'', web_runner ''ci-1'' ''offline'' False ''pool-a''])]"

lemma ghost_and_live_ghosts:
  "\<exists>w'. listGhostRunners (sim_env (sim_github (runners_table ghost_and_live))) web_spawner web_repo (sim_start [])
     = (Inr [\<lparr>gh_id = 7, gh_name = ''auto-a'', gh_busy = True\<rparr>], w')"
proof -
  have p: "plain_json ghost_and_live" "json_depth ghost_and_live \<le> json_max_depth"
    by (simp_all add: ghost_and_live_def web_runner_def plain_char_def plain_num_def is_digit_def json_max_depth_def)
  have seven: "parse_int64 ''7'' = Some 7"
    by (simp add: parse_int64_def TrimPrefix_def HasPrefix_def read_nat_def digit_val_def is_digit_def)
  have "json_Decode dec_full_page (json_text ghost_and_live) [] =
     ([\<lparr>fr_ID = 7, fr_Name = ''auto-a'', fr_Status = ''offline'', fr_Busy = True\<rparr>,
       \<lparr>fr_ID = 7, fr_Name = ''auto-b'', fr_Status = ''online'', fr_Busy = False\<rparr>,
       \<lparr>fr_ID = 7, fr_Name = ''ci-1'', fr_Status = ''offline'', fr_Busy = False\<rparr>], None)"
    by (simp add: json_Decode_text[OF p])
       (simp add: ghost_and_live_def web_runner_def dec_full_page_def lookup_field_def upper_byte_def dec_field_def seven)
  then show ?thesis using web_url
    by (simp add: listGhostRunners_def cn_apiGET_def api_get_with_def http_NewRequest_def runners_url_def
      defaultAPIBase_def sim_github_def runners_table_def autoPrefix_def HasPrefix_def)
qed

theorem ghosts_agree_witness:
  "\<exists>online busy w'. RepoRunnerCounts (sim_env (sim_github (runners_table ghost_and_live))) web_spawner web_repo
     (sim_start []) = ((online, busy, 1), w')"
proof -
  obtain w' where g: "listGhostRunners (sim_env (sim_github (runners_table ghost_and_live))) web_spawner web_repo
      (sim_start []) = (Inr [\<lparr>gh_id = 7, gh_name = ''auto-a'', gh_busy = True\<rparr>], w')"
    using ghost_and_live_ghosts by (elim exE)
  from ghosts_agree[OF g] show ?thesis by auto
qed

section \<open>Stuck runs\<close>

lemma stuck_runs_set:
  assumes "\<And>i w. fst (listStuckJobs E sp repo i w) = ans i"
  shows "stuck_runs E sp repo names runs stuck w = (out, w') \<Longrightarrow> distinct stuck \<Longrightarrow>
    distinct out \<and> set out = set stuck \<union> {i \<in> set runs. \<exists>js. ans i = Inr js \<and> has_ghost_job names js}"
proof (induction runs arbitrary: stuck w)
  case (Cons i runs)
  obtain a w1 where a: "listStuckJobs E sp repo i w = (a, w1)" by fastforce
  with assms[of i w] have ai: "ans i = a" by simp
  show ?case
  proof (cases a)
    case (Inl e)
    with Cons.prems a Cons.IH[of stuck w1] ai show ?thesis by auto
  next
    case (Inr js)
    have d: "distinct (if has_ghost_job names js then List.insert i stuck else stuck)"
      using Cons.prems(2) by simp
    from Cons.prems(1) a Inr
    have "stuck_runs E sp repo names runs (if has_ghost_job names js then List.insert i stuck else stuck) w1 = (out, w')"
      by simp
    from Cons.IH[OF this d] ai Inr show ?thesis by auto
  qed
qed simp

text \<open>
  Claim C31. While GitHub's job lists stay the same, the runs to cancel are exactly the
  in-progress runs with an in-progress job on one of the ghosts, each once, in whatever order
  Go iterates over its map; a run whose jobs cannot be listed is left alone.
\<close>

theorem stuck_runs_exact:
  assumes "\<And>i w. fst (listStuckJobs E sp repo i w) = ans i" "\<And>xs. mset (rng xs) = mset xs"
    and "cn_apiGET E sp (ghost_runs_url (sp_apiBase sp) (rc_Name repo)) w = (Inr body, w1)"
    and "json_Decode dec_run_ids body [] = (runs, None)"
    and "runIDsForGhosts E rng sp repo ghosts w = (Inr ids, w')"
  shows "distinct ids \<and> set ids = {i \<in> set runs. \<exists>js. ans i = Inr js \<and>
    (\<exists>j \<in> set js. \<exists>g \<in> set ghosts. rj_Status j = ''in_progress'' \<and> rj_RunnerName j = gh_name g)}"
proof -
  obtain stuck w2 where s: "stuck_runs E sp repo (gh_name ` set ghosts) runs [] w1 = (stuck, w2)" by fastforce
  with assms(3-5) have ids: "ids = rng stuck" by (simp add: runIDsForGhosts_def)
  have "distinct ids = distinct stuck" "set ids = set stuck"
    unfolding ids using assms(2)[of stuck] mset_eq_imp_distinct_iff mset_eq_setD by blast+
  moreover have "has_ghost_job (gh_name ` set ghosts) js \<longleftrightarrow>
      (\<exists>j \<in> set js. \<exists>g \<in> set ghosts. rj_Status j = ''in_progress'' \<and> rj_RunnerName j = gh_name g)" for js
    by (auto simp: has_ghost_job_def list_ex_iff)
  ultimately show ?thesis using stuck_runs_set[OF assms(1) s] by simp
qed

text \<open>Run 8 has a job in progress on the ghost, run 9 one that is queued there.\<close>

definition ghost_job :: "string \<Rightarrow> string \<Rightarrow> json" where
  "ghost_job nm st = JObj [(''jobs'', JArr [JObj [(''runner_name'', JStr nm), (''status'', JStr st)]])]"

definition ghost_queue :: "(string \<times> json) list" where
  "ghost_queue = [(''https://api.github.com/repos/acme/web/actions/runs?status=in_progress&per_page=100'',
       JObj [(''workflow_runs'', JArr [JObj [(''id'', JNum ''8'')], JObj [(''id'', JNum ''9'')]])]),
     (''https://api.github.com/repos/acme/web/actions/runs/8/jobs?per_page=100'', ghost_job ''auto-a'' ''in_progress''),
     (''https://api.github.com/repos/acme/web/actions/runs/9/jobs?per_page=100'', ghost_job ''auto-a'' ''queued'')]"

lemma sim_cn_apiGET:
  assumes "url_tail t" "map_of tbl (''https://api.github.com/'' @ t) = Some v"
  shows "fst (cn_apiGET (sim_env (sim_github tbl)) sp (''https://api.github.com/'' @ t) s) = Inr (json_text v)"
  using api_url[OF assms(1)] assms(2)
  by (simp add: cn_apiGET_def api_get_with_def http_NewRequest_def sim_github_def)

lemma sim_listStuckJobs_same:
  "fst (listStuckJobs (sim_env (sim_github tbl)) sp repo i w) = fst (listStuckJobs (sim_env (sim_github tbl)) sp repo i w')"
  by (auto simp: listStuckJobs_def cn_apiGET_def api_get_with_def sim_github_def
      split: prod.splits sum.splits option.splits)

lemma sim_stuck_jobs:
  assumes "url_tail (''repos/acme/web/actions/runs/'' @ show_int i @ ''/jobs?per_page=100'')"
    and "map_of tbl (''https://api.github.com/repos/acme/web/actions/runs/'' @ show_int i @ ''/jobs?per_page=100'')
      = Some (ghost_job nm st)" "list_all plain_char nm" "list_all plain_char st"
  shows "fst (listStuckJobs (sim_env (sim_github tbl)) web_spawner web_repo i w) =
    Inr [\<lparr>rj_RunnerName = nm, rj_Status = st\<rparr>]"
proof -
  have p: "plain_json (ghost_job nm st)" "json_depth (ghost_job nm st) \<le> json_max_depth"
    using assms(3,4) by (simp_all add: ghost_job_def plain_char_def json_max_depth_def)
  have "fst (json_Decode dec_run_jobs (json_text (ghost_job nm st)) []) = [\<lparr>rj_RunnerName = nm, rj_Status = st\<rparr>]"
    by (simp add: json_Decode_text[OF p])
       (simp add: ghost_job_def dec_run_jobs_def lookup_field_def dec_field_def upper_byte_def)
  with sim_cn_apiGET[OF assms(1), of tbl "ghost_job nm st" web_spawner w] assms(2) show ?thesis
    by (auto simp: listStuckJobs_def run_jobs_url_def defaultAPIBase_def split: prod.splits)
qed

theorem stuck_runs_exact_witness:
  "\<exists>ids w'. runIDsForGhosts (sim_env (sim_github ghost_queue)) rev web_spawner web_repo
     [\<lparr>gh_id = 7, gh_name = ''auto-a'', gh_busy = True\<rparr>] (sim_start []) = (Inr ids, w') \<and> set ids = {8}"
proof -
  let ?E = "sim_env (sim_github ghost_queue)" and ?g = "\<lparr>gh_id = 7, gh_name = ''auto-a'', gh_busy = True\<rparr>"
  let ?v = "JObj [(''workflow_runs'', JArr [JObj [(''id'', JNum ''8'')], JObj [(''id'', JNum ''9'')]])]"
  have n: "parse_int64 ''8'' = Some 8" "parse_int64 ''9'' = Some 9"
    by (simp_all add: parse_int64_def TrimPrefix_def HasPrefix_def read_nat_def digit_val_def is_digit_def)
  have sh: "show_int 8 = ''8''" "show_int 9 = ''9''" by (simp_all add: show_int_def show_nat_digit)
  let ?u = "ghost_runs_url (sp_apiBase web_spawner) (rc_Name web_repo)"
  have "fst (cn_apiGET ?E web_spawner ?u (sim_start [])) = Inr (json_text ?v)"
    using sim_cn_apiGET[of "''repos/acme/web/actions/runs?status=in_progress&per_page=100''" ghost_queue ?v web_spawner "sim_start []"]
    by (simp add: ghost_runs_url_def defaultAPIBase_def ghost_queue_def url_tail_def del: json_text.simps)
  then obtain w1 where b: "cn_apiGET ?E web_spawner ?u (sim_start []) = (Inr (json_text ?v), w1)"
    by (metis prod.collapse)
  have p: "plain_json ?v" "json_depth ?v \<le> json_max_depth"
    by (simp_all add: plain_char_def plain_num_def is_digit_def json_max_depth_def)
  have d: "json_Decode dec_run_ids (json_text ?v) [] = ([8, 9], None)"
    by (subst json_Decode_text[OF p]) (simp add: dec_run_ids_def lookup_field_def n)
  obtain stuck w2 where "stuck_runs ?E web_spawner web_repo (gh_name ` set [?g]) [8, 9] [] w1 = (stuck, w2)"
    by fastforce
  with b d obtain ids w' where r: "runIDsForGhosts ?E rev web_spawner web_repo [?g] (sim_start []) = (Inr ids, w')"
    by (simp add: runIDsForGhosts_def del: json_text.simps stuck_runs.simps)
  let ?ans = "\<lambda>i. fst (listStuckJobs ?E web_spawner web_repo i (sim_start []))"
  have ans: "?ans 8 = Inr [\<lparr>rj_RunnerName = ''auto-a'', rj_Status = ''in_progress''\<rparr>]"
    "?ans 9 = Inr [\<lparr>rj_RunnerName = ''auto-a'', rj_Status = ''queued''\<rparr>]"
    by (rule sim_stuck_jobs; simp add: sh ghost_queue_def url_tail_def plain_char_def)+
  have "set ids = {i \<in> set [8, 9]. \<exists>js. ?ans i = Inr js \<and>
      (\<exists>j \<in> set js. \<exists>g \<in> set [?g]. rj_Status j = ''in_progress'' \<and> rj_RunnerName j = gh_name g)}"
    using stuck_runs_exact[OF sim_listStuckJobs_same _ b d r] by simp
  also have "\<dots> = {8}" using ans by auto
  finally show ?thesis using r by blast
qed

section \<open>Age\<close>

lemma rfc3339_trim:
  assumes "y < 10000"
  shows "TrimSpace (rfc3339 y mo d h mi s frac @ [CHR 0x0A]) = rfc3339 y mo d h mi s frac"
proof (rule TrimSpace_line)
  have "y div 100 div 10 < 10" using assms by auto
  moreover have "graphic (char_of (48 + n :: nat))" if "n < 10" for n using that by (simp add: graphic_def)
  ultimately show "graphic (hd (rfc3339 y mo d h mi s frac))"
    by (simp add: rfc3339_def four_def two_def)
qed (simp_all add: rfc3339_def graphic_def four_def two_def)

text \<open>
  Claim C33. The age of a container is the time from its creation to now: what docker writes
  for a valid UTC date with any fraction of a second is read back as that instant to the
  nanosecond (further digits are dropped), and the difference saturates at the ends of a
  duration. Anything \<open>time.Parse\<close> rejects is an error.
\<close>

theorem containerAge_exact:
  assumes "docker_Exec E (created_args i) w = ((rfc3339 y mo d h mi s frac @ [CHR 0x0A], er, None), w1)"
    and "time_Now E w1 = (now, w2)"
    and "y < 10000" "1 \<le> mo" "mo \<le> 12" "1 \<le> d" "int d \<le> daysIn (int mo) (int y)" "h < 24" "mi < 60" "s < 60"
    and "list_all is_digit frac"
  shows "containerAge E i w = (Inr (max (- (2 ^ 63)) (min (2 ^ 63 - 1)
    (now - (unix_seconds (int y) (int mo) (int d) (int h) (int mi) (int s) * 1000000000 + nanos frac)))), w2)"
proof -
  note p = time_Parse_rfc3339[OF assms(3-11)]
  have "TrimSpace (rfc3339 y mo d h mi s frac @ [CHR 0x0A]) = rfc3339 y mo d h mi s frac"
    using assms(3) by (rule rfc3339_trim)
  with p assms(1,2) show ?thesis
    by (simp add: containerAge_def dockerOutput_def time_Since_def)
qed

text \<open>The container of the example, five minutes after its creation.\<close>

definition five_later :: sim where
  "five_later = (sim_start [web_container])\<lparr>sm_now := (unix_seconds 2026 1 1 0 0 0 + 300) * 1000000000\<rparr>"

lemma five_later_created: "sim_exec (created_args ''c0'') five_later =
    ((rfc3339 2026 1 1 0 0 0 [] @ [CHR 0x0A], [], None), five_later\<lparr>sm_argv := [created_args ''c0'']\<rparr>)"
proof -
  have "rfc3339 2026 1 1 0 0 0 [] = ''2026-01-01T00:00:00Z''"
    by (simp add: rfc3339_def four_def two_def frac_text_def char_of_def bit_iff_odd)
  then show ?thesis
    by (simp add: five_later_def sim_exec_def Let_def created_args_def sim_inspect_def sim_lines_def
        web_container_def sim_id_def show_nat_digit render_container_def template_def)
qed

theorem containerAge_exact_witness:
  "fst (containerAge (sim_env (sim_github [])) ''c0'' five_later) = Inr defaultLocalGrace"
proof -
  have n: "time_Now (sim_env (sim_github [])) (five_later\<lparr>sm_argv := [created_args ''c0'']\<rparr>) =
      ((unix_seconds 2026 1 1 0 0 0 + 300) * 1000000000, five_later\<lparr>sm_argv := [created_args ''c0'']\<rparr>)"
    by (simp add: five_later_def)
  have "containerAge (sim_env (sim_github [])) ''c0'' five_later =
      (Inr (max (- (2 ^ 63)) (min (2 ^ 63 - 1) ((unix_seconds 2026 1 1 0 0 0 + 300) * 1000000000
         - (unix_seconds (int 2026) (int 1) (int 1) (int 0) (int 0) (int 0) * 1000000000 + nanos [])))),
       five_later\<lparr>sm_argv := [created_args ''c0'']\<rparr>)"
    by (rule containerAge_exact[OF _ n]) (simp_all add: five_later_created daysIn_def)
  moreover have "nanos [] = 0" by (simp add: nanos_def read_nat_def)
  ultimately show ?thesis by (simp add: defaultLocalGrace_def)
qed

end
