(* ===== verification/Cleanup_Race.thy ===== *)
theory Cleanup_Race
  imports Cleanup_Props
begin

text \<open>
  The goroutines of \<open>tickWithSummary\<close>: one per repo and the one that waits for them and then
  reaps, for any number of ticks at once (the loop's and those of \<open>/api/cleanup\<close>),
  interleaved with each other and with anything that changes the world. Every HTTP call is a
  step, and so are the listing of the local containers, the reaping of one of them, and each
  access to what is shared: the lifetime totals and the last summary by all ticks, the summary
  of a tick by its goroutines, which add to it under its mutex.
\<close>

section \<open>One goroutine\<close>

text \<open>
  Where a goroutine is: before listing the ghosts; before listing the runs; asking for the
  jobs of the runs left, with the stuck ones so far; with runs left to cancel; with ghosts
  left to delete; before the mutex; returned, with what it added. \<open>Crashed\<close> is the nil request.
\<close>

datatype cpc =
    Listing RepoConfig
  | Querying RepoConfig "ghostRunner list"
  | Walking RepoConfig "ghostRunner list" "int list" "int list"
  | Cancelling RepoConfig "ghostRunner list" "int list" repoResult
  | Deleting RepoConfig "ghostRunner list" repoResult
  | Adding repoResult
  | Finished "repoResult option"
  | Crashed

definition found_result :: "ghostRunner list \<Rightarrow> repoResult" where
  "found_result gs = zero_result\<lparr>rr_found := int (length gs)\<rparr>"

definition list_runs :: "'w env \<Rightarrow> spawner \<Rightarrow> RepoConfig \<Rightarrow> 'w \<Rightarrow> (err + int list) \<times> 'w" where
  "list_runs E sp repo w =
     (case cn_apiGET E sp (ghost_runs_url (sp_apiBase sp) (rc_Name repo)) w of
        (Inl e, w1) \<Rightarrow> (Inl e, w1)
      | (Inr body, w1) \<Rightarrow>
          (case json_Decode dec_run_ids body [] of
             (_, Some e) \<Rightarrow> (Inl e, w1)
           | (runs, None) \<Rightarrow> (Inr runs, w1)))"

inductive go_step :: "'w env \<Rightarrow> spawner \<Rightarrow> cpc \<Rightarrow> cleaner \<Rightarrow> 'w \<Rightarrow> cpc \<Rightarrow> cleaner \<Rightarrow> 'w \<Rightarrow> bool"
  for E sp where
  list_failed: "listGhostRunners E sp repo w = (Inl e, w1) \<Longrightarrow>
    go_step E sp (Listing repo) c w (Finished None) c (slog E LevelWarn ''cleanup repo failed'' w1)"
| list_clean: "listGhostRunners E sp repo w = (Inr [], w1) \<Longrightarrow>
    go_step E sp (Listing repo) c w (Adding zero_result) c w1"
| list_ghosts: "listGhostRunners E sp repo w = (Inr gs, w1) \<Longrightarrow> gs \<noteq> [] \<Longrightarrow>
    go_step E sp (Listing repo) c w (Querying repo gs) c w1"
| query_failed: "list_runs E sp repo w = (Inl e, w1) \<Longrightarrow>
    go_step E sp (Querying repo gs) c w (Deleting repo gs (found_result gs)) c w1"
| query: "list_runs E sp repo w = (Inr runs, w1) \<Longrightarrow>
    go_step E sp (Querying repo gs) c w (Walking repo gs runs []) c w1"
| walk_failed: "listStuckJobs E sp repo i w = (Inl e, w1) \<Longrightarrow>
    go_step E sp (Walking repo gs (i # runs) stuck) c w (Walking repo gs runs stuck) c w1"
| walk: "listStuckJobs E sp repo i w = (Inr js, w1) \<Longrightarrow>
    go_step E sp (Walking repo gs (i # runs) stuck) c w
      (Walking repo gs runs (if has_ghost_job (gh_name ` set gs) js then List.insert i stuck else stuck)) c w1"
| walked: "mset ids = mset stuck \<Longrightarrow>
    go_step E sp (Walking repo gs [] stuck) c w (Cancelling repo gs ids (found_result gs)) c w"
| cancel_yes: "forceCancelRun E sp repo i w = Some (True, w1) \<Longrightarrow>
    go_step E sp (Cancelling repo gs (i # ids) r) c w
      (Cancelling repo gs ids (r\<lparr>rr_cancelled := rr_cancelled r + 1\<rparr>))
      (c\<lparr>totalRunsCancelled := totalRunsCancelled c + 1\<rparr>) w1"
| cancel_no: "forceCancelRun E sp repo i w = Some (False, w1) \<Longrightarrow>
    go_step E sp (Cancelling repo gs (i # ids) r) c w (Cancelling repo gs ids r) c w1"
| cancel_crash: "forceCancelRun E sp repo i w = None \<Longrightarrow>
    go_step E sp (Cancelling repo gs (i # ids) r) c w Crashed c w"
| cancelled: "go_step E sp (Cancelling repo gs [] r) c w (Deleting repo gs r) c w"
| delete_yes: "deleteRunner E sp repo (gh_id g) w = Some (True, w1) \<Longrightarrow>
    go_step E sp (Deleting repo (g # gs) r) c w (Deleting repo gs (r\<lparr>rr_deleted := rr_deleted r + 1\<rparr>))
      (c\<lparr>totalGhostsDeleted := totalGhostsDeleted c + 1\<rparr>) w1"
| delete_no: "deleteRunner E sp repo (gh_id g) w = Some (False, w1) \<Longrightarrow>
    go_step E sp (Deleting repo (g # gs) r) c w
      (Deleting repo gs (r\<lparr>rr_stillStuck := rr_stillStuck r + 1\<rparr>)) c w1"
| delete_crash: "deleteRunner E sp repo (gh_id g) w = None \<Longrightarrow>
    go_step E sp (Deleting repo (g # gs) r) c w Crashed c w"
| deleted: "go_step E sp (Deleting repo [] r) c w (Adding r) c w"

text \<open>
  What a goroutine has counted so far, and that its numbers are consistent with where it is.
  A crash ends the process, so its numbers no longer matter.
\<close>

fun so_far :: "cpc \<Rightarrow> repoResult" where
  "so_far (Cancelling repo gs ids r) = r"
| "so_far (Deleting repo gs r) = r"
| "so_far (Adding r) = r"
| "so_far (Finished (Some r)) = r"
| "so_far _ = zero_result"

fun pc_ok :: "cpc \<Rightarrow> bool" where
  "pc_ok (Cancelling repo gs ids r) = (rr_found r = int (length gs) \<and> rr_deleted r = 0 \<and> rr_stillStuck r = 0
     \<and> 0 \<le> rr_cancelled r)"
| "pc_ok (Deleting repo gs r) = (rr_found r = rr_deleted r + rr_stillStuck r + int (length gs)
     \<and> 0 \<le> rr_deleted r \<and> 0 \<le> rr_stillStuck r \<and> 0 \<le> rr_cancelled r)"
| "pc_ok (Adding r) = balanced r"
| "pc_ok (Finished (Some r)) = balanced r"
| "pc_ok _ = True"

lemma go_step_ok: "go_step E sp p c w p' c' w' \<Longrightarrow> pc_ok p \<Longrightarrow> pc_ok p'"
  by (induction rule: go_step.induct)
     (auto simp: found_result_def zero_result_def balanced_def)

lemma go_step_totals:
  assumes "go_step E sp p c w p' c' w'" "p' \<noteq> Crashed"
  shows "totals_up (rr_deleted (so_far p') - rr_deleted (so_far p))
    (rr_cancelled (so_far p') - rr_cancelled (so_far p)) 0 c c'"
  using assms
  by (induction rule: go_step.induct) (auto simp: found_result_def zero_result_def totals_up_step)

section \<open>One tick\<close>

text \<open>
  Where the goroutine of a tick is after it started those of the repos: waiting for them; with
  local containers listed and repos left to list the registered names of; with containers
  left to reap and the number reaped; with some of the three lifetime totals loaded; returned.
\<close>

datatype tpc =
    Waiting
  | Registering "localContainer list" "RepoConfig list" "string \<rightharpoonup> string set"
  | Reaping "string \<rightharpoonup> string set" int "localContainer list" int
  | Loading nat Summary
  | Done Summary

definition set_reaped :: "int \<Rightarrow> Summary \<Rightarrow> Summary" where
  "set_reaped n su = su\<lparr>su_LocalGhostsReaped := n\<rparr>"

inductive tick_step :: "'w env \<Rightarrow> spawner \<Rightarrow> Summary \<Rightarrow> tpc \<Rightarrow> cleaner \<Rightarrow> 'w \<Rightarrow> tpc \<Rightarrow> cleaner \<Rightarrow> 'w \<Rightarrow> bool"
  for E sp su where
  locals_failed: "listManagedContainers E w = (Inl e, w1) \<Longrightarrow>
    tick_step E sp su Waiting c w (Loading 0 (set_reaped 0 su)) c (slog E LevelWarn ''local reap: docker ps failed'' w1)"
| locals_none: "listManagedContainers E w = (Inr [], w1) \<Longrightarrow>
    tick_step E sp su Waiting c w (Loading 0 (set_reaped 0 su)) c w1"
| locals_some: "listManagedContainers E w = (Inr locals, w1) \<Longrightarrow> locals \<noteq> [] \<Longrightarrow>
    tick_step E sp su Waiting c w (Registering locals (cfg_Repos (cn_cfg c)) Map.empty) c w1"
| names_failed: "listAllRunnerNames E sp repo w = (Inl e, w1) \<Longrightarrow>
    tick_step E sp su (Registering locals (repo # repos) reg) c w (Registering locals repos reg) c
      (slog E LevelWarn ''local reap: list runners failed; skipping repo to avoid false positives'' w1)"
| names: "listAllRunnerNames E sp repo w = (Inr ns, w1) \<Longrightarrow>
    tick_step E sp su (Registering locals (repo # repos) reg) c w
      (Registering locals repos (reg(rc_Name repo \<mapsto> set ns))) c w1"
| registered: "tick_step E sp su (Registering locals [] reg) c w (Reaping reg (grace_of c) locals 0) c w"
| reap: "reap_one E reg grace lc c w = (b, c1, w1) \<Longrightarrow>
    tick_step E sp su (Reaping reg grace (lc # lcs) n) c w (Reaping reg grace lcs (if b then n + 1 else n)) c1 w1"
| reaped: "tick_step E sp su (Reaping reg grace [] n) c w (Loading 0 (set_reaped n su)) c w"
| load_deleted: "tick_step E sp su (Loading 0 su1) c w
    (Loading 1 (su1\<lparr>su_TotalGhostsDeleted := totalGhostsDeleted c\<rparr>)) c w"
| load_cancelled: "tick_step E sp su (Loading 1 su1) c w
    (Loading 2 (su1\<lparr>su_TotalRunsCancelled := totalRunsCancelled c\<rparr>)) c w"
| load_reaped: "tick_step E sp su (Loading 2 su1) c w
    (Loading 3 (su1\<lparr>su_TotalLocalGhostsReaped := totalLocalGhostsReaped c\<rparr>)) c w"
| store: "tick_step E sp su (Loading 3 su1) c w (Done su1) (c\<lparr>cn_lastSummary := su1\<rparr>)
    (if 0 < su_GhostsFound su1 \<or> 0 < su_GhostsDeleted su1 \<or> 0 < su_LocalGhostsReaped su1
     then slog E LevelInfo ''cleanup tick complete'' w else w)"

text \<open>What the tick has reaped, and that its summary reports what its goroutines added.\<close>

fun reaped_by :: "tpc \<Rightarrow> int" where
  "reaped_by (Reaping reg grace lcs n) = n"
| "reaped_by (Loading k su) = su_LocalGhostsReaped su"
| "reaped_by (Done su) = su_LocalGhostsReaped su"
| "reaped_by _ = 0"

definition reports :: "Summary \<Rightarrow> Summary \<Rightarrow> bool" where
  "reports su su' \<longleftrightarrow> su_Repos su' = su_Repos su \<and> su_GhostsFound su' = su_GhostsFound su
     \<and> su_RunsCancelled su' = su_RunsCancelled su \<and> su_GhostsDeleted su' = su_GhostsDeleted su
     \<and> su_GhostsStillStuck su' = su_GhostsStillStuck su \<and> 0 \<le> su_LocalGhostsReaped su'"

fun tick_ok :: "Summary \<Rightarrow> tpc \<Rightarrow> bool" where
  "tick_ok su (Reaping reg grace lcs n) = (0 \<le> n)"
| "tick_ok su (Loading k su') = (k \<le> 3 \<and> reports su su')"
| "tick_ok su (Done su') = reports su su'"
| "tick_ok su _ = True"

lemma tick_step_ok: "tick_step E sp su p c w p' c' w' \<Longrightarrow> tick_ok su p \<Longrightarrow> tick_ok su p'"
  by (induction rule: tick_step.induct) (auto simp: reports_def set_reaped_def)

definition books_up :: "int \<Rightarrow> int \<Rightarrow> int \<Rightarrow> cleaner \<Rightarrow> cleaner \<Rightarrow> bool" where
  "books_up deleted cancelled reaped c c' \<longleftrightarrow>
     totalGhostsDeleted c' = totalGhostsDeleted c + of_int deleted
     \<and> totalRunsCancelled c' = totalRunsCancelled c + of_int cancelled
     \<and> totalLocalGhostsReaped c' = totalLocalGhostsReaped c + of_int reaped"

lemma books_up_totals: "totals_up d k r c c' \<Longrightarrow> books_up d k r c c'"
  by (simp add: totals_up_def books_up_def)

lemma books_up_trans: "books_up d k r c c1 \<Longrightarrow> books_up d' k' r' c1 c2 \<Longrightarrow> books_up (d + d') (k + k') (r + r') c c2"
  by (simp add: books_up_def add.assoc)

lemma tick_step_books: "tick_step E sp su p c w p' c' w' \<Longrightarrow> books_up 0 0 (reaped_by p' - reaped_by p) c c'"
proof (induction rule: tick_step.induct)
  case (reap reg grace lc c w b c1 w1 lcs n)
  from books_up_totals[OF reap_one_counts[OF this]] show ?case by (cases b) simp_all
qed (simp_all add: books_up_def set_reaped_def)

lemma tick_step_last:
  assumes "tick_step E sp su p c w p' c' w'"
  shows "(\<forall>x. p \<noteq> Done x)
    \<and> (if \<exists>x. p' = Done x then p' = Done (cn_lastSummary c') else cn_lastSummary c' = cn_lastSummary c)"
  using assms
proof (induction rule: tick_step.induct)
  case (reap reg grace lc c w b c1 w1 lcs n)
  from reap_one_counts[OF this] show ?case by (simp add: totals_up_def)
qed simp_all

section \<open>All goroutines\<close>

definition returned :: "cpc \<Rightarrow> bool" where
  "returned p \<longleftrightarrow> (\<exists>r. p = Finished r)"

definition is_done :: "tpc \<Rightarrow> bool" where
  "is_done p \<longleftrightarrow> (\<exists>su. p = Done su)"

text \<open>A goroutine carries the number of its tick; \<open>ready\<close> is when the tick's \<open>WaitGroup\<close> is empty.\<close>

definition ready :: "nat \<Rightarrow> (nat \<times> cpc) list \<Rightarrow> bool" where
  "ready t gos \<longleftrightarrow> list_all (\<lambda>(u, p). u = t \<longrightarrow> returned p) gos"

record 'w crace =
  cr_cl :: cleaner
  cr_world :: 'w
  cr_sum :: "nat \<Rightarrow> Summary"
  cr_go :: "(nat \<times> cpc) list"
  cr_ticks :: "tpc list"

inductive crace_step :: "'w env \<Rightarrow> spawner \<Rightarrow> 'w crace \<Rightarrow> 'w crace \<Rightarrow> bool"
  for E sp where
  go: "i < length (cr_go s) \<Longrightarrow> cr_go s ! i = (t, p) \<Longrightarrow>
    go_step E sp p (cr_cl s) (cr_world s) p' c w \<Longrightarrow>
    crace_step E sp s (s\<lparr>cr_cl := c, cr_world := w, cr_go := (cr_go s)[i := (t, p')]\<rparr>)"
| add: "i < length (cr_go s) \<Longrightarrow> cr_go s ! i = (t, Adding r) \<Longrightarrow>
    crace_step E sp s (s\<lparr>cr_sum := (cr_sum s)(t := add_result r (cr_sum s t)),
      cr_go := (cr_go s)[i := (t, Finished (Some r))]\<rparr>)"
| tick: "t < length (cr_ticks s) \<Longrightarrow> cr_ticks s ! t = p \<Longrightarrow> (p = Waiting \<longrightarrow> ready t (cr_go s)) \<Longrightarrow>
    tick_step E sp (cr_sum s t) p (cr_cl s) (cr_world s) p' c w \<Longrightarrow>
    crace_step E sp s (s\<lparr>cr_cl := c, cr_world := w, cr_ticks := (cr_ticks s)[t := p']\<rparr>)"
| environment: "crace_step E sp s (s\<lparr>cr_world := w\<rparr>)"

inductive crace_reach :: "'w env \<Rightarrow> spawner \<Rightarrow> 'w crace \<Rightarrow> 'w crace \<Rightarrow> bool"
  for E sp where
  start: "crace_reach E sp s s"
| step: "crace_reach E sp s0 s \<Longrightarrow> crace_step E sp s s' \<Longrightarrow> crace_reach E sp s0 s'"

text \<open>The start of \<open>k\<close> ticks: a goroutine for each repo of each tick, a fresh summary per tick.\<close>

definition crace_start :: "nat \<Rightarrow> cleaner \<Rightarrow> 'w \<Rightarrow> 'w crace" where
  "crace_start k c w = \<lparr>cr_cl = c, cr_world = w,
     cr_sum = (\<lambda>t. zero_Summary\<lparr>su_Repos := int (length (cfg_Repos (cn_cfg c)))\<rparr>),
     cr_go = concat (map (\<lambda>t. map (\<lambda>repo. (t, Listing repo)) (cfg_Repos (cn_cfg c))) [0..<k]),
     cr_ticks = replicate k Waiting\<rparr>"

section \<open>Accounting\<close>

lemma sum_list_set: "i < length xs \<Longrightarrow> sum_list (map f (xs[i := y])) = sum_list (map f xs) - f (xs ! i) + (f y :: int)"
proof (induction xs arbitrary: i)
  case (Cons x xs)
  then show ?case by (cases i) auto
qed simp

definition pc_total :: "(repoResult \<Rightarrow> int) \<Rightarrow> (nat \<times> cpc) list \<Rightarrow> int" where
  "pc_total f gos = (\<Sum>(t, p) \<leftarrow> gos. f (so_far p))"

fun added :: "cpc \<Rightarrow> repoResult" where
  "added (Finished (Some r)) = r"
| "added _ = zero_result"

definition tick_sum :: "nat \<Rightarrow> (repoResult \<Rightarrow> int) \<Rightarrow> (nat \<times> cpc) list \<Rightarrow> int" where
  "tick_sum t f gos = (\<Sum>(t', p) \<leftarrow> gos. if t' = t then f (added p) else 0)"

definition tick_result :: "nat \<Rightarrow> (nat \<times> cpc) list \<Rightarrow> repoResult" where
  "tick_result t gos = \<lparr>rr_found = tick_sum t rr_found gos, rr_cancelled = tick_sum t rr_cancelled gos,
     rr_deleted = tick_sum t rr_deleted gos, rr_stillStuck = tick_sum t rr_stillStuck gos\<rparr>"

definition all_pcs :: "(cpc \<Rightarrow> bool) \<Rightarrow> (nat \<times> cpc) list \<Rightarrow> bool" where
  "all_pcs P gos \<longleftrightarrow> (\<forall>i < length gos. P (snd (gos ! i)))"

lemma all_pcsD: "all_pcs P gos \<Longrightarrow> i < length gos \<Longrightarrow> gos ! i = (t, p) \<Longrightarrow> P p"
  by (auto simp: all_pcs_def)

lemma all_pcs_set: "all_pcs P gos \<Longrightarrow> P p \<Longrightarrow> all_pcs P (gos[i := (t, p)])"
  by (cases "i < length gos") (auto simp: all_pcs_def nth_list_update)

lemma total_set:
  assumes "i < length gos" "gos ! i = (t, p)"
  shows "pc_total f (gos[i := (t, p')]) = pc_total f gos - f (so_far p) + f (so_far p')"
    and "tick_sum u f (gos[i := (t, p')]) = tick_sum u f gos + (if t = u then f (added p') - f (added p) else 0)"
  using assms by (simp_all add: pc_total_def tick_sum_def sum_list_set)

lemma crash_stays:
  assumes "i < length gos" "gos ! i = (t, p)" "p \<noteq> Crashed" "all_pcs (\<lambda>p. p \<noteq> Crashed) (gos[i := (t, p')])"
  shows "all_pcs (\<lambda>p. p \<noteq> Crashed) gos \<and> p' \<noteq> Crashed"
proof
  have c: "snd (gos[i := (t, p')] ! j) \<noteq> Crashed" if "j < length gos" for j
    using assms(4) that by (simp add: all_pcs_def)
  from c[OF assms(1)] assms(1) show "p' \<noteq> Crashed" by simp
  show "all_pcs (\<lambda>p. p \<noteq> Crashed) gos"
    unfolding all_pcs_def
  proof (intro allI impI)
    fix j assume "j < length gos"
    with c[OF this] assms(2,3) show "snd (gos ! j) \<noteq> Crashed" by (cases "j = i") simp_all
  qed
qed

lemma go_step_from:
  "go_step E sp p c w p' c' w' \<Longrightarrow> added p = zero_result \<and> added p' = zero_result \<and> p \<noteq> Crashed \<and> \<not> returned p
     \<and> cn_lastSummary c' = cn_lastSummary c"
  by (induction rule: go_step.induct) (auto simp: returned_def)

definition reap_total :: "tpc list \<Rightarrow> int" where
  "reap_total ticks = sum_list (map reaped_by ticks)"

lemma reap_total_set: "t < length ticks \<Longrightarrow> reap_total (ticks[t := p]) = reap_total ticks - reaped_by (ticks ! t) + reaped_by p"
  by (simp add: reap_total_def sum_list_set)

text \<open>The summaries hold what the goroutines added, the totals what all of them counted.\<close>

definition sums_inv :: "'w crace \<Rightarrow> 'w crace \<Rightarrow> bool" where
  "sums_inv s0 s \<longleftrightarrow> all_pcs pc_ok (cr_go s)
     \<and> (\<forall>t. cr_sum s t = add_result (tick_result t (cr_go s)) (cr_sum s0 t))
     \<and> (all_pcs (\<lambda>p. p \<noteq> Crashed) (cr_go s) \<longrightarrow>
          books_up (pc_total rr_deleted (cr_go s)) (pc_total rr_cancelled (cr_go s)) (reap_total (cr_ticks s))
            (cr_cl s0) (cr_cl s))"

lemma sums_inv_step:
  assumes "crace_step E sp s s'" "sums_inv s0 s" shows "sums_inv s0 s'"
  using assms
proof (induction rule: crace_step.induct)
  case (go i s t p p' c w)
  note i = go(1,2) and inv = go(4)[unfolded sums_inv_def]
  note ad = go_step_from[OF go(3)]
  have "pc_ok p" using inv all_pcsD[OF _ i] by blast
  then have a: "all_pcs pc_ok ((cr_go s)[i := (t, p')])"
    using inv go_step_ok[OF go(3)] by (simp add: all_pcs_set)
  have r: "tick_result u ((cr_go s)[i := (t, p')]) = tick_result u (cr_go s)" for u
    using ad by (simp add: tick_result_def total_set[OF i])
  have tt: "books_up (pc_total rr_deleted ((cr_go s)[i := (t, p')])) (pc_total rr_cancelled ((cr_go s)[i := (t, p')]))
      (reap_total (cr_ticks s)) (cr_cl s0) c" if "all_pcs (\<lambda>p. p \<noteq> Crashed) ((cr_go s)[i := (t, p')])"
  proof -
    from crash_stays[OF i _ that] ad have n: "all_pcs (\<lambda>p. p \<noteq> Crashed) (cr_go s)" "p' \<noteq> Crashed" by auto
    from n(1) inv have "books_up (pc_total rr_deleted (cr_go s)) (pc_total rr_cancelled (cr_go s))
      (reap_total (cr_ticks s)) (cr_cl s0) (cr_cl s)" by simp
    from books_up_trans[OF this books_up_totals[OF go_step_totals[OF go(3) n(2)]]] show ?thesis
      by (simp add: total_set[OF i] algebra_simps)
  qed
  from a r tt inv show ?case by (simp add: sums_inv_def)
next
  case (add i s t r)
  note i = add(1,2) and inv = add(3)[unfolded sums_inv_def]
  have "pc_ok (Adding r)" using inv all_pcsD[OF _ i] by blast
  then have a: "all_pcs pc_ok ((cr_go s)[i := (t, Finished (Some r))])"
    using inv by (simp add: all_pcs_set)
  have r: "tick_result u ((cr_go s)[i := (t, Finished (Some r))]) =
      (if t = u then \<lparr>rr_found = rr_found (tick_result u (cr_go s)) + rr_found r,
         rr_cancelled = rr_cancelled (tick_result u (cr_go s)) + rr_cancelled r,
         rr_deleted = rr_deleted (tick_result u (cr_go s)) + rr_deleted r,
         rr_stillStuck = rr_stillStuck (tick_result u (cr_go s)) + rr_stillStuck r\<rparr>
       else tick_result u (cr_go s))" for u
    by (simp add: tick_result_def total_set[OF i] zero_result_def)
  have tt: "pc_total f ((cr_go s)[i := (t, Finished (Some r))]) = pc_total f (cr_go s)" for f
    by (simp add: total_set[OF i])
  have cr: "all_pcs (\<lambda>p. p \<noteq> Crashed) (cr_go s)"
    if "all_pcs (\<lambda>p. p \<noteq> Crashed) ((cr_go s)[i := (t, Finished (Some r))])"
    using crash_stays[OF i _ that] by simp
  from a inv cr show ?case by (simp add: sums_inv_def r tt add_result_def add.assoc)
next
  case (tick t s p p' c w)
  note inv = tick(5)[unfolded sums_inv_def]
  have "books_up (pc_total rr_deleted (cr_go s)) (pc_total rr_cancelled (cr_go s))
      (reap_total ((cr_ticks s)[t := p'])) (cr_cl s0) c" if "all_pcs (\<lambda>p. p \<noteq> Crashed) (cr_go s)"
  proof -
    from that inv have "books_up (pc_total rr_deleted (cr_go s)) (pc_total rr_cancelled (cr_go s))
      (reap_total (cr_ticks s)) (cr_cl s0) (cr_cl s)" by simp
    from books_up_trans[OF this tick_step_books[OF tick(4)]] show ?thesis
      by (simp add: reap_total_set[OF tick(1)] tick(2) algebra_simps)
  qed
  with inv show ?case by (simp add: sums_inv_def)
next
  case (environment s w)
  then show ?case by (simp add: sums_inv_def)
qed

text \<open>A tick that goes on has all its goroutines returned, and its summary is final.\<close>

definition tick_inv :: "'w crace \<Rightarrow> nat \<Rightarrow> bool" where
  "tick_inv s t \<longleftrightarrow> (cr_ticks s ! t = Waiting \<or> ready t (cr_go s)) \<and> tick_ok (cr_sum s t) (cr_ticks s ! t)"

lemma ready_set:
  assumes "ready t gos" "i < length gos" "gos ! i = (u, p)" "\<not> returned p"
  shows "t \<noteq> u \<and> ready t (gos[i := (u, p')])"
proof -
  have "t \<noteq> u" using assms by (force simp: ready_def list_all_length)
  moreover have "ready t (gos[i := (u, p')])"
    unfolding ready_def list_all_length
  proof (intro allI impI)
    fix n assume "n < length (gos[i := (u, p')])"
    with assms(1) \<open>t \<noteq> u\<close> show "case gos[i := (u, p')] ! n of (v, q) \<Rightarrow> v = t \<longrightarrow> returned q"
      by (cases "n = i") (auto simp: ready_def list_all_length)
  qed
  ultimately show ?thesis by simp
qed

lemma tick_inv_step:
  assumes "crace_step E sp s s'" "\<forall>t < length (cr_ticks s). tick_inv s t"
  shows "\<forall>t < length (cr_ticks s'). tick_inv s' t"
  using assms
proof (induction rule: crace_step.induct)
  case (go i s t p p' c w)
  show ?case
  proof (intro allI impI)
    fix u assume "u < length (cr_ticks (s\<lparr>cr_cl := c, cr_world := w, cr_go := (cr_go s)[i := (t, p')]\<rparr>))"
    with go(4) have "tick_inv s u" by simp
    with ready_set[OF _ go(1,2), of u p'] go_step_from[OF go(3)]
    show "tick_inv (s\<lparr>cr_cl := c, cr_world := w, cr_go := (cr_go s)[i := (t, p')]\<rparr>) u"
      by (auto simp: tick_inv_def)
  qed
next
  case (add i s t r)
  show ?case
  proof (intro allI impI)
    fix u assume "u < length (cr_ticks (s\<lparr>cr_sum := (cr_sum s)(t := add_result r (cr_sum s t)),
      cr_go := (cr_go s)[i := (t, Finished (Some r))]\<rparr>))"
    with add(3) have u: "tick_inv s u" by simp
    have "\<not> returned (Adding r)" by (simp add: returned_def)
    note k = ready_set[OF _ add(1,2) this, of u "Finished (Some r)"]
    from u k show "tick_inv (s\<lparr>cr_sum := (cr_sum s)(t := add_result r (cr_sum s t)),
      cr_go := (cr_go s)[i := (t, Finished (Some r))]\<rparr>) u"
      by (cases "cr_ticks s ! u = Waiting") (auto simp: tick_inv_def)
  qed
next
  case (tick t s p p' c w)
  show ?case
  proof (intro allI impI)
    fix u assume u: "u < length (cr_ticks (s\<lparr>cr_cl := c, cr_world := w, cr_ticks := (cr_ticks s)[t := p']\<rparr>))"
    with tick(5) have "tick_inv s u" by simp
    with tick u tick_step_ok[OF tick(4)]
    show "tick_inv (s\<lparr>cr_cl := c, cr_world := w, cr_ticks := (cr_ticks s)[t := p']\<rparr>) u"
      by (auto simp: tick_inv_def nth_list_update)
  qed
next
  case (environment s w)
  then show ?case by (simp add: tick_inv_def)
qed

text \<open>The last summary is the one of a tick that is done, as soon as there is one.\<close>

definition last_inv :: "'w crace \<Rightarrow> 'w crace \<Rightarrow> bool" where
  "last_inv s0 s \<longleftrightarrow> (if list_ex is_done (cr_ticks s) then Done (cn_lastSummary (cr_cl s)) \<in> set (cr_ticks s)
     else cn_lastSummary (cr_cl s) = cn_lastSummary (cr_cl s0))"

lemma last_inv_step:
  assumes "crace_step E sp s s'" "last_inv s0 s" shows "last_inv s0 s'"
  using assms
proof (induction rule: crace_step.induct)
  case (go i s t p p' c w)
  with go_step_from[OF go(3)] show ?case by (simp add: last_inv_def)
next
  case (tick t s p p' c w)
  note l = tick_step_last[OF tick(4)]
  have keep: "x \<in> set ((cr_ticks s)[t := p'])" if "x \<in> set (cr_ticks s)" "is_done x" for x
  proof -
    from that(1) obtain u where u: "u < length (cr_ticks s)" "cr_ticks s ! u = x" by (auto simp: in_set_conv_nth)
    with that(2) tick(2) l have "u \<noteq> t" by (auto simp: is_done_def)
    with u show ?thesis by (auto simp: in_set_conv_nth intro!: exI[where x = u])
  qed
  have new: "x = p' \<or> x \<in> set (cr_ticks s)" if "x \<in> set ((cr_ticks s)[t := p'])" for x
    using that set_update_subset_insert by fastforce
  show ?case
  proof (cases "is_done p'")
    case True
    with l have "p' = Done (cn_lastSummary c)" by (auto simp: is_done_def)
    moreover have "p' \<in> set ((cr_ticks s)[t := p'])" using tick(1) by (simp add: set_update_memI)
    ultimately show ?thesis by (auto simp: last_inv_def list_ex_iff is_done_def)
  next
    case False
    with l have "cn_lastSummary c = cn_lastSummary (cr_cl s)" by (auto simp: is_done_def)
    moreover have "list_ex is_done ((cr_ticks s)[t := p']) \<longleftrightarrow> list_ex is_done (cr_ticks s)"
      using keep new False by (auto simp: list_ex_iff)
    ultimately show ?thesis
      using tick(5) keep by (auto simp: last_inv_def is_done_def)
  qed
qed (simp_all add: last_inv_def)

section \<open>The start\<close>

lemma crace_reach_inv:
  "crace_reach E sp s0 s \<Longrightarrow> sums_inv s0 s0 \<Longrightarrow> (\<forall>t < length (cr_ticks s0). tick_inv s0 t) \<Longrightarrow> last_inv s0 s0
     \<Longrightarrow> sums_inv s0 s \<and> (\<forall>t < length (cr_ticks s). tick_inv s t) \<and> last_inv s0 s"
proof (induction rule: crace_reach.induct)
  case (step s0 s s')
  then show ?case using sums_inv_step[OF step(2)] tick_inv_step[OF step(2)] last_inv_step[OF step(2)] by blast
qed simp

lemma sum_list_zero: "(\<And>x. x \<in> set xs \<Longrightarrow> f x = 0) \<Longrightarrow> sum_list (map f xs) = (0 :: int)"
  by (induction xs) auto

lemma crace_start_inv:
  fixes k :: nat and c :: cleaner and w :: 'w
  defines "s0 \<equiv> crace_start k c w"
  shows "sums_inv s0 s0" "\<forall>t < length (cr_ticks s0). tick_inv s0 t" "last_inv s0 s0"
proof -
  let ?gos = "cr_go (crace_start k c w)"
  have z: "tick_sum t f ?gos = 0" if "f zero_result = 0" for t f
    unfolding tick_sum_def by (rule sum_list_zero) (auto simp: crace_start_def that)
  have y: "pc_total f ?gos = 0" if "f zero_result = 0" for f
    unfolding pc_total_def by (rule sum_list_zero) (auto simp: crace_start_def that)
  have x: "reap_total (cr_ticks (crace_start k c w)) = 0"
    unfolding reap_total_def by (rule sum_list_zero) (simp add: crace_start_def)
  have "list_all (\<lambda>(t, p). pc_ok p) ?gos" by (auto simp: list_all_iff crace_start_def)
  then have "all_pcs pc_ok ?gos" by (auto simp: all_pcs_def list_all_length case_prod_unfold)
  then show "sums_inv s0 s0"
    unfolding s0_def by (simp add: sums_inv_def tick_result_def z y x zero_result_def add_result_def books_up_def)
  show "\<forall>t < length (cr_ticks s0). tick_inv s0 t"
    by (simp add: s0_def tick_inv_def crace_start_def)
  show "last_inv s0 s0"
    by (auto simp: s0_def last_inv_def crace_start_def list_ex_iff is_done_def)
qed

lemma same_ticks: "i < length gos \<Longrightarrow> gos ! i = (t, p) \<Longrightarrow> map fst (gos[i := (t, p')]) = map fst gos"
  by (simp add: map_update list_update_same_conv)

lemma crace_ticks: "crace_reach E sp s0 s \<Longrightarrow> map fst (cr_go s) = map fst (cr_go s0)"
proof (induction rule: crace_reach.induct)
  case (step s0 s s')
  from step(2) have "map fst (cr_go s') = map fst (cr_go s)"
    by (induction rule: crace_step.induct) (simp_all add: same_ticks)
  with step show ?case by simp
qed simp

lemma tick_sum_all:
  "finite T \<Longrightarrow> fst ` set gos \<subseteq> T \<Longrightarrow> (\<Sum>t \<in> T. tick_sum t f gos) = (\<Sum>(t, p) \<leftarrow> gos. f (added p))"
proof (induction gos)
  case (Cons x gos)
  obtain t p where x: "x = (t, p)" by fastforce
  have "(\<Sum>u \<in> T. tick_sum u f (x # gos)) = (\<Sum>u \<in> T. if t = u then f (added p) else 0) + (\<Sum>u \<in> T. tick_sum u f gos)"
    by (simp add: tick_sum_def x sum.distrib)
  with Cons x show ?case by simp
qed (simp add: tick_sum_def)

lemma all_finished_total:
  assumes "all_pcs returned gos"
  shows "pc_total f gos = (\<Sum>(t, p) \<leftarrow> gos. f (added p))"
proof -
  have "so_far p = added p" if m: "(t, p) \<in> set gos" for t p
  proof -
    from m obtain i where "i < length gos" "gos ! i = (t, p)" by (auto simp: in_set_conv_nth)
    from all_pcsD[OF assms this] obtain r where "p = Finished r" by (auto simp: returned_def)
    then show ?thesis by (cases r) simp_all
  qed
  then show ?thesis
    unfolding pc_total_def by (intro arg_cong[where f = sum_list] map_cong) auto
qed

lemma tick_sum_nonneg: "(\<And>t p. (t, p) \<in> set gos \<Longrightarrow> 0 \<le> f (added p)) \<Longrightarrow> 0 \<le> tick_sum t f gos"
  unfolding tick_sum_def by (intro sum_list_nonneg) auto

lemma tick_result_balanced:
  assumes "all_pcs pc_ok gos" shows "balanced (tick_result t gos)"
proof -
  have b: "balanced (added p)" if m: "(u, p) \<in> set gos" for u p
  proof -
    from m obtain i where "i < length gos" "gos ! i = (u, p)" by (auto simp: in_set_conv_nth)
    from all_pcsD[OF assms this] show ?thesis
      by (cases p rule: added.cases) (simp_all add: balanced_def zero_result_def)
  qed
  have "(\<Sum>(t', p) \<leftarrow> gos. if t' = t then rr_found (added p) else 0)
      = (\<Sum>(t', p) \<leftarrow> gos. (if t' = t then rr_deleted (added p) else 0) + (if t' = t then rr_stillStuck (added p) else 0))"
    using b by (intro arg_cong[where f = sum_list] map_cong) (auto simp: balanced_def)
  then have "tick_sum t rr_found gos = tick_sum t rr_deleted gos + tick_sum t rr_stillStuck gos"
    by (simp add: tick_sum_def case_prod_unfold sum_list_addf)
  moreover have "0 \<le> tick_sum t rr_deleted gos" "0 \<le> tick_sum t rr_stillStuck gos"
    "0 \<le> tick_sum t rr_cancelled gos"
    using b by (auto intro!: tick_sum_nonneg simp: balanced_def)
  ultimately show ?thesis by (simp add: balanced_def tick_result_def)
qed

lemma crace_lengths: "crace_reach E sp s0 s \<Longrightarrow> length (cr_ticks s) = length (cr_ticks s0)"
proof (induction rule: crace_reach.induct)
  case (step s0 s s')
  from step(2) have "length (cr_ticks s') = length (cr_ticks s)" by (induction rule: crace_step.induct) simp_all
  with step show ?case by simp
qed simp

lemma all_done_returned:
  assumes "list_all is_done (cr_ticks s)" "\<forall>t < length (cr_ticks s). tick_inv s t"
    and "fst ` set (cr_go s) \<subseteq> {..<length (cr_ticks s)}"
  shows "all_pcs returned (cr_go s)"
  unfolding all_pcs_def
proof (intro allI impI)
  fix i assume i: "i < length (cr_go s)"
  obtain t p where p: "cr_go s ! i = (t, p)" by fastforce
  then have "(t, p) \<in> set (cr_go s)" using i nth_mem by fastforce
  with assms(3) have t: "t < length (cr_ticks s)" by force
  with assms(1) have "cr_ticks s ! t \<noteq> Waiting" by (auto simp: list_all_length is_done_def)
  with assms(2) t have "ready t (cr_go s)" by (auto simp: tick_inv_def)
  with i p show "returned (snd (cr_go s ! i))" by (force simp: ready_def list_all_length)
qed

fun tick_summary :: "tpc \<Rightarrow> Summary" where
  "tick_summary (Done su) = su"
| "tick_summary _ = zero_Summary"

text \<open>
  Claim C23. The numbers of the cleanup ticks are right under any interleaving: however the
  goroutines of any number of ticks mix with each other and with changes of the world, the
  summary of each tick balances, and once all ticks have returned the lifetime totals have
  grown by exactly the sum of what the summaries report and the last summary is one of theirs.
\<close>

theorem cleanup_race_balances:
  assumes "crace_reach E sp (crace_start k c w) s"
  shows "(\<forall>t < k. \<forall>su. cr_ticks s ! t = Done su \<longrightarrow>
      su_Repos su = int (length (cfg_Repos (cn_cfg c)))
      \<and> su_GhostsFound su = su_GhostsDeleted su + su_GhostsStillStuck su
      \<and> 0 \<le> su_GhostsDeleted su \<and> 0 \<le> su_GhostsStillStuck su \<and> 0 \<le> su_RunsCancelled su
      \<and> 0 \<le> su_LocalGhostsReaped su)
    \<and> (list_all is_done (cr_ticks s) \<longrightarrow>
      totalGhostsDeleted (cr_cl s) = totalGhostsDeleted c + of_int (\<Sum>p \<leftarrow> cr_ticks s. su_GhostsDeleted (tick_summary p))
      \<and> totalRunsCancelled (cr_cl s) = totalRunsCancelled c + of_int (\<Sum>p \<leftarrow> cr_ticks s. su_RunsCancelled (tick_summary p))
      \<and> totalLocalGhostsReaped (cr_cl s) = totalLocalGhostsReaped c + of_int (\<Sum>p \<leftarrow> cr_ticks s. su_LocalGhostsReaped (tick_summary p))
      \<and> (0 < k \<longrightarrow> Done (cn_lastSummary (cr_cl s)) \<in> set (cr_ticks s)))"
proof -
  let ?s0 = "crace_start k c w"
  from crace_reach_inv[OF assms crace_start_inv]
  have inv: "sums_inv ?s0 s" "\<forall>t < length (cr_ticks s). tick_inv s t" "last_inv ?s0 s" by simp_all
  have k: "length (cr_ticks s) = k" using crace_lengths[OF assms] by (simp add: crace_start_def)
  have sum: "cr_sum s t = add_result (tick_result t (cr_go s))
      (zero_Summary\<lparr>su_Repos := int (length (cfg_Repos (cn_cfg c)))\<rparr>)" for t
    using inv(1) by (simp add: sums_inv_def crace_start_def)
  have b: "balanced (tick_result t (cr_go s))" for t using inv(1) tick_result_balanced by (simp add: sums_inv_def)
  have d: "reports (cr_sum s t) su" if "t < k" "cr_ticks s ! t = Done su" for t su
    using inv(2) k that by (auto simp: tick_inv_def)
  have one: "\<forall>t < k. \<forall>su. cr_ticks s ! t = Done su \<longrightarrow>
      su_Repos su = int (length (cfg_Repos (cn_cfg c)))
      \<and> su_GhostsFound su = su_GhostsDeleted su + su_GhostsStillStuck su
      \<and> 0 \<le> su_GhostsDeleted su \<and> 0 \<le> su_GhostsStillStuck su \<and> 0 \<le> su_RunsCancelled su
      \<and> 0 \<le> su_LocalGhostsReaped su"
    using d b by (auto simp: reports_def sum add_result_def balanced_def zero_Summary_def)
  show ?thesis
  proof (intro conjI[OF one] impI)
    assume all: "list_all is_done (cr_ticks s)"
    have T: "fst ` set (cr_go s) \<subseteq> {..<k}"
      using arg_cong[OF crace_ticks[OF assms], of set] by (auto simp: crace_start_def)
    have ret: "all_pcs returned (cr_go s)" using all_done_returned[OF all inv(2)] T k by simp
    have tot: "pc_total f (cr_go s) = (\<Sum>t < k. tick_sum t f (cr_go s))" for f
      using tick_sum_all[OF _ T] all_finished_total[OF ret] by simp
    have done_sum: "(\<Sum>p \<leftarrow> cr_ticks s. f (tick_summary p)) = (\<Sum>t < k. f (tick_summary (cr_ticks s ! t)))" for f :: "Summary \<Rightarrow> int"
      unfolding sum_list_sum_nth by (simp add: k atLeast0LessThan)
    have r: "reports (cr_sum s t) (tick_summary (cr_ticks s ! t))" if "t < k" for t
      using all d[OF that] that k by (auto simp: list_all_length is_done_def)
    have eq: "pc_total rr_deleted (cr_go s) = (\<Sum>p \<leftarrow> cr_ticks s. su_GhostsDeleted (tick_summary p))"
      "pc_total rr_cancelled (cr_go s) = (\<Sum>p \<leftarrow> cr_ticks s. su_RunsCancelled (tick_summary p))"
      unfolding tot done_sum using r
      by (auto intro!: sum.cong simp: reports_def sum add_result_def tick_result_def zero_Summary_def)
    have rt: "reap_total (cr_ticks s) = (\<Sum>p \<leftarrow> cr_ticks s. su_LocalGhostsReaped (tick_summary p))"
      unfolding reap_total_def using all
      by (intro arg_cong[where f = sum_list] map_cong) (auto simp: list_all_iff is_done_def)
    have "all_pcs (\<lambda>p. p \<noteq> Crashed) (cr_go s)" using ret by (auto simp: all_pcs_def returned_def)
    with inv(1) have up: "books_up (pc_total rr_deleted (cr_go s)) (pc_total rr_cancelled (cr_go s)) (reap_total (cr_ticks s)) c (cr_cl s)"
      by (simp add: sums_inv_def crace_start_def)
    have last: "Done (cn_lastSummary (cr_cl s)) \<in> set (cr_ticks s)" if "0 < k"
    proof -
      have "list_ex is_done (cr_ticks s)" using all that k by (cases "cr_ticks s") auto
      with inv(3) show ?thesis by (simp add: last_inv_def)
    qed
    from up last show "totalGhostsDeleted (cr_cl s) = totalGhostsDeleted c + of_int (\<Sum>p \<leftarrow> cr_ticks s. su_GhostsDeleted (tick_summary p))
      \<and> totalRunsCancelled (cr_cl s) = totalRunsCancelled c + of_int (\<Sum>p \<leftarrow> cr_ticks s. su_RunsCancelled (tick_summary p))
      \<and> totalLocalGhostsReaped (cr_cl s) = totalLocalGhostsReaped c + of_int (\<Sum>p \<leftarrow> cr_ticks s. su_LocalGhostsReaped (tick_summary p))
      \<and> (0 < k \<longrightarrow> Done (cn_lastSummary (cr_cl s)) \<in> set (cr_ticks s))"
      unfolding eq rt by (simp add: books_up_def)
  qed
qed

section \<open>No deadlock\<close>

fun go_rank :: "cpc \<Rightarrow> nat \<times> nat" where
  "go_rank (Listing repo) = (6, 0)"
| "go_rank (Querying repo gs) = (5, 0)"
| "go_rank (Walking repo gs runs stuck) = (4, length runs)"
| "go_rank (Cancelling repo gs ids r) = (3, length ids)"
| "go_rank (Deleting repo gs r) = (2, length gs)"
| "go_rank (Adding r) = (1, 0)"
| "go_rank _ = (0, 0)"

lemma go_step_rank: "go_step E sp p c w p' c' w' \<Longrightarrow> (go_rank p', go_rank p) \<in> less_than <*lex*> less_than"
  by (induction rule: go_step.induct) auto

lemma go_can_step:
  assumes "\<forall>r. p \<noteq> Adding r" "\<not> returned p" "p \<noteq> Crashed"
  shows "\<exists>p' c' w'. go_step E sp p c w p' c' w'"
proof (cases p)
  case (Listing repo)
  obtain x w1 where l: "listGhostRunners E sp repo w = (x, w1)" by fastforce
  consider e where "x = Inl e" | "x = Inr []" | gs where "x = Inr gs" "gs \<noteq> []"
    by (cases x) auto
  then show ?thesis using l go_step.intros(1-3)[of E sp repo w] unfolding Listing by cases metis+
next
  case (Querying repo gs)
  obtain x w1 where "list_runs E sp repo w = (x, w1)" by fastforce
  then show ?thesis using go_step.intros(4,5)[of E sp repo w] unfolding Querying by (cases x) metis+
next
  case (Walking repo gs runs stuck)
  show ?thesis
  proof (cases runs)
    case Nil
    from go_step.walked[OF refl] show ?thesis unfolding Walking Nil by metis
  next
    case (Cons i ids)
    obtain x w1 where "listStuckJobs E sp repo i w = (x, w1)" by fastforce
    then show ?thesis using go_step.intros(6,7)[of E sp repo i w] unfolding Walking Cons by (cases x) metis+
  qed
next
  case (Cancelling repo gs ids r)
  show ?thesis
  proof (cases ids)
    case Nil
    from go_step.cancelled show ?thesis unfolding Cancelling Nil by metis
  next
    case (Cons i js)
    consider "forceCancelRun E sp repo i w = None" | w1 where "forceCancelRun E sp repo i w = Some (True, w1)"
      | w1 where "forceCancelRun E sp repo i w = Some (False, w1)"
      by (metis (full_types) not_None_eq surj_pair)
    then show ?thesis using go_step.intros(9-11)[of E sp repo i w] unfolding Cancelling Cons by cases metis+
  qed
next
  case (Deleting repo gs r)
  show ?thesis
  proof (cases gs)
    case Nil
    from go_step.deleted show ?thesis unfolding Deleting Nil by metis
  next
    case (Cons g gs')
    consider "deleteRunner E sp repo (gh_id g) w = None" | w1 where "deleteRunner E sp repo (gh_id g) w = Some (True, w1)"
      | w1 where "deleteRunner E sp repo (gh_id g) w = Some (False, w1)"
      by (metis (full_types) not_None_eq surj_pair)
    then show ?thesis using go_step.intros(13-15)[of E sp repo g w] unfolding Deleting Cons by cases metis+
  qed
qed (use assms in \<open>auto simp: returned_def\<close>)

fun tick_rank :: "tpc \<Rightarrow> nat \<times> nat" where
  "tick_rank Waiting = (4, 0)"
| "tick_rank (Registering locals repos reg) = (3, length repos)"
| "tick_rank (Reaping reg grace lcs n) = (2, length lcs)"
| "tick_rank (Loading k su) = (1, 3 - k)"
| "tick_rank (Done su) = (0, 0)"

lemma tick_step_rank: "tick_step E sp su p c w p' c' w' \<Longrightarrow> (tick_rank p', tick_rank p) \<in> less_than <*lex*> less_than"
  by (induction rule: tick_step.induct) auto

lemma tick_can_step:
  assumes "\<not> is_done p" "tick_ok su p"
  shows "\<exists>p' c' w'. tick_step E sp su p c w p' c' w'"
proof (cases p)
  case Waiting
  obtain x w1 where l: "listManagedContainers E w = (x, w1)" by fastforce
  consider e where "x = Inl e" | "x = Inr []" | lcs where "x = Inr lcs" "lcs \<noteq> []" by (cases x) auto
  then show ?thesis using l tick_step.intros(1-3)[of E w] unfolding Waiting by cases metis+
next
  case (Registering locals repos reg)
  show ?thesis
  proof (cases repos)
    case Nil
    from tick_step.registered show ?thesis unfolding Registering Nil by metis
  next
    case (Cons repo repos')
    obtain x w1 where "listAllRunnerNames E sp repo w = (x, w1)" by fastforce
    then show ?thesis using tick_step.intros(4,5)[of E sp repo w] unfolding Registering Cons by (cases x) metis+
  qed
next
  case (Reaping reg grace lcs n)
  show ?thesis
  proof (cases lcs)
    case Nil
    from tick_step.reaped show ?thesis unfolding Reaping Nil by metis
  next
    case (Cons lc lcs')
    obtain b c1 w1 where "reap_one E reg grace lc c w = (b, c1, w1)" by (metis prod.exhaust)
    from tick_step.reap[OF this] show ?thesis unfolding Reaping Cons by metis
  qed
next
  case (Loading k su1)
  with assms(2) have "k = 0 \<or> k = 1 \<or> k = 2 \<or> k = 3" by auto
  with tick_step.load_deleted tick_step.load_cancelled tick_step.load_reaped tick_step.store
  show ?thesis unfolding Loading by metis
next
  case (Done su1)
  with assms(1) show ?thesis by (simp add: is_done_def)
qed

end
