(* ===== verification/Cleanup_Sched.thy ===== *)
theory Cleanup_Sched
  imports Cleanup_Race
begin

text \<open>
  Schedules of the cleanup goroutines. \<open>tickWithSummary\<close>, which takes the repos one after the
  other and then reaps, is one of them, so what holds of every interleaving holds of it. And no
  schedule
  goes on for ever: every step of a goroutine brings it nearer to its return, and with the
  API base the program starts with none of them can crash.
\<close>

section \<open>One after the other\<close>

inductive sched :: "('p \<Rightarrow> cleaner \<Rightarrow> 'w \<Rightarrow> 'p \<Rightarrow> cleaner \<Rightarrow> 'w \<Rightarrow> bool)
    \<Rightarrow> 'p \<Rightarrow> cleaner \<Rightarrow> 'w \<Rightarrow> 'p \<Rightarrow> cleaner \<Rightarrow> 'w \<Rightarrow> bool"
  for R where
  stay: "sched R p c w p c w"
| more: "R p c w p1 c1 w1 \<Longrightarrow> sched R p1 c1 w1 p' c' w' \<Longrightarrow> sched R p c w p' c' w'"

abbreviation go_run :: "'w env \<Rightarrow> spawner \<Rightarrow> cpc \<Rightarrow> cleaner \<Rightarrow> 'w \<Rightarrow> cpc \<Rightarrow> cleaner \<Rightarrow> 'w \<Rightarrow> bool" where
  "go_run E sp \<equiv> sched (go_step E sp)"

abbreviation tick_run :: "'w env \<Rightarrow> spawner \<Rightarrow> Summary \<Rightarrow> tpc \<Rightarrow> cleaner \<Rightarrow> 'w \<Rightarrow> tpc \<Rightarrow> cleaner \<Rightarrow> 'w \<Rightarrow> bool" where
  "tick_run E sp su \<equiv> sched (tick_step E sp su)"

lemma sched_trans: "sched R p c w p1 c1 w1 \<Longrightarrow> sched R p1 c1 w1 p' c' w' \<Longrightarrow> sched R p c w p' c' w'"
  by (induction rule: sched.induct) (auto intro: sched.more)

lemma sched_one: "R p c w p' c' w' \<Longrightarrow> sched R p c w p' c' w'"
  by (rule sched.more[OF _ sched.stay])

lemma sched_last: "sched R p c w p1 c1 w1 \<Longrightarrow> R p1 c1 w1 p' c' w' \<Longrightarrow> sched R p c w p' c' w'"
  by (rule sched_trans[OF _ sched_one])

lemmas go_run_step = sched.more[of "go_step E sp" for E sp]
lemmas go_run_one = sched_one[of "go_step E sp" for E sp]
lemmas go_run_last = sched_last[of "go_step E sp" for E sp]
lemmas tick_run_step = sched.more[of "tick_step E sp su" for E sp su]
lemmas tick_run_one = sched_one[of "tick_step E sp su" for E sp su]
lemmas tick_run_last = sched_last[of "tick_step E sp su" for E sp su]

lemma delete_all_run:
  "delete_all E sp repo gs r c w = Some (r', c', w') \<Longrightarrow> go_run E sp (Deleting repo gs r) c w (Adding r') c' w'"
proof (induction gs arbitrary: r c w)
  case Nil
  then show ?case by (auto intro: sched.intros go_step.deleted)
next
  case (Cons g gs)
  obtain b w1 where f: "deleteRunner E sp repo (gh_id g) w = Some (b, w1)"
    using Cons.prems by (cases "deleteRunner E sp repo (gh_id g) w") auto
  show ?case
  proof (cases b)
    case True
    with f have f': "deleteRunner E sp repo (gh_id g) w = Some (True, w1)" by simp
    note d = go_run_step[OF go_step.delete_yes[OF f']]
    from Cons.prems f' show ?thesis by (auto intro: d Cons.IH)
  next
    case False
    with f have f': "deleteRunner E sp repo (gh_id g) w = Some (False, w1)" by simp
    note d = go_run_step[OF go_step.delete_no[OF f']]
    from Cons.prems f' show ?thesis by (auto intro: d Cons.IH)
  qed
qed

lemma cancel_all_run:
  "cancel_all E sp repo ids r c w = Some (r', c', w')
     \<Longrightarrow> go_run E sp (Cancelling repo gs ids r) c w (Deleting repo gs r') c' w'"
proof (induction ids arbitrary: r c w)
  case Nil
  then show ?case by (auto intro: sched.intros go_step.cancelled)
next
  case (Cons i ids)
  obtain b w1 where f: "forceCancelRun E sp repo i w = Some (b, w1)"
    using Cons.prems by (cases "forceCancelRun E sp repo i w") auto
  show ?case
  proof (cases b)
    case True
    with f have f': "forceCancelRun E sp repo i w = Some (True, w1)" by simp
    note d = go_run_step[OF go_step.cancel_yes[OF f']]
    from Cons.prems f' show ?thesis by (auto intro: d Cons.IH)
  next
    case False
    with f have f': "forceCancelRun E sp repo i w = Some (False, w1)" by simp
    note d = go_run_step[OF go_step.cancel_no[OF f']]
    from Cons.prems f' show ?thesis by (auto intro: d Cons.IH)
  qed
qed

lemma stuck_runs_run:
  "stuck_runs E sp repo (gh_name ` set gs) runs stuck w = (stuck', w')
     \<Longrightarrow> go_run E sp (Walking repo gs runs stuck) c w (Walking repo gs [] stuck') c w'"
proof (induction runs arbitrary: stuck w)
  case Nil
  then show ?case by (auto intro: sched.intros)
next
  case (Cons i runs)
  obtain x w1 where l: "listStuckJobs E sp repo i w = (x, w1)" by fastforce
  show ?case
  proof (cases x)
    case (Inl e)
    with Cons l show ?thesis by (auto intro: go_run_step go_step.walk_failed)
  next
    case (Inr js)
    with Cons.prems l have "stuck_runs E sp repo (gh_name ` set gs) runs
        (if has_ghost_job (gh_name ` set gs) js then List.insert i stuck else stuck) w1 = (stuck', w')" by simp
    from Cons.IH[OF this] go_step.walk[OF l[unfolded Inr]] show ?thesis by (rule go_run_step[rotated])
  qed
qed

lemma runIDsForGhosts_run:
  assumes "runIDsForGhosts E rng sp repo gs w = (x, w')" "\<And>xs. mset (rng xs) = mset xs"
  shows "go_run E sp (Querying repo gs) c w
    (case x of Inl e \<Rightarrow> Deleting repo gs (found_result gs) | Inr ids \<Rightarrow> Cancelling repo gs ids (found_result gs)) c w'"
proof -
  obtain y w1 where l: "list_runs E sp repo w = (y, w1)" by fastforce
  show ?thesis
  proof (cases y)
    case (Inl e)
    with assms(1) l have "w' = w1 \<and> (\<exists>e. x = Inl e)"
      by (auto simp: runIDsForGhosts_def list_runs_def split: prod.splits sum.splits option.splits)
    with go_run_one[OF go_step.query_failed[OF l[unfolded Inl]]] show ?thesis by auto
  next
    case (Inr runs)
    obtain stuck w2 where s: "stuck_runs E sp repo (gh_name ` set gs) runs [] w1 = (stuck, w2)" by fastforce
    with assms(1) l Inr have x: "x = Inr (rng stuck)" "w' = w2"
      by (auto simp: runIDsForGhosts_def list_runs_def split: prod.splits sum.splits option.splits)
    have "go_run E sp (Querying repo gs) c w (Walking repo gs [] stuck) c w2"
      using go_run_step[OF go_step.query[OF l[unfolded Inr]] stuck_runs_run[OF s]] .
    from go_run_last[OF this go_step.walked[OF assms(2)]] x show ?thesis by simp
  qed
qed

lemma cleanupRepo_run:
  assumes "cleanupRepo E rng sp repo c w = Some (x, c', w')" "\<And>xs. mset (rng xs) = mset xs"
  shows "case x of
    Inl e \<Rightarrow> go_run E sp (Listing repo) c w (Finished None) c' (slog E LevelWarn ''cleanup repo failed'' w')
  | Inr r \<Rightarrow> go_run E sp (Listing repo) c w (Adding r) c' w'"
  using assms(1)
proof (cases rule: cleanupRepo_cases)
  case (failed e)
  with go_step.list_failed[OF failed(1)] show ?thesis by (auto intro: sched.intros)
next
  case clean
  with go_step.list_clean[OF clean(1)] show ?thesis by (auto intro: sched.intros)
next
  case (ghosts gs w1 z w2 r1 c1 w3 r2)
  have q: "go_run E sp (Listing repo) c w
      (case z of Inl e \<Rightarrow> Deleting repo gs (found_result gs) | Inr ids \<Rightarrow> Cancelling repo gs ids (found_result gs)) c w2"
    by (rule go_run_step[OF go_step.list_ghosts[OF ghosts(1,2)] runIDsForGhosts_run[OF ghosts(3) assms(2)]])
  have "go_run E sp (Listing repo) c w (Deleting repo gs r1) c1 w3"
  proof (cases z)
    case (Inl e)
    with q ghosts(4) show ?thesis by (simp add: found_result_def)
  next
    case (Inr ids)
    with ghosts(4) have "cancel_all E sp repo ids (found_result gs) c w2 = Some (r1, c1, w3)"
      by (simp add: found_result_def)
    from sched_trans[OF _ cancel_all_run[OF this]] q Inr show ?thesis by simp
  qed
  from sched_trans[OF this delete_all_run[OF ghosts(5)]] ghosts(6) show ?thesis by simp
qed

lemma go_run_reach:
  assumes "go_run E sp p c w p' c' w'"
  shows "crace_reach E sp s0 s \<Longrightarrow> i < length (cr_go s) \<Longrightarrow> cr_go s ! i = (t, p) \<Longrightarrow> cr_cl s = c \<Longrightarrow> cr_world s = w
    \<Longrightarrow> crace_reach E sp s0 (s\<lparr>cr_cl := c', cr_world := w', cr_go := (cr_go s)[i := (t, p')]\<rparr>)"
  using assms
proof (induction arbitrary: s rule: sched.induct)
  case (stay p c w)
  then have "s\<lparr>cr_cl := c, cr_world := w, cr_go := (cr_go s)[i := (t, p)]\<rparr> = s"
    by (cases s) (auto simp: list_update_same_conv)
  with stay show ?case by simp
next
  case (more p c w p1 c1 w1 p' c' w')
  let ?s = "s\<lparr>cr_cl := c1, cr_world := w1, cr_go := (cr_go s)[i := (t, p1)]\<rparr>"
  have "crace_step E sp s ?s"
    using crace_step.go[OF more(5,6), of E sp p1 c1 w1] more(1,7,8) by simp
  from crace_reach.step[OF more(4) this] have "crace_reach E sp s0 ?s" .
  from more(3)[OF this] more(5) show ?case by simp
qed

text \<open>The repos of a tick, taken in any order: each goroutine runs to its end before the next.\<close>

definition pending :: "(nat \<times> cpc) list \<Rightarrow> (nat \<times> cpc) multiset" where
  "pending gos = filter_mset (\<lambda>g. \<not> returned (snd g)) (mset gos)"

lemma pending_set:
  assumes "i < length gos" "gos ! i = (t, p)" "\<not> returned p" "returned p'"
  shows "pending (gos[i := (t, p')]) = pending gos - {#(t, p)#}"
  using assms by (simp add: pending_def mset_update)

lemma cleanup_all_reach:
  assumes "\<And>xs. mset (rng xs) = mset xs"
  shows "cleanup_all E rng sp repos su c w = Some (su', c', w') \<Longrightarrow> crace_reach E sp s0 s
    \<Longrightarrow> pending (cr_go s) = mset (map (\<lambda>repo. (t, Listing repo)) repos) \<Longrightarrow> cr_cl s = c \<Longrightarrow> cr_world s = w \<Longrightarrow> cr_sum s t = su
    \<Longrightarrow> \<exists>s'. crace_reach E sp s0 s' \<and> pending (cr_go s') = {#} \<and> cr_cl s' = c' \<and> cr_world s' = w'
          \<and> cr_sum s' t = su' \<and> cr_ticks s' = cr_ticks s"
proof (induction repos arbitrary: su c w s)
  case Nil
  then show ?case by (intro exI[where x = s]) auto
next
  case (Cons repo repos)
  obtain x c1 w1 where k: "cleanupRepo E rng sp repo c w = Some (x, c1, w1)"
    using Cons.prems(1) by (cases "cleanupRepo E rng sp repo c w") auto
  note r = cleanupRepo_run[OF k assms]
  have "(t, Listing repo) \<in># pending (cr_go s)" by (simp add: Cons.prems(3))
  then have "(t, Listing repo) \<in> set (cr_go s)" by (simp add: pending_def)
  then obtain i where i: "i < length (cr_go s)" "cr_go s ! i = (t, Listing repo)" by (auto simp: in_set_conv_nth)
  have p: "pending ((cr_go s)[i := (t, Finished y)]) = mset (map (\<lambda>repo. (t, Listing repo)) repos)" for y
    using pending_set[OF i] Cons.prems(3) by (simp add: returned_def)
  let ?w = "slog E LevelWarn ''cleanup repo failed'' w1"
  show ?case
  proof (cases x)
    case (Inl e)
    with r have g: "go_run E sp (Listing repo) c w (Finished None) c1 ?w" by simp
    from go_run_reach[OF g Cons.prems(2) i Cons.prems(4,5)]
    have "crace_reach E sp s0 (s\<lparr>cr_cl := c1, cr_world := ?w, cr_go := (cr_go s)[i := (t, Finished None)]\<rparr>)" .
    from Cons.IH[OF _ this, of su c1 ?w] Cons.prems k Inl p show ?thesis by simp
  next
    case (Inr rr)
    with r have g: "go_run E sp (Listing repo) c w (Adding rr) c1 w1" by simp
    let ?s = "s\<lparr>cr_cl := c1, cr_world := w1, cr_go := (cr_go s)[i := (t, Adding rr)]\<rparr>"
    from go_run_reach[OF g Cons.prems(2) i Cons.prems(4,5)] have s: "crace_reach E sp s0 ?s" .
    have "crace_step E sp ?s (?s\<lparr>cr_sum := (cr_sum ?s)(t := add_result rr (cr_sum ?s t)),
        cr_go := (cr_go ?s)[i := (t, Finished (Some rr))]\<rparr>)"
      using i by (intro crace_step.add) simp_all
    from Cons.IH[OF _ crace_reach.step[OF s this], of "add_result rr su" c1 w1] Cons.prems k Inr p show ?thesis
      by simp
  qed
qed

text \<open>What follows the \<open>WaitGroup\<close>.\<close>

lemma registered_names_run:
  "registered_names E sp repos reg w = (reg', w') \<Longrightarrow>
     tick_run E sp su (Registering locals repos reg) c w (Registering locals [] reg') c w'"
proof (induction repos arbitrary: reg w)
  case Nil
  then show ?case by (auto intro: sched.intros)
next
  case (Cons repo repos)
  obtain x w1 where l: "listAllRunnerNames E sp repo w = (x, w1)" by fastforce
  show ?case
  proof (cases x)
    case (Inl e)
    with Cons.prems l have "registered_names E sp repos reg (slog E LevelWarn
      ''local reap: list runners failed; skipping repo to avoid false positives'' w1) = (reg', w')" by simp
    from Cons.IH[OF this] tick_step.names_failed[OF l[unfolded Inl]] show ?thesis by (rule tick_run_step[rotated])
  next
    case (Inr ns)
    with Cons.prems l have "registered_names E sp repos (reg(rc_Name repo \<mapsto> set ns)) w1 = (reg', w')" by simp
    from Cons.IH[OF this] tick_step.names[OF l[unfolded Inr]] show ?thesis by (rule tick_run_step[rotated])
  qed
qed

lemma reap_all_run:
  "reap_all E reg grace lcs n c w = (m, c', w') \<Longrightarrow>
     tick_run E sp su (Reaping reg grace lcs n) c w (Reaping reg grace [] m) c' w'"
proof (induction lcs arbitrary: n c w)
  case Nil
  then show ?case by (auto intro: sched.intros)
next
  case (Cons lc lcs)
  obtain b c1 w1 where r: "reap_one E reg grace lc c w = (b, c1, w1)" by (metis prod.exhaust)
  with Cons.prems have "reap_all E reg grace lcs (if b then n + 1 else n) c1 w1 = (m, c', w')" by simp
  from Cons.IH[OF this] tick_step.reap[OF r] show ?case by (rule tick_run_step[rotated])
qed

lemma reapLocalGhosts_run:
  assumes "reapLocalGhosts E sp c w = (n, c', w')"
  shows "tick_run E sp su Waiting c w (Loading 0 (set_reaped n su)) c' w'"
proof -
  obtain y w1 where l: "listManagedContainers E w = (y, w1)" by fastforce
  show ?thesis
  proof (cases y)
    case (Inl e)
    with assms l tick_run_one[OF tick_step.locals_failed[OF l[unfolded Inl]]] show ?thesis
      by (auto simp: reapLocalGhosts_def)
  next
    case (Inr locals)
    show ?thesis
    proof (cases "locals = []")
      case True
      with l Inr have "listManagedContainers E w = (Inr [], w1)" by simp
      from assms l Inr True tick_run_one[OF tick_step.locals_none[OF this]] show ?thesis
        by (auto simp: reapLocalGhosts_def)
    next
      case False
      obtain reg w2 where g: "registered_names E sp (cfg_Repos (cn_cfg c)) Map.empty w1 = (reg, w2)" by fastforce
      with assms l Inr False have r: "reap_all E reg (grace_of c) locals 0 c w2 = (n, c', w')"
        by (simp add: reapLocalGhosts_def)
      note tick_step.locals_some[OF l[unfolded Inr] False]
      from tick_run_step[OF this registered_names_run[OF g]]
      have "tick_run E sp su Waiting c w (Registering locals [] reg) c w2" .
      from tick_run_last[OF this tick_step.registered]
      have "tick_run E sp su Waiting c w (Reaping reg (grace_of c) locals 0) c w2" .
      from sched_trans[OF this reap_all_run[OF r]]
      have "tick_run E sp su Waiting c w (Reaping reg (grace_of c) [] n) c' w'" .
      from tick_run_last[OF this tick_step.reaped] show ?thesis .
    qed
  qed
qed

lemma finish_tick_run:
  assumes "finish_tick E sp su c w = (su', c', w')"
  shows "tick_run E sp su Waiting c w (Done su') c' w'"
proof -
  obtain n c2 w2 where r: "reapLocalGhosts E sp c w = (n, c2, w2)" by (metis prod.exhaust)
  let ?su1 = "set_reaped n su"
  let ?su2 = "?su1\<lparr>su_TotalGhostsDeleted := totalGhostsDeleted c2\<rparr>"
  let ?su3 = "?su2\<lparr>su_TotalRunsCancelled := totalRunsCancelled c2\<rparr>"
  let ?su4 = "?su3\<lparr>su_TotalLocalGhostsReaped := totalLocalGhostsReaped c2\<rparr>"
  note k = reapLocalGhosts_run[OF r, of su]
  note k = tick_run_last[OF k tick_step.load_deleted]
  note k = tick_run_last[OF k tick_step.load_cancelled]
  note k = tick_run_last[OF k tick_step.load_reaped]
  note k = tick_run_last[OF k tick_step.store]
  from assms r have "su' = ?su4" "c' = c2\<lparr>cn_lastSummary := ?su4\<rparr>"
    "w' = (if 0 < su_GhostsFound ?su4 \<or> 0 < su_GhostsDeleted ?su4 \<or> 0 < su_LocalGhostsReaped ?su4
      then slog E LevelInfo ''cleanup tick complete'' w2 else w2)"
    by (auto simp: finish_tick_def Let_def set_reaped_def)
  with k show ?thesis by simp
qed

lemma tick_run_reach:
  assumes "tick_run E sp su p c w p' c' w'"
  shows "crace_reach E sp s0 s \<Longrightarrow> t < length (cr_ticks s) \<Longrightarrow> cr_ticks s ! t = p \<Longrightarrow> ready t (cr_go s) \<Longrightarrow> cr_sum s t = su
    \<Longrightarrow> cr_cl s = c \<Longrightarrow> cr_world s = w
    \<Longrightarrow> crace_reach E sp s0 (s\<lparr>cr_cl := c', cr_world := w', cr_ticks := (cr_ticks s)[t := p']\<rparr>)"
  using assms
proof (induction arbitrary: s rule: sched.induct)
  case (stay p c w)
  then have "s\<lparr>cr_cl := c, cr_world := w, cr_ticks := (cr_ticks s)[t := p]\<rparr> = s"
    by (cases s) (auto simp: list_update_same_conv)
  with stay show ?case by simp
next
  case (more p c w p1 c1 w1 p' c' w')
  let ?s = "s\<lparr>cr_cl := c1, cr_world := w1, cr_ticks := (cr_ticks s)[t := p1]\<rparr>"
  have "crace_step E sp s ?s"
    using crace_step.tick[OF more(5,6), of E sp p1 c1 w1] more(1,7-10) by simp
  from crace_reach.step[OF more(4) this] have "crace_reach E sp s0 ?s" .
  from more(3)[OF this] more(5,7,8) show ?case by simp
qed

lemma sequential_schedule:
  assumes "sp_apiBase sp = sp_apiBase (New pat img dry)"
    and "\<forall>xs. mset (rng xs) = mset xs" and "\<forall>rs. mset (order rs) = mset rs"
  shows "\<exists>s su. crace_reach E sp (crace_start 1 c w) s \<and> cr_ticks s = [Done su]
    \<and> tickWithSummary E rng order sp c w = Some (su, cr_cl s, cr_world s)"
proof -
  let ?repos = "order (cfg_Repos (cn_cfg c))"
  let ?s0 = "crace_start 1 c w"
  let ?su = "zero_Summary\<lparr>su_Repos := int (length (cfg_Repos (cn_cfg c)))\<rparr>"
  have base: "sp_apiBase sp = defaultAPIBase"
    using assms(1) by (simp add: New_def NewWithDeps_def defaultAPIBase_def)
  obtain su1 c1 w1 where a: "cleanup_all E rng sp ?repos ?su c w = Some (su1, c1, w1)"
    using cleanup_all_total[OF base, of E rng ?repos ?su c w] by (elim exE)
  have perm: "\<And>xs. mset (rng xs) = mset xs" using assms(2) by blast
  have "pending (cr_go ?s0) = mset (map (\<lambda>repo. (0, Listing repo)) (cfg_Repos (cn_cfg c)))"
    by (auto simp: pending_def crace_start_def returned_def filter_mset_eq_conv)
  also have "\<dots> = mset (map (\<lambda>repo. (0, Listing repo)) ?repos)" using assms(3) by simp
  finally have s0: "pending (cr_go ?s0) = mset (map (\<lambda>repo. (0, Listing repo)) ?repos)"
    "cr_cl ?s0 = c" "cr_world ?s0 = w" "cr_sum ?s0 0 = ?su"
    by (simp_all add: crace_start_def)
  from cleanup_all_reach[OF perm a crace_reach.start s0] obtain s where
    s: "crace_reach E sp ?s0 s" "pending (cr_go s) = {#}" "cr_cl s = c1" "cr_world s = w1"
      "cr_sum s 0 = su1" "cr_ticks s = cr_ticks ?s0" by (elim exE conjE)
  from s(2) have r: "ready 0 (cr_go s)" by (force simp: pending_def ready_def list_all_iff filter_mset_eq_conv)
  obtain su c' w' where f: "finish_tick E sp su1 c1 w1 = (su, c', w')" by (metis prod.exhaust)
  from tick_run_reach[OF finish_tick_run[OF f] s(1), of 0] r s(3-6)
  have "crace_reach E sp ?s0 (s\<lparr>cr_cl := c', cr_world := w', cr_ticks := [Done su]\<rparr>)"
    by (simp add: crace_start_def)
  with a f show ?thesis
    by (intro exI[where x = "s\<lparr>cr_cl := c', cr_world := w', cr_ticks := [Done su]\<rparr>"] exI[where x = su])
       (simp add: tickWithSummary_def)
qed

text \<open>
  Claim C25. The tick the code runs in parallel contains the sequential one: taking the repos
  one after the other, in any order, and then reaping is one schedule of the goroutines of a
  tick, and \<open>tickWithSummary\<close> gives the summary, the totals and the world of that schedule.
\<close>

theorem tick_is_schedule:
  assumes "sp_apiBase sp = sp_apiBase (New pat img dry)"
    and "\<forall>xs. mset (rng xs) = mset xs" and "\<forall>rs. mset (order rs) = mset rs"
  shows "\<exists>s su. crace_reach E sp (crace_start 1 c w) s \<and> cr_ticks s = [Done su]
    \<and> tickWithSummary E rng order sp c w = Some (su, cr_cl s, cr_world s)"
  by (rule sequential_schedule[OF assms])

theorem tick_is_schedule_witness:
  "\<exists>s su. crace_reach (sim_env (sim_github (runners_table one_runner))) web_spawner
       (crace_start 1 (cn_New web_config) (sim_start [])) s \<and> cr_ticks s = [Done su]
    \<and> tickWithSummary (sim_env (sim_github (runners_table one_runner))) rev rev web_spawner (cn_New web_config) (sim_start [])
        = Some (su, cr_cl s, cr_world s)"
  by (rule tick_is_schedule[where pat = "''ghp_x''" and img = "''runner:1''" and dry = False
        and E = "sim_env (sim_github (runners_table one_runner))" and rng = rev and order = rev
        and c = "cn_New web_config" and w = "sim_start []"])
     (simp_all add: web_spawner_def)

theorem cleanup_race_balances_witness:
  "\<exists>s su. crace_reach (sim_env (sim_github (runners_table one_runner))) web_spawner
         (crace_start 1 (cn_New web_config) (sim_start [web_container])) s \<and> cr_ticks s = [Done su]
     \<and> su_GhostsFound su = su_GhostsDeleted su + su_GhostsStillStuck su
     \<and> totalLocalGhostsReaped (cr_cl s) = totalLocalGhostsReaped (cn_New web_config) + of_int (su_LocalGhostsReaped su)
     \<and> cn_lastSummary (cr_cl s) = su"
proof -
  let ?E = "sim_env (sim_github (runners_table one_runner))" and ?c = "cn_New web_config" and ?w = "sim_start [web_container]"
  have b: "sp_apiBase web_spawner = sp_apiBase (New ''ghp_x'' ''runner:1'' False)" by (simp add: web_spawner_def)
  have r: "\<forall>xs. mset (rev xs) = mset xs" "\<forall>rs. mset (rev rs) = mset rs" by simp_all
  obtain s su where s: "crace_reach ?E web_spawner (crace_start 1 ?c ?w) s" "cr_ticks s = [Done su]"
    using sequential_schedule[OF b r, of ?E ?c ?w] by (elim exE conjE)
  from cleanup_race_balances[OF s(1)] s show ?thesis
    by (intro exI[where x = s] exI[where x = su]) (simp add: is_done_def)
qed

section \<open>Every schedule ends\<close>

definition rank_less :: "((nat \<times> nat) multiset \<times> (nat \<times> nat) multiset) set" where
  "rank_less = mult (less_than <*lex*> less_than)"

definition race_rank :: "(nat \<times> cpc) list \<times> tpc list \<Rightarrow> (nat \<times> nat) multiset" where
  "race_rank = (\<lambda>(gos, ticks). mset (map (go_rank \<circ> snd) gos) + mset (map tick_rank ticks))"

definition progress :: "'w crace \<Rightarrow> (nat \<times> cpc) list \<times> tpc list" where
  "progress s = (cr_go s, cr_ticks s)"

lemma rank_less_wf: "wf rank_less"
  unfolding rank_less_def by (intro wf_mult wf_lex_prod wf_less_than)

lemma rank_less_trans: "trans rank_less"
  unfolding rank_less_def by (rule trans_mult) (auto intro!: trans_lex_prod)

lemma rank_set:
  assumes "i < length xs" "(f y, f (xs ! i)) \<in> less_than <*lex*> less_than"
  shows "(mset (map f (xs[i := y])) + M, mset (map f xs) + M) \<in> rank_less"
proof -
  let ?I = "mset (map f xs) - {#f (xs ! i)#} + M"
  have "f (xs ! i) \<in># mset (map f xs)" using assms(1) by auto
  then have eq: "mset (map f (xs[i := y])) + M = ?I + {#f y#}" "mset (map f xs) + M = ?I + {#f (xs ! i)#}"
    using assms(1) by (simp_all add: map_update mset_update)
  show ?thesis
    unfolding eq rank_less_def using assms(2) by (intro one_step_implies_mult) auto
qed

lemma crace_step_rank:
  assumes "crace_step E sp s s'"
  shows "progress s' = progress s \<or> (race_rank (progress s'), race_rank (progress s)) \<in> rank_less"
  using assms
proof (induction rule: crace_step.induct)
  case (go i s t p p' c w)
  from rank_set[OF go(1), of "go_rank \<circ> snd" "(t, p')"] go_step_rank[OF go(3)] go(2)
  show ?case by (simp add: progress_def race_rank_def)
next
  case (add i s t r)
  from rank_set[OF add(1), of "go_rank \<circ> snd" "(t, Finished (Some r))"] add(2)
  show ?case by (simp add: progress_def race_rank_def)
next
  case (tick t s p p' c w)
  from rank_set[OF tick(1), of tick_rank p' "mset (map (go_rank \<circ> snd) (cr_go s))"] tick_step_rank[OF tick(4)] tick(2)
  show ?case by (simp add: progress_def race_rank_def add.commute)
next
  case (environment s w)
  then show ?case by (simp add: progress_def)
qed

lemma descent_stops:
  assumes "wf R" "trans R"
    and "\<And>n. g (Suc n) = g n \<or> (h (g (Suc n)), h (g n)) \<in> R"
  shows "\<exists>n. \<forall>m \<ge> n. g m = g n"
proof -
  obtain z where z: "z \<in> range (\<lambda>n. h (g n))" "\<And>y. (y, z) \<in> R \<Longrightarrow> y \<notin> range (\<lambda>n. h (g n))"
    by (rule wfE_min[OF assms(1), of "h (g 0)" "range (\<lambda>n. h (g n))"]) auto
  then obtain n where "z = h (g n)" by auto
  with z(2) have n: "(h (g m), h (g n)) \<notin> R" for m by blast
  have "g m = g n \<or> (h (g m), h (g n)) \<in> R" if "n \<le> m" for m
    using that
  proof (induction m rule: dec_induct)
    case (step m)
    with assms(3)[of m] show ?case using transD[OF assms(2)] by metis
  qed simp
  with n show ?thesis by blast
qed

text \<open>No goroutine crashes with the base the program starts with.\<close>

fun pc_urls :: "cpc \<Rightarrow> bool" where
  "pc_urls (Querying repo gs) = urls_parse repo"
| "pc_urls (Walking repo gs runs stuck) = urls_parse repo"
| "pc_urls (Cancelling repo gs ids r) = urls_parse repo"
| "pc_urls (Deleting repo gs r) = urls_parse repo"
| "pc_urls Crashed = False"
| "pc_urls _ = True"

lemma go_step_urls:
  assumes "go_step E sp p c w p' c' w'" "sp_apiBase sp = defaultAPIBase" "pc_urls p"
  shows "pc_urls p'"
  using assms
proof (induction rule: go_step.induct)
  case (list_ghosts repo w gs w1 c)
  then show ?case by (auto dest: listGhostRunners_url)
next
  case (cancel_crash repo i w gs ids r c)
  with sends_total(1)[of sp repo E i w] show ?case by simp
next
  case (delete_crash repo g w gs r c)
  with sends_total(2)[of sp repo E "gh_id g" w] show ?case by simp
qed auto

lemma crace_step_urls:
  assumes "crace_step E sp s s'" "sp_apiBase sp = defaultAPIBase" "all_pcs pc_urls (cr_go s)"
  shows "all_pcs pc_urls (cr_go s')"
  using assms
  by (induction rule: crace_step.induct) (auto intro!: all_pcs_set dest: all_pcsD intro: go_step_urls)

lemma goroutine_can_step:
  assumes "i < length (cr_go s)" "cr_go s ! i = (t, p)" "\<not> returned p" "p \<noteq> Crashed"
  shows "\<exists>s'. crace_step E sp s s' \<and> cr_go s' ! i \<noteq> cr_go s ! i"
proof (cases "\<exists>r. p = Adding r")
  case True
  then obtain r where "p = Adding r" ..
  with assms(2) have p: "cr_go s ! i = (t, Adding r)" by simp
  from crace_step.add[OF assms(1) p, of E sp] assms(1) p show ?thesis
    by (intro exI conjI) (assumption, simp)
next
  case False
  then obtain p' c' w' where g: "go_step E sp p (cr_cl s) (cr_world s) p' c' w'"
    using go_can_step[of p E sp "cr_cl s" "cr_world s"] assms(3,4) by blast
  have "p' \<noteq> p" using go_step_rank[OF g] by (cases "go_rank p") auto
  with crace_step.go[OF assms(1,2) g] assms(1,2) show ?thesis
    by (intro exI conjI) (assumption, simp)
qed

lemma waiting_can_step:
  assumes "t < length (cr_ticks s)" "\<not> is_done (cr_ticks s ! t)" "ready t (cr_go s)" "tick_inv s t"
  shows "\<exists>s'. crace_step E sp s s' \<and> cr_ticks s' ! t \<noteq> cr_ticks s ! t"
proof -
  obtain p' c' w' where g: "tick_step E sp (cr_sum s t) (cr_ticks s ! t) (cr_cl s) (cr_world s) p' c' w'"
    using tick_can_step[OF assms(2), where su = "cr_sum s t" and E = E and sp = sp and c = "cr_cl s" and w = "cr_world s"]
      assms(4) unfolding tick_inv_def by blast
  have "p' \<noteq> cr_ticks s ! t" using tick_step_rank[OF g] by (cases "tick_rank (cr_ticks s ! t)") auto
  with crace_step.tick[OF assms(1) refl _ g] assms(1,3) show ?thesis
    by (intro exI conjI) (blast, simp)
qed

text \<open>
  Claim C24. Every cleanup tick ends: in every run of its goroutines, whatever else happens to
  the world in between, no goroutine crashes, one that has not returned can always take its
  next step, a tick whose goroutines have returned can always go on, and if the scheduler lets
  some goroutine move as long as a tick is not done, all ticks get done.
\<close>

theorem cleanup_race_ends:
  assumes "sp_apiBase sp = sp_apiBase (New pat img dry)"
    and "f 0 = crace_start k c w" and "\<forall>n. crace_step E sp (f n) (f (Suc n))"
    and "\<forall>n. \<not> list_all is_done (cr_ticks (f n)) \<longrightarrow> (\<exists>m > n. progress (f m) \<noteq> progress (f n))"
  shows "(\<forall>n i. i < length (cr_go (f n)) \<longrightarrow> snd (cr_go (f n) ! i) \<noteq> Crashed \<and>
           (returned (snd (cr_go (f n) ! i)) \<or> (\<exists>s. crace_step E sp (f n) s \<and> cr_go s ! i \<noteq> cr_go (f n) ! i)))
    \<and> (\<forall>n t. t < k \<longrightarrow> ready t (cr_go (f n)) \<longrightarrow>
           is_done (cr_ticks (f n) ! t) \<or> (\<exists>s. crace_step E sp (f n) s \<and> cr_ticks s ! t \<noteq> cr_ticks (f n) ! t))
    \<and> (\<exists>n. \<forall>m \<ge> n. list_all is_done (cr_ticks (f m)))"
proof -
  have base: "sp_apiBase sp = defaultAPIBase"
    using assms(1) by (simp add: New_def NewWithDeps_def defaultAPIBase_def)
  have u: "all_pcs pc_urls (cr_go (f n))" for n
  proof (induction n)
    case 0
    have "list_all (\<lambda>(t, p). pc_urls p) (cr_go (f 0))" by (auto simp: assms(2) list_all_iff crace_start_def)
    then show ?case by (auto simp: all_pcs_def list_all_length case_prod_unfold)
  next
    case (Suc n)
    with crace_step_urls[OF _ base] assms(3) show ?case by blast
  qed
  have r: "crace_reach E sp (crace_start k c w) (f n)" for n
    by (induction n) (use assms(2,3) in \<open>auto intro: crace_reach.intros\<close>)
  have len: "length (cr_ticks (f n)) = k" for n using crace_lengths[OF r] by (simp add: crace_start_def)
  have tk: "tick_inv (f n) t" if "t < k" for n t
    using crace_reach_inv[OF r crace_start_inv] that len by simp
  have A: "snd (cr_go (f n) ! i) \<noteq> Crashed \<and> (returned (snd (cr_go (f n) ! i))
      \<or> (\<exists>s. crace_step E sp (f n) s \<and> cr_go s ! i \<noteq> cr_go (f n) ! i))" if i: "i < length (cr_go (f n))" for n i
  proof -
    obtain t p where p: "cr_go (f n) ! i = (t, p)" by fastforce
    from all_pcsD[OF u i p] have "p \<noteq> Crashed" by auto
    with goroutine_can_step[OF i p, of E sp] p show ?thesis by auto
  qed
  have B: "is_done (cr_ticks (f n) ! t) \<or> (\<exists>s. crace_step E sp (f n) s \<and> cr_ticks s ! t \<noteq> cr_ticks (f n) ! t)"
    if "t < k" "ready t (cr_go (f n))" for n t
    using waiting_can_step[of t "f n" E sp] that tk len by auto
  have C: "\<exists>n. \<forall>m \<ge> n. list_all is_done (cr_ticks (f m))"
  proof -
    obtain n where n: "\<forall>m \<ge> n. progress (f m) = progress (f n)"
      using descent_stops[of rank_less "\<lambda>n. progress (f n)" race_rank, OF rank_less_wf rank_less_trans]
        crace_step_rank assms(3) by blast
    have d: "list_all is_done (cr_ticks (f n))"
    proof (rule ccontr)
      assume "\<not> list_all is_done (cr_ticks (f n))"
      with assms(4) obtain m where "m > n" "progress (f m) \<noteq> progress (f n)" by blast
      with n show False using less_imp_le by blast
    qed
    show ?thesis
    proof (intro exI allI impI)
      fix m assume "n \<le> m"
      with n have "progress (f m) = progress (f n)" by blast
      with d show "list_all is_done (cr_ticks (f m))" by (simp add: progress_def)
    qed
  qed
  from A B C show ?thesis by (intro conjI allI impI) simp_all
qed

text \<open>A finite schedule, followed by a world that stays as it is, is such a run.\<close>

lemma crace_path:
  "crace_reach E sp s0 s \<Longrightarrow> \<exists>f N. f 0 = s0 \<and> (\<forall>n \<ge> N. f n = s) \<and> (\<forall>n. crace_step E sp (f n) (f (Suc n)))"
proof (induction rule: crace_reach.induct)
  case (start s)
  have "crace_step E sp s s" using crace_step.environment[of E sp s "cr_world s"] by simp
  then show ?case by (intro exI[where x = "\<lambda>n. s"]) simp
next
  case (step s0 s s')
  then obtain f N where f: "f 0 = s0" "\<forall>n \<ge> N. f n = s" "\<forall>n. crace_step E sp (f n) (f (Suc n))" by blast
  have stay: "crace_step E sp s' s'" using crace_step.environment[of E sp s' "cr_world s'"] by simp
  let ?f = "\<lambda>n. if n \<le> N then f n else s'"
  have "crace_step E sp (?f n) (?f (Suc n))" for n
  proof (cases "Suc n \<le> N")
    case True
    with f(3) show ?thesis by simp
  next
    case False
    with f(2) step(2) stay show ?thesis by (cases "n = N") auto
  qed
  with f(1) show ?case by (intro exI[where x = ?f] exI[where x = "Suc N"]) simp
qed

theorem cleanup_race_ends_witness:
  "\<exists>f. f 0 = crace_start 1 (cn_New web_config) (sim_start [web_container])
    \<and> (\<forall>n. crace_step (sim_env (sim_github (runners_table one_runner))) web_spawner (f n) (f (Suc n)))
    \<and> (\<exists>n. \<forall>m \<ge> n. list_all is_done (cr_ticks (f m)))"
proof -
  let ?E = "sim_env (sim_github (runners_table one_runner))" and ?c = "cn_New web_config" and ?w = "sim_start [web_container]"
  have b: "sp_apiBase web_spawner = sp_apiBase (New ''ghp_x'' ''runner:1'' False)" by (simp add: web_spawner_def)
  have r: "\<forall>xs. mset (rev xs) = mset xs" "\<forall>rs. mset (rev rs) = mset rs" by simp_all
  obtain s su where s: "crace_reach ?E web_spawner (crace_start 1 ?c ?w) s" "cr_ticks s = [Done su]"
    using sequential_schedule[OF b r, of ?E ?c ?w] by (elim exE conjE)
  from crace_path[OF s(1)] obtain f N where
    f: "f 0 = crace_start 1 ?c ?w" "\<forall>n \<ge> N. f n = s" "\<forall>n. crace_step ?E web_spawner (f n) (f (Suc n))"
    by (elim exE conjE)
  have d: "list_all is_done (cr_ticks s)" using s(2) by (simp add: is_done_def)
  have fair: "\<forall>n. \<not> list_all is_done (cr_ticks (f n)) \<longrightarrow> (\<exists>m > n. progress (f m) \<noteq> progress (f n))"
  proof (intro allI impI)
    fix n assume n: "\<not> list_all is_done (cr_ticks (f n))"
    with d f(2) have "progress (f (Suc (n + N))) \<noteq> progress (f n)" by (auto simp: progress_def)
    then show "\<exists>m > n. progress (f m) \<noteq> progress (f n)" by (intro exI[where x = "Suc (n + N)"]) simp
  qed
  from cleanup_race_ends[OF b f(1,3) fair] f(1,3) show ?thesis by blast
qed

end
