(* ===== verification/Spec2Isabelle.thy ===== *)
theory Spec2Isabelle
  imports Program Cleanup_GitHub Cleanup_Sched
begin

text \<open>
  A verification development for the GitHub Actions runner autoscaler (the Go program under
  \<open>cmd/\<close> and \<open>internal/\<close>). The autoscaler starts one ephemeral docker container per queued
  job: the job is announced by a webhook that reaches the program through a smee.io event
  stream, or it is found by a periodic reconciliation against the GitHub API. A cleaner
  removes what is left behind, and a portal shows the state and takes commands. The parts
  share one spawner (\<open>internal/spawner\<close>), which enforces each repo's concurrency cap.

  \<^bold>\<open>The world.\<close> Everything the program reaches outside itself (the docker binary, the HTTP
  client, temporary files, randomness, the clock, the log) is a field of the record \<open>env\<close> of
  the theory World: a function from the world to a result and the next world. A theorem
  holds for every such environment, under the named laws of a locale where it needs any:
  \<open>docker_host\<close> (what \<open>docker ps\<close>, \<open>inspect\<close> and \<open>run\<close> say and do to the running containers),
  \<open>docker_ops\<close> (the cleaner's and the portal's docker commands start nothing), \<open>temp_files\<close>
  and \<open>tidy_temp_files\<close> (temporary files), \<open>removal_log\<close> (a record of \<open>docker rm -f\<close>),
  \<open>frame_env\<close> (a part of the world no call touches). Sim_World is a concrete world: a daemon
  with containers, a file system and GitHub as a function. Every locale is interpreted on it or
  on the code's own definitions, and the witnesses run the code in it.

  \<^bold>\<open>Theories and code.\<close>

  \<^item> Prelude: error values, the early-return combinators, shared lemmas.
  \<^item> Go_Strings, Go_Json, Json_Text, Json_Encode, Json_Doc, Json_Sim, Go_Crypto, Go_Url, Go_Time, Go_Http: what the code
    uses of Go's \<open>strings\<close>, \<open>encoding/hex\<close>, \<open>encoding/json\<close>, \<open>crypto/hmac\<close> and \<open>sha256\<close>,
    \<open>net/url\<close>, \<open>time\<close> and \<open>net/http\<close>. Strings are bytes. The JSON parser takes fuel, and
    \<open>json_fuel_suffices\<close> shows that twice the length of the text is always enough; its
    nesting limit of 10000 is Go's. Json_Encode is Go's encoder: what it writes, the parser
    reads back (\<open>Encode_reads\<close>), and it holds no HTML character (\<open>inert_Encode\<close>). Json_Doc is the
    grammar of RFC 8259 with UTF-8 as derivations, stated apart from the parser: every
    document is read as its value (\<open>doc_reads\<close>), and an object into the texts of its members
    (\<open>raw_map_doc\<close>).
  \<^item> World: \<open>env\<close>, requests, log, and the loops over a ticker: a run is a list of what its
    \<open>select\<close> received, cut at the first \<open>CtxDone\<close>.
  \<^item> Config (\<open>internal/config/config.go\<close>): the configuration records, \<open>Load\<close>, \<open>Validate\<close>
    with its defaults, \<open>RepoByName\<close>.
  \<^item> Spawner (\<open>internal/spawner/spawner.go\<close>): \<open>spawner\<close> is the struct's mutable part; \<open>Spawn\<close>
    is composed of \<open>spawn_decide\<close> (pause, idle check, cap) and \<open>spawn_launch\<close> (env-file and
    \<open>docker run\<close>). Docker_Host and Env_File prove it correct against the contracts.
    Spawn_Race gives the same function as a step relation of any number of threads
    under the per-repo mutex, interleaved with steps of the rest of the system; an invariant
    ties each program counter to what its thread knows. Spawner_Props holds the properties:
    the cap and the mutual exclusion for every reachable state, progress, and that the
    sequential \<open>Spawn\<close> is one run of the steps.
  \<^item> Webhook, Webhook_Props (\<open>internal/webhook/verify.go\<close>, \<open>handler.go\<close>): the HMAC check and
    \<open>Dispatch\<close>, from the bytes of a delivery to the call of \<open>Spawn\<close>.
  \<^item> Smee, Smee_Stream, Smee_Props (\<open>internal/smee/client.go\<close>): \<open>parseStream\<close> (event framing),
    \<open>handleMessage\<close> (body and headers), \<open>Run\<close> with its backoff. \<open>smee_loop\<close> is a
    \<open>partial_function\<close>: it need not return, and \<open>reconnect_waits\<close> proves that it does when the
    context is cancelled and what it waited for. The order of Go's map iteration is an
    argument.
  \<^item> Reconciler, Reconciler_Props (\<open>internal/reconciler/reconciler.go\<close>): the queries, the demand,
    the spawn loop, ticks and the manual trigger. The locale \<open>spawn_service\<close> is what the
    loop needs of \<open>Spawn\<close>; \<open>quiet_service\<close> carries any relation kept by \<open>Spawn\<close> and by calls
    that start nothing through a run.
  \<^item> Cleanup, Cleanup_Props, Cleanup_GitHub (\<open>internal/cleanup/cleanup.go\<close>): ghosts, stuck runs,
    reaping of local containers, the tick with its summary and lifetime totals. A nil request
    (a URL that does not parse) is the result \<open>None\<close>.
  \<^item> Cleanup_Race, Cleanup_Sched: the goroutines of any number of ticks as a step relation, from
    the listing of the ghosts to the stored summary, mixed with each other and with changes of
    the world. Invariants tie the totals and the summaries to what each goroutine has counted so
    far; a well-founded order on where the goroutines are shows that all ticks end; and the
    sequential \<open>tickWithSummary\<close> is one of the schedules.
  \<^item> Portal, Docker_Ops, Portal_Acts, Portal_Props (\<open>internal/portal/portal.go\<close>): the token
    check, the live state and every endpoint. Portal_Acts carries a relation that reading calls
    keep (\<open>reading_env\<close>), and that the cleaner's calls keep too (\<open>cleaning_env\<close>), through the
    handlers; \<open>acts\<close> is the relation of all sequences of allowed calls. Portal_Json and Replies: the replies as status, content type and
    bytes, and what a client reads from them.
  \<^item> Autoscaler_Main, Program (\<open>cmd/autoscaler/main.go\<close>): the start, the routes, the wiring, the
    exit codes, and \<open>program_run\<close>, the events of all goroutines in any order.

  \<^bold>\<open>What is shown.\<close> Each theorem named by a claim number stands in the theory of its
  component. In short: no cap is exceeded by concurrent \<open>Spawn\<close>s (\<open>race_cap\<close>), nor by any
  sequence of events of the program (\<open>program_keeps_caps\<close>), and nothing starts while it is
  paused (\<open>paused_starts_nothing\<close>); a webhook reaches \<open>Spawn\<close> exactly if it is
  authentic and asks for a runner (\<open>Dispatch_gate\<close>, \<open>VerifySignature_exact\<close>); event streams and
  messages are delivered once and unchanged, for any blocks of lines and any JSON object
  (\<open>sse_delivers\<close>, \<open>message_delivers\<close>); the token never
  stays on disk nor in a readable file (\<open>Spawn_leaves_no_file\<close>, \<open>env_file_private\<close>); the
  cleaner removes only what it may and its books balance (\<open>reap_spares\<close>, \<open>stuck_runs_exact\<close>,
  \<open>ghosts_agree\<close>, \<open>tick_balances\<close>), under any interleaving too (\<open>cleanup_race_balances\<close>,
  \<open>cleanup_race_ends\<close>); the portal serves only who holds its token, changes
  only by POST and makes no call but those its paths allow (\<open>portal_auth\<close>, \<open>portal_changes\<close>) and a client reads from its JSON what the handler meant
  (\<open>state_reads_back\<close>, \<open>replies_inert\<close>); a configuration is accepted exactly if it is
  complete (\<open>Validate_accepts\<close>).

  \<^bold>\<open>Abstractions.\<close> Interleaving at the level of docker and HTTP calls is modelled for
  \<open>Spawn\<close> (Spawn_Race), where the mutex matters, and for the ticks of the cleaner
  (Cleanup_Race), which share its totals; there the two docker calls of a listing and of one
  reaping are one step. The reconciler's goroutines per repo and the events of \<open>program_run\<close>
  are taken one after the other in any order. Cancellation and timeouts show as error results of the calls. A crash loses the
  changes of the call that crashes. A map of Go that is iterated is a list with an arbitrary
  reordering, given as an argument that is a permutation. The counts in a summary and in the
  live state are integers without a width; the lifetime totals and the counters of the spawner
  are 64-bit words.

  \<^bold>\<open>Not modelled.\<close> \<open>realDocker\<close> (it runs the docker binary; it is the parameter
  \<open>docker_Exec\<close>), the order in which \<open>docker stop\<close>'s two output streams mix, the parsing of
  flags, signals and the sockets of the HTTP listener (their results are arguments), the headers
  of a reply other than its content type, the text of the embedded page (an argument), and the
  attributes of most log lines (the level and what the theorems need are kept).
\<close>

end
